(* ===== verification/Pilot_Prelude.thy ===== *)
theory Pilot_Prelude
  imports Main "HOL-Library.Word"
begin

text \<open>
  Shared vocabulary of the development: the Go machine types, the clock, byte
  strings and the big-endian codec of \<^verbatim>\<open>encoding/binary\<close>, bitmaps stored as
  arrays of 64-bit words, one-slot signal channels, and the generic lemmas on lists,
  maps and words the components share.

  Go's \<^verbatim>\<open>uint16\<close>, \<^verbatim>\<open>uint32\<close> and \<^verbatim>\<open>uint64\<close> are words of that width, so
  their arithmetic wraps. Go's \<^verbatim>\<open>int\<close> (64 bits on every supported platform) is
  \<open>int\<close>; the components prove the bounds that keep it away from its limits.
\<close>

unbundle bit_operations_syntax

section \<open>Types\<close>

type_synonym u8 = "8 word"
type_synonym u16 = "16 word"
type_synonym u32 = "32 word"
type_synonym u64 = "64 word"
type_synonym bytes = "u8 list"
type_synonym node_id = u32

text \<open>
  An instant is a number of nanoseconds since Go's zero \<^verbatim>\<open>time.Time\<close>, a
  \<^verbatim>\<open>time.Duration\<close> a number of nanoseconds. The wall clock is an argument
  (\<open>now\<close>) of every operation that reads it.
\<close>

type_synonym duration = int
type_synonym instant = int

abbreviation millisecond :: duration where "millisecond \<equiv> 1000000"
abbreviation second :: duration where "second \<equiv> 1000000000"
abbreviation minute :: duration where "minute \<equiv> 60000000000"

section \<open>Collections of facts\<close>

named_theorems go_defs \<open>definitions of the Go library operations used by the model\<close>
named_theorems time_simps \<open>comparisons of durations computed by \<^verbatim>\<open>time.Time.Sub\<close>\<close>
named_theorems codec_simps \<open>lengths and round trips of the wire codecs\<close>
named_theorems bitmap_simps \<open>reading a bitmap after setting or clearing a bit\<close>
named_theorems seq_simps \<open>serial-number arithmetic on sequence numbers\<close>

section \<open>The clock\<close>

text \<open>
  \<^verbatim>\<open>t.Sub(u)\<close> saturates at the range of a 64-bit duration. The zero time is the
  instant 0, which \<^verbatim>\<open>IsZero\<close> recognises.
\<close>

definition time_sub :: "instant \<Rightarrow> instant \<Rightarrow> duration" where
  "time_sub t u = max (- (2 ^ 63)) (min (2 ^ 63 - 1) (t - u))"

definition time_is_zero :: "instant \<Rightarrow> bool" where
  "time_is_zero t \<longleftrightarrow> t = 0"

lemma time_sub_less [time_simps]:
  "\<lbrakk> - (2 ^ 63) < d; d < 2 ^ 63 \<rbrakk> \<Longrightarrow> time_sub t u < d \<longleftrightarrow> t - u < d"
  by (auto simp: time_sub_def)

lemma time_sub_greater [time_simps]:
  "\<lbrakk> - (2 ^ 63) \<le> d; d < 2 ^ 63 - 1 \<rbrakk> \<Longrightarrow> d < time_sub t u \<longleftrightarrow> d < t - u"
  by (auto simp: time_sub_def)

lemma time_sub_le [time_simps]:
  "\<lbrakk> - (2 ^ 63) \<le> d; d < 2 ^ 63 - 1 \<rbrakk> \<Longrightarrow> time_sub t u \<le> d \<longleftrightarrow> t - u \<le> d"
  by (auto simp: time_sub_def)

lemma time_sub_ge [time_simps]:
  "\<lbrakk> - (2 ^ 63) < d; d < 2 ^ 63 \<rbrakk> \<Longrightarrow> d \<le> time_sub t u \<longleftrightarrow> d \<le> t - u"
  by (auto simp: time_sub_def)

section \<open>Integer division\<close>

text \<open>Go's \<^verbatim>\<open>/\<close> truncates towards zero.\<close>

definition go_div :: "int \<Rightarrow> int \<Rightarrow> int" where
  "go_div a b = sgn a * sgn b * (\<bar>a\<bar> div \<bar>b\<bar>)"

lemma go_div_nonneg: "\<lbrakk> 0 \<le> a; 0 < b \<rbrakk> \<Longrightarrow> go_div a b = a div b"
  by (cases "a = 0") (auto simp: go_div_def)

lemma go_div_bounds: "\<lbrakk> 0 \<le> a; 0 < b \<rbrakk> \<Longrightarrow> 0 \<le> go_div a b \<and> go_div a b \<le> a"
  using zdiv_mono2 [of a 1 b] by (simp add: go_div_nonneg pos_imp_zdiv_nonneg_iff)

lemma go_div_mono: "\<lbrakk> 0 \<le> a; a \<le> a'; 0 < b \<rbrakk> \<Longrightarrow> go_div a b \<le> go_div a' b"
  by (simp add: go_div_nonneg zdiv_mono1)

section \<open>Byte strings\<close>

text \<open>\<^verbatim>\<open>xs[i:j]\<close>, used only where the source has checked \<open>j \<le> len(xs)\<close>.\<close>

definition go_slice :: "'a list \<Rightarrow> nat \<Rightarrow> nat \<Rightarrow> 'a list" where
  [go_defs]: "go_slice xs i j = take (j - i) (drop i xs)"

lemma length_go_slice [codec_simps]: "j \<le> length xs \<Longrightarrow> length (go_slice xs i j) = j - i"
  by (simp add: go_slice_def)

lemma go_slice_append:
  "\<lbrakk> length xs = i; length ys = j - i; i \<le> j \<rbrakk> \<Longrightarrow> go_slice (xs @ ys @ zs) i j = ys"
  by (simp add: go_slice_def)

text \<open>Big-endian digits of a number.\<close>

fun be_digits :: "nat \<Rightarrow> nat \<Rightarrow> bytes" where
  "be_digits 0 x = []"
| "be_digits (Suc n) x = be_digits n (x div 256) @ [of_nat (x mod 256)]"

definition be_value :: "bytes \<Rightarrow> nat" where
  "be_value bs = foldl (\<lambda>a b. a * 256 + unat b) 0 bs"

lemma length_be_digits [simp, codec_simps]: "length (be_digits n x) = n"
  by (induction n arbitrary: x) auto

lemma be_value_snoc: "be_value (bs @ [b]) = be_value bs * 256 + unat b"
  by (simp add: be_value_def)

lemma be_value_digits: "be_value (be_digits n x) = x mod 256 ^ n"
proof (induction n arbitrary: x)
  case 0
  then show ?case by (simp add: be_value_def)
next
  case (Suc n)
  have "unat (of_nat (x mod 256) :: u8) = x mod 256"
    by (simp add: unat_of_nat)
  moreover have "x div 256 mod 256 ^ n * 256 + x mod 256 = x mod 256 ^ Suc n"
    by (simp add: mod_mult2_eq mult.commute)
  ultimately show ?case by (simp add: be_value_snoc Suc)
qed

lemma be_value_less: "be_value bs < 256 ^ length bs"
proof (induction bs rule: rev_induct)
  case Nil
  then show ?case by (simp add: be_value_def)
next
  case (snoc b bs)
  have "unat b < 256" using unsigned_less [of b] by simp
  with snoc show ?case by (simp add: be_value_snoc)
qed

lemma be_digits_value: "be_digits (length bs) (be_value bs) = bs"
proof (induction bs rule: rev_induct)
  case Nil
  then show ?case by simp
next
  case (snoc b bs)
  have "unat b < 256" using unsigned_less [of b] by simp
  with snoc show ?case by (simp add: be_value_snoc)
qed

text \<open>
  \<^verbatim>\<open>binary.BigEndian.PutUintN\<close> and \<^verbatim>\<open>UintN\<close>. The reading side is applied to
  slices of the right length only.
\<close>

definition put16 :: "u16 \<Rightarrow> bytes" where "put16 w = be_digits 2 (unat w)"
definition get16 :: "bytes \<Rightarrow> u16" where "get16 bs = of_nat (be_value bs)"
definition put32 :: "u32 \<Rightarrow> bytes" where "put32 w = be_digits 4 (unat w)"
definition get32 :: "bytes \<Rightarrow> u32" where "get32 bs = of_nat (be_value bs)"
definition put64 :: "u64 \<Rightarrow> bytes" where "put64 w = be_digits 8 (unat w)"
definition get64 :: "bytes \<Rightarrow> u64" where "get64 bs = of_nat (be_value bs)"

lemmas be_codec_defs [go_defs] =
  put16_def get16_def put32_def get32_def put64_def get64_def

section \<open>Fixed-width codecs as an interface\<close>

text \<open>
  The frame formats rely on three facts of a codec: its width, that a decoder reads back
  what the encoder wrote, and that every string of that width is the encoding of what it
  decodes to. Sequences of values then round-trip as well.
\<close>

locale fixed_codec =
  fixes enc :: "'v \<Rightarrow> bytes" and dec :: "bytes \<Rightarrow> 'v" and width :: nat
  assumes enc_length: "length (enc v) = width"
    and dec_enc: "dec (enc v) = v"
    and enc_dec: "length bs = width \<Longrightarrow> enc (dec bs) = bs"
begin

lemma enc_inject: "enc v = enc w \<longleftrightarrow> v = w"
  using dec_enc by metis

lemma dec_inject: "\<lbrakk> length bs = width; length cs = width \<rbrakk> \<Longrightarrow> dec bs = dec cs \<longleftrightarrow> bs = cs"
  using enc_dec by metis

lemma length_concat_enc: "length (concat (map enc vs)) = width * length vs"
  by (induction vs) (auto simp: enc_length)

lemma go_slice_concat:
  assumes "i < length vs"
  shows "go_slice (concat (map enc vs)) (width * i) (width * Suc i) = enc (vs ! i)"
proof -
  have "concat (map enc vs) =
      concat (map enc (take i vs)) @ enc (vs ! i) @ concat (map enc (drop (Suc i) vs))"
    using arg_cong [where f = "\<lambda>us. concat (map enc us)", OF id_take_nth_drop [OF assms]]
    by simp
  moreover have "length (concat (map enc (take i vs))) = width * i"
    using assms length_concat_enc [of "take i vs"] by simp
  ultimately show ?thesis
    using enc_length [of "vs ! i"] by (simp add: go_slice_append)
qed

end

lemma be_codec:
  assumes "LENGTH('a::len) = 8 * n"
  shows "fixed_codec (\<lambda>w :: 'a word. be_digits n (unat w)) (\<lambda>bs. of_nat (be_value bs)) n"
proof
  have pow: "(256 :: nat) ^ n = 2 ^ LENGTH('a)"
    using assms by (simp add: power_mult)
  fix v :: "'a word" and bs :: bytes
  show "length (be_digits n (unat v)) = n" by simp
  show "of_nat (be_value (be_digits n (unat v))) = v"
    using unsigned_less [of v] by (simp add: be_value_digits pow)
  assume "length bs = n"
  then have "be_value bs < 2 ^ LENGTH('a)"
    using be_value_less [of bs] pow by simp
  then show "be_digits n (unat (of_nat (be_value bs) :: 'a word)) = bs"
    using \<open>length bs = n\<close> be_digits_value [of bs] by (simp add: unat_of_nat take_bit_nat_eq_self)
qed

interpretation u16_codec: fixed_codec put16 get16 2
  unfolding put16_def [abs_def] get16_def [abs_def] by (rule be_codec) simp

interpretation u32_codec: fixed_codec put32 get32 4
  unfolding put32_def [abs_def] get32_def [abs_def] by (rule be_codec) simp

interpretation u64_codec: fixed_codec put64 get64 8
  unfolding put64_def [abs_def] get64_def [abs_def] by (rule be_codec) simp

lemmas be_codec_laws [simp, codec_simps] =
  u16_codec.enc_length u16_codec.dec_enc
  u32_codec.enc_length u32_codec.dec_enc
  u64_codec.enc_length u64_codec.dec_enc

section \<open>Bitmaps in arrays of 64-bit words\<close>

text \<open>
  The replay window and the ephemeral-port table are arrays of \<^verbatim>\<open>uint64\<close>. Bit \<open>i\<close>
  lives in word \<open>i / 64\<close> at position \<open>i % 64\<close>.
\<close>

definition bm_test :: "u64 list \<Rightarrow> nat \<Rightarrow> bool" where
  "bm_test bm i \<longleftrightarrow> bm ! (i div 64) AND push_bit (i mod 64) 1 \<noteq> 0"

definition bm_set :: "u64 list \<Rightarrow> nat \<Rightarrow> u64 list" where
  "bm_set bm i = bm[i div 64 := bm ! (i div 64) OR push_bit (i mod 64) 1]"

definition bm_clear :: "u64 list \<Rightarrow> nat \<Rightarrow> u64 list" where
  "bm_clear bm i = bm[i div 64 := bm ! (i div 64) AND NOT (push_bit (i mod 64) 1)]"

lemma length_bm_set [simp]: "length (bm_set bm i) = length bm"
  by (simp add: bm_set_def)

lemma length_bm_clear [simp]: "length (bm_clear bm i) = length bm"
  by (simp add: bm_clear_def)

lemma word_and_single_bit: "(w :: u64) AND push_bit n 1 \<noteq> 0 \<longleftrightarrow> bit w n" if "n < 64"
proof
  assume "bit w n"
  with that have "bit (w AND push_bit n 1) n" by (simp add: bit_simps)
  then show "w AND push_bit n 1 \<noteq> 0" by auto
next
  assume "w AND push_bit n 1 \<noteq> 0"
  then obtain m where "bit (w AND push_bit n 1) m" by (auto simp: bit_eq_iff)
  then show "bit w n" by (auto simp: bit_simps)
qed

lemma bm_test_bit: "bm_test bm i \<longleftrightarrow> bit (bm ! (i div 64)) (i mod 64)"
  unfolding bm_test_def by (rule word_and_single_bit) simp

lemma bm_word_set: "bit ((w :: u64) OR push_bit m 1) n \<longleftrightarrow> m < 64 \<and> m = n \<or> bit w n"
  by (auto simp: bit_or_iff bit_push_bit_iff bit_1_iff simp del: push_bit_of_1)

lemma bm_word_clear: "n < 64 \<Longrightarrow> bit ((w :: u64) AND NOT (push_bit m 1)) n \<longleftrightarrow> m \<noteq> n \<and> bit w n"
  by (auto simp: bit_and_iff bit_not_iff bit_push_bit_iff bit_1_iff simp del: push_bit_of_1)

lemma bm_index_less: "i < 64 * n \<Longrightarrow> i div 64 < (n :: nat)"
  by (simp add: less_mult_imp_div_less mult.commute)

lemma bm_same_index: "i = j \<longleftrightarrow> i div 64 = j div 64 \<and> i mod 64 = j mod (64 :: nat)"
  by (metis div_mult_mod_eq)

lemma bm_test_set [bitmap_simps]:
  assumes "i < 64 * length bm"
  shows "bm_test (bm_set bm i) j \<longleftrightarrow> i = j \<or> bm_test bm j"
  unfolding bm_test_bit bm_set_def bm_same_index [of i j] using bm_index_less [OF assms]
  by (auto simp: nth_list_update bm_word_set simp del: push_bit_of_1)

lemma bm_test_clear [bitmap_simps]:
  assumes "i < 64 * length bm"
  shows "bm_test (bm_clear bm i) j \<longleftrightarrow> i \<noteq> j \<and> bm_test bm j"
  unfolding bm_test_bit bm_clear_def bm_same_index [of i j] using bm_index_less [OF assms]
  by (auto simp: nth_list_update bm_word_clear simp del: push_bit_of_1)

lemma bm_test_zero [bitmap_simps]: "i < 64 * n \<Longrightarrow> \<not> bm_test (replicate n 0) i"
  by (simp add: bm_test_bit bm_index_less)

section \<open>Positions modulo a window\<close>

text \<open>Two numbers less than a modulus apart are equal when they are congruent.\<close>

lemma mod_window_inj:
  assumes "(m :: nat) mod k = n mod k" and "m \<le> n" and "n < m + k"
  shows "m = n"
proof (rule ccontr)
  assume "m \<noteq> n"
  have "k dvd n - m" using assms mod_eq_dvd_iff_nat [of m n k] by simp
  then have "k \<le> n - m" using \<open>m \<noteq> n\<close> assms by (intro dvd_imp_le) simp_all
  with assms show False by simp
qed

lemma of_nat_u32_inj:
  assumes "(of_nat m :: u32) = of_nat n" and "m < n + 2 ^ 32" and "n < m + 2 ^ 32"
  shows "m = n"
proof -
  have "m mod 2 ^ 32 = n mod 2 ^ 32"
    using assms(1) by (simp add: word_of_nat_eq_iff take_bit_eq_mod)
  then show ?thesis
    using assms mod_window_inj [of m "2 ^ 32" n] mod_window_inj [of n "2 ^ 32" m]
    by (cases "m \<le> n") auto
qed

section \<open>Signal channels\<close>

text \<open>
  A \<^verbatim>\<open>chan struct{}\<close> of capacity 1 used as an edge trigger: \<open>None\<close> is the nil
  channel, \<open>Some b\<close> says whether a signal is pending. The source sends with
  \<^verbatim>\<open>select { case ch <- struct{}{}: default: }\<close> after a nil check.
\<close>

type_synonym sigchan = "bool option"

definition chan_signal :: "sigchan \<Rightarrow> sigchan" where
  "chan_signal ch = map_option (\<lambda>_. True) ch"

lemma chan_signal_simps [simp]:
  "chan_signal None = None" "chan_signal (Some b) = Some True"
  "(chan_signal ch = None) = (ch = None)"
  by (auto simp: chan_signal_def)

section \<open>Runs of operations\<close>

text \<open>
  A component is a set of operations on its state. An invariant every operation keeps
  holds after every sequence of operations, and a quantity no operation lowers only grows.
\<close>

locale op_system =
  fixes step :: "'op \<Rightarrow> 's \<Rightarrow> 's" and inv :: "'s \<Rightarrow> bool"
  assumes step_inv: "inv s \<Longrightarrow> inv (step x s)"
begin

lemma run_inv: "inv s \<Longrightarrow> inv (fold step xs s)"
  by (induction xs arbitrary: s) (auto intro: step_inv)

lemma run_mono:
  assumes "\<And>x s. inv s \<Longrightarrow> (m s :: 'b :: order) \<le> m (step x s)" and "inv s"
  shows "m s \<le> m (fold step xs s)"
  using assms(2)
proof (induction xs arbitrary: s)
  case (Cons x xs)
  then have "m (step x s) \<le> m (fold step xs (step x s))" by (auto intro: step_inv)
  with assms(1) [OF Cons.prems] show ?case by (auto intro: order_trans)
qed simp

end

section \<open>Finite tables\<close>

text \<open>
  Go maps are \<open>'k \<rightharpoonup> 'v\<close> with a finite domain; \<^verbatim>\<open>len(m)\<close> is the size of it and
  \<^verbatim>\<open>m[k]\<close> on a missing key the zero value.
\<close>

definition map_len :: "('k \<rightharpoonup> 'v) \<Rightarrow> nat" where
  "map_len m = card (dom m)"

definition map_get :: "'v \<Rightarrow> ('k \<rightharpoonup> 'v) \<Rightarrow> 'k \<Rightarrow> 'v" where
  "map_get z m k = (case m k of None \<Rightarrow> z | Some v \<Rightarrow> v)"

definition map_prune :: "('v \<Rightarrow> bool) \<Rightarrow> ('k \<rightharpoonup> 'v) \<Rightarrow> ('k \<rightharpoonup> 'v)" where
  "map_prune gone m = (\<lambda>k. case m k of None \<Rightarrow> None | Some v \<Rightarrow> if gone v then None else Some v)"

lemma map_get_simps [simp]:
  "map_get z (m(k \<mapsto> v)) k = v" "map_get z (m(k := None)) k = z"
  "j \<noteq> k \<Longrightarrow> map_get z (m(k := x)) j = map_get z m j"
  "m k = None \<Longrightarrow> map_get z m k = z" "m k = Some v \<Longrightarrow> map_get z m k = v"
  by (auto simp: map_get_def)

lemma map_len_insert:
  "finite (dom m) \<Longrightarrow> map_len (m(k \<mapsto> v)) = (if k \<in> dom m then map_len m else Suc (map_len m))"
  by (auto simp: map_len_def insert_absorb)

lemma map_len_delete:
  "finite (dom m) \<Longrightarrow> map_len (m(k := None)) = (if k \<in> dom m then map_len m - 1 else map_len m)"
  by (auto simp: map_len_def card_Diff_singleton_if)

lemma map_len_delete_le: "finite (dom m) \<Longrightarrow> map_len (m(k := None)) \<le> map_len m"
  by (simp add: map_len_delete)

lemma dom_map_prune_subset: "dom (map_prune p m) \<subseteq> dom m"
  by (auto simp: map_prune_def split: option.splits if_splits)

lemma finite_map_prune [simp]: "finite (dom m) \<Longrightarrow> finite (dom (map_prune p m))"
  by (rule finite_subset [OF dom_map_prune_subset])

lemma map_len_prune_le: "finite (dom m) \<Longrightarrow> map_len (map_prune p m) \<le> map_len m"
  unfolding map_len_def by (intro card_mono dom_map_prune_subset)

lemma map_prune_Some: "map_prune p m k = Some v \<longleftrightarrow> m k = Some v \<and> \<not> p v"
  by (auto simp: map_prune_def split: option.splits)

end
