(* ===== verification/Seq_Arith.thy ===== *)
theory Seq_Arith
  imports Pilot_Prelude
begin

text \<open>
  Serial-number arithmetic on 32-bit sequence numbers (\<^verbatim>\<open>seqAfter\<close> and
  \<^verbatim>\<open>seqAfterOrEqual\<close> of \<^verbatim>\<open>src/pkg/daemon/ports.go\<close>). The facts proved here
  are what every user of the comparison relies on: inside a window of less than half the
  sequence space the comparison is the order of the offsets, whatever the base and however
  the addition wraps.
\<close>

definition seqAfter :: "u32 \<Rightarrow> u32 \<Rightarrow> bool" where
  "seqAfter a b \<longleftrightarrow> 0 < sint (a - b)"

definition seqAfterOrEqual :: "u32 \<Rightarrow> u32 \<Rightarrow> bool" where
  "seqAfterOrEqual a b \<longleftrightarrow> a = b \<or> 0 < sint (a - b)"

lemma mod_half_shift:
  fixes k :: int
  assumes "0 \<le> k" and "k < 2 ^ 32"
  shows "(k + 2 ^ 31) mod 2 ^ 32 = (if k < 2 ^ 31 then k + 2 ^ 31 else k - 2 ^ 31)"
proof (cases "k < 2 ^ 31")
  case False
  have "(k + 2 ^ 31) mod 2 ^ 32 = ((k - 2 ^ 31) + 2 ^ 32) mod 2 ^ 32" by (simp add: add.commute)
  also have "\<dots> = (k - 2 ^ 31) mod 2 ^ 32" by (rule mod_add_self2)
  also have "\<dots> = k - 2 ^ 31" using assms False by (intro mod_pos_pos_trivial) simp_all
  finally show ?thesis using False by simp
qed (use assms in \<open>simp add: mod_pos_pos_trivial\<close>)

lemma sint32_pos: "0 < sint (w :: u32) \<longleftrightarrow> w \<noteq> 0 \<and> unat w < 2 ^ 31"
proof -
  have range: "0 \<le> uint w" "uint w < 2 ^ 32"
    using uint_lt2p [of w] by simp_all
  have "sint w = (uint w + 2 ^ 31) mod 2 ^ 32 - 2 ^ 31"
    by (simp add: sint_uint signed_take_bit_eq_take_bit_shift take_bit_eq_mod)
  then have "0 < sint w \<longleftrightarrow> 0 < uint w \<and> uint w < 2 ^ 31"
    using range unfolding mod_half_shift [OF range] by auto
  moreover have "uint w < 2 ^ 31 \<longleftrightarrow> unat w < 2 ^ 31"
    using of_nat_less_iff [where 'a = int, of "unat w" "2 ^ 31"] by simp
  moreover have "0 < uint w \<longleftrightarrow> w \<noteq> 0"
    using of_nat_less_iff [where 'a = int, of 0 "unat w"] by (simp add: unat_gt_0)
  ultimately show ?thesis by simp
qed

lemma seqAfter_unat: "seqAfter a b \<longleftrightarrow> a \<noteq> b \<and> unat (a - b) < 2 ^ 31"
  by (simp add: seqAfter_def sint32_pos)

lemma seqAfterOrEqual_alt: "seqAfterOrEqual a b \<longleftrightarrow> a = b \<or> seqAfter a b"
  by (simp add: seqAfterOrEqual_def seqAfter_def)

lemma seqAfterOrEqual_unat: "seqAfterOrEqual a b \<longleftrightarrow> unat (a - b) < 2 ^ 31"
  by (auto simp: seqAfterOrEqual_alt seqAfter_unat)

lemma seqAfter_refl [simp, seq_simps]: "\<not> seqAfter a a" "seqAfterOrEqual a a"
  by (simp_all add: seqAfter_def seqAfterOrEqual_def)

lemma seqAfter_translate: "seqAfter (a + c) (b + c) \<longleftrightarrow> seqAfter a b"
  by (simp add: seqAfter_def)

lemma unat_minus_swap: "a \<noteq> b \<Longrightarrow> unat (a - b) + unat (b - a) = 2 ^ 32" for a b :: u32
proof -
  assume "a \<noteq> b"
  have "unat ((a - b) + (b - a)) = (unat (a - b) + unat (b - a)) mod 2 ^ 32"
    by (subst unat_word_ariths) simp
  then have "(unat (a - b) + unat (b - a)) mod 2 ^ 32 = 0" by simp
  moreover have "0 < unat (a - b)" using \<open>a \<noteq> b\<close> by (simp add: unat_gt_0)
  moreover have "unat (a - b) < 2 ^ 32" "unat (b - a) < 2 ^ 32"
    using unsigned_less [of "a - b"] unsigned_less [of "b - a"] by simp_all
  ultimately show ?thesis by (simp add: mod_if split: if_splits)
qed

lemma seqAfter_asym: "seqAfter a b \<Longrightarrow> \<not> seqAfter b a"
  using unat_minus_swap [of a b] by (auto simp: seqAfter_unat)

lemma seqAfter_not_geq: "seqAfter a b \<Longrightarrow> \<not> seqAfterOrEqual b a"
  using seqAfter_asym by (auto simp: seqAfterOrEqual_alt)

text \<open>Two distinct sequence numbers are ordered unless they are exactly opposite.\<close>

lemma seqAfter_total:
  "seqAfter a b \<or> seqAfter b a \<longleftrightarrow> a \<noteq> b \<and> unat (a - b) \<noteq> 2 ^ 31"
proof (cases "a = b")
  case False
  then show ?thesis
    using unat_minus_swap [OF False] by (auto simp: seqAfter_unat)
qed simp

lemma not_seqAfterOrEqual:
  "unat (a - b) \<noteq> 2 ^ 31 \<Longrightarrow> \<not> seqAfterOrEqual a b \<longleftrightarrow> seqAfter b a"
  using seqAfter_total [of a b] seqAfter_asym [of a b] by (auto simp: seqAfterOrEqual_alt)

section \<open>Windows\<close>

text \<open>
  \<open>seq_off b x\<close> is the offset of \<open>x\<close> past the base \<open>b\<close>. Between numbers whose
  offsets are below half the sequence space, the circular comparison is the order of the
  offsets.
\<close>

definition seq_off :: "u32 \<Rightarrow> u32 \<Rightarrow> nat" where
  "seq_off b x = unat (x - b)"

lemma seq_off_self [simp, seq_simps]: "seq_off b b = 0"
  by (simp add: seq_off_def)

lemma seq_off_eq_iff [seq_simps]: "seq_off b x = seq_off b y \<longleftrightarrow> x = y"
  unfolding seq_off_def by (metis diff_add_cancel word_unat_eq_iff)

lemma seq_off_less: "seq_off b x < 2 ^ 32"
  using unsigned_less [of "x - b"] by (simp add: seq_off_def)

lemma add_diff_eq_swap: "x + n - b = (x - b) + n" for x n b :: u32
  by (simp only: diff_conv_add_uminus add.assoc add.commute [of n])

lemma seq_off_add:
  "seq_off b x + n < 2 ^ 32 \<Longrightarrow> seq_off b (x + of_nat n) = seq_off b x + n"
proof -
  assume a: "seq_off b x + n < 2 ^ 32"
  then have "unat (of_nat n :: u32) = n" by (simp add: unat_of_nat take_bit_nat_eq_self)
  moreover have "seq_off b (x + of_nat n) = unat ((x - b) + of_nat n)"
    unfolding seq_off_def by (simp only: add_diff_eq_swap)
  ultimately show ?thesis
    using a unat_add_lem [of "x - b" "of_nat n :: u32"] by (simp add: seq_off_def)
qed

lemma seq_off_diff:
  assumes "seq_off b y \<le> seq_off b x"
  shows "unat (x - y) = seq_off b x - seq_off b y"
proof -
  have "x - y = (x - b) - (y - b)" by simp
  moreover have "(y - b) \<le> (x - b)" using assms by (simp add: seq_off_def word_le_nat_alt)
  ultimately show ?thesis unfolding seq_off_def by (metis unat_sub)
qed

lemma seqAfter_window:
  assumes "seq_off b x < 2 ^ 31" and "seq_off b y < 2 ^ 31"
  shows "seqAfter x y \<longleftrightarrow> seq_off b y < seq_off b x"
proof (cases "seq_off b y \<le> seq_off b x")
  case True
  with assms show ?thesis
    using seq_off_eq_iff [of b x y] by (auto simp: seqAfter_unat seq_off_diff)
next
  case False
  then have "seqAfter y x"
    using assms seq_off_eq_iff [of b x y] seq_off_diff [of b x y] by (auto simp: seqAfter_unat)
  with False show ?thesis using seqAfter_asym by auto
qed

lemma seqAfterOrEqual_window:
  assumes "seq_off b x < 2 ^ 31" and "seq_off b y < 2 ^ 31"
  shows "seqAfterOrEqual x y \<longleftrightarrow> seq_off b y \<le> seq_off b x"
  using seqAfter_window [OF assms] seq_off_eq_iff [of b x y]
  by (auto simp: seqAfterOrEqual_alt)

lemmas seq_window = seqAfter_window seqAfterOrEqual_window

end
