(* ===== verification/Sack_Codec.thy ===== *)
theory Sack_Codec
  imports Pilot_Prelude
begin

text \<open>
  The selective-acknowledgement payload of \<^verbatim>\<open>src/pkg/daemon/ports.go\<close>
  (\<^verbatim>\<open>EncodeSACK\<close>, \<^verbatim>\<open>DecodeSACK\<close>): the magic \<^verbatim>\<open>SACK\<close>, a count of one to four
  and that many pairs of 32-bit sequence numbers. A nil slice is the empty list.
\<close>

record SACKBlock =
  Left :: u32
  Right :: u32

definition sackMagic :: bytes where
  "sackMagic = [0x53, 0x41, 0x43, 0x4B]"

definition put_block :: "SACKBlock \<Rightarrow> bytes" where
  "put_block b = put32 (Left b) @ put32 (Right b)"

definition EncodeSACK :: "SACKBlock list \<Rightarrow> bytes" where
  "EncodeSACK blocks =
    (if length blocks = 0 then []
     else let n = (if length blocks > 4 then 4 else length blocks) in
       sackMagic @ [of_nat n] @ concat (map put_block (take n blocks)))"

definition get_block :: "bytes \<Rightarrow> nat \<Rightarrow> SACKBlock" where
  "get_block data off =
    \<lparr> Left = get32 (go_slice data off (off + 4)),
      Right = get32 (go_slice data (off + 4) (off + 8)) \<rparr>"

definition DecodeSACK :: "bytes \<Rightarrow> SACKBlock list option" where
  "DecodeSACK data =
    (if length data < 5 \<or> go_slice data 0 4 \<noteq> sackMagic then None
     else let n = unat (data ! 4) in
       if n = 0 \<or> n > 4 \<or> length data < 5 + n * 8 then None
       else Some (map (\<lambda>i. get_block data (5 + i * 8)) [0..<n]))"

lemma length_sackMagic [simp]: "length sackMagic = 4"
  by (simp add: sackMagic_def)

section \<open>One block\<close>

text \<open>Eight bytes are a block and a block is eight bytes.\<close>

interpretation block_codec: fixed_codec put_block "\<lambda>bs. get_block bs 0" 8
proof
  fix v :: SACKBlock and bs :: bytes
  show "length (put_block v) = 8" by (simp add: put_block_def)
  show "get_block (put_block v) 0 = v"
    by (simp add: get_block_def put_block_def go_slice_def)
  assume len: "length bs = 8"
  then have "put32 (get32 (take 4 bs)) = take 4 bs"
    "put32 (get32 (take 4 (drop 4 bs))) = take 4 (drop 4 bs)"
    by (auto intro: u32_codec.enc_dec)
  moreover have "take 4 bs @ take 4 (drop 4 bs) = bs"
    using len by (metis add_diff_cancel_left' append_take_drop_id length_drop nat_le_linear
        numeral_Bit0 take_all_iff)
  ultimately show "put_block (get_block bs 0) = bs"
    by (simp add: put_block_def get_block_def go_slice_def)
qed

lemmas block_codec_laws [simp, codec_simps] = block_codec.enc_length block_codec.dec_enc

lemma go_slice_shift: "go_slice (xs @ ys) (length xs + i) (length xs + j) = go_slice ys i j"
  by (simp add: go_slice_def)

lemma get_block_slice:
  "off + 8 \<le> length data \<Longrightarrow> get_block data off = get_block (go_slice data off (off + 8)) 0"
  by (simp add: get_block_def go_slice_def take_drop min_def add.commute)

lemma put_get_block:
  assumes "off + 8 \<le> length data"
  shows "put_block (get_block data off) = go_slice data off (off + 8)"
  unfolding get_block_slice [OF assms]
  by (rule block_codec.enc_dec) (use assms in \<open>simp add: length_go_slice\<close>)

section \<open>Lists of blocks\<close>

definition get_blocks :: "bytes \<Rightarrow> nat \<Rightarrow> SACKBlock list" where
  "get_blocks data n = map (\<lambda>i. get_block data (5 + i * 8)) [0..<n]"

lemma get_blocks_encoded:
  assumes "length hd5 = 5"
  shows "get_blocks (hd5 @ concat (map put_block bs) @ rest) (length bs) = bs"
proof (rule nth_equalityI)
  fix i assume "i < length (get_blocks (hd5 @ concat (map put_block bs) @ rest) (length bs))"
  then have i: "i < length bs" by (simp add: get_blocks_def)
  let ?d = "hd5 @ concat (map put_block bs) @ rest"
  have len: "length (concat (map put_block bs)) = 8 * length bs"
    by (rule block_codec.length_concat_enc)
  have "go_slice ?d (5 + i * 8) (5 + i * 8 + 8)
      = go_slice (concat (map put_block bs) @ rest) (8 * i) (8 * Suc i)"
    using go_slice_shift [of hd5 _ "8 * i" "8 * Suc i"] assms by (simp add: algebra_simps)
  also have "\<dots> = go_slice (concat (map put_block bs)) (8 * i) (8 * Suc i)"
    using len i by (simp add: go_slice_def)
  also have "\<dots> = put_block (bs ! i)" using i by (rule block_codec.go_slice_concat)
  finally have "go_slice ?d (5 + i * 8) (5 + i * 8 + 8) = put_block (bs ! i)" .
  moreover have "5 + i * 8 + 8 \<le> length ?d" using assms len i by simp
  ultimately have "get_block ?d (5 + i * 8) = bs ! i"
    using get_block_slice [of "5 + i * 8" ?d] by simp
  then show "get_blocks ?d (length bs) ! i = bs ! i" using i by (simp add: get_blocks_def)
qed (simp add: get_blocks_def)

lemma concat_get_blocks:
  "5 + n * 8 \<le> length data \<Longrightarrow>
    concat (map put_block (get_blocks data n)) = go_slice data 5 (5 + n * 8)"
proof (induction n)
  case (Suc n)
  then have "concat (map put_block (get_blocks data (Suc n)))
      = go_slice data 5 (5 + n * 8) @ go_slice data (5 + n * 8) (5 + n * 8 + 8)"
    using put_get_block [of "5 + n * 8" data] by (simp add: get_blocks_def)
  also have "\<dots> = go_slice data 5 (5 + Suc n * 8)"
    using take_add [of "n * 8" 8 "drop 5 data"] by (simp add: go_slice_def add.commute)
  finally show ?case .
qed (simp add: get_blocks_def go_slice_def)

lemma EncodeSACK_short:
  "0 < length bs \<Longrightarrow> length bs \<le> 4 \<Longrightarrow>
    EncodeSACK bs = sackMagic @ [of_nat (length bs)] @ concat (map put_block bs)"
  by (simp add: EncodeSACK_def)

lemma unat_small_byte: "n \<le> 4 \<Longrightarrow> unat (of_nat n :: u8) = n"
  by (simp add: unat_of_nat take_bit_nat_eq_self)

lemma length_EncodeSACK: "length (EncodeSACK bs) = (if bs = [] then 0 else 5 + 8 * min 4 (length bs))"
  using block_codec.length_concat_enc [of "take 4 bs"] block_codec.length_concat_enc [of bs]
  by (simp add: EncodeSACK_def Let_def)

lemma DecodeSACK_encoded:
  assumes "0 < length bs" and "length bs \<le> 4"
  shows "DecodeSACK (EncodeSACK bs @ rest) = Some bs"
proof -
  let ?d = "(sackMagic @ [of_nat (length bs)]) @ concat (map put_block bs) @ rest"
  have eq: "EncodeSACK bs @ rest = ?d" using assms by (simp add: EncodeSACK_short)
  have "go_slice ?d 0 4 = sackMagic" by (simp add: go_slice_def)
  moreover have "?d ! 4 = of_nat (length bs)" by (simp add: nth_append)
  moreover have "get_blocks ?d (length bs) = bs" by (rule get_blocks_encoded) simp
  moreover have "length ?d = 5 + length bs * 8 + length rest"
    using block_codec.length_concat_enc [of bs] by simp
  ultimately show ?thesis
    using assms unfolding eq
    by (simp add: DecodeSACK_def unat_small_byte flip: get_blocks_def)
qed

lemma DecodeSACK_SomeD:
  assumes "DecodeSACK data = Some bs"
  shows "0 < length bs \<and> length bs \<le> 4 \<and> (\<exists>rest. data = EncodeSACK bs @ rest)"
proof -
  define n where "n = unat (data ! 4)"
  from assms have magic: "take 4 data = sackMagic" and n: "0 < n" "n \<le> 4" "5 + n * 8 \<le> length data"
    and bs: "bs = get_blocks data n"
    by (auto simp: DecodeSACK_def get_blocks_def n_def go_slice_def Let_def split: if_splits)
  then have len: "length bs = n" by (simp add: get_blocks_def)
  have "data = take 4 data @ [data ! 4] @ drop 5 data"
    using n id_take_nth_drop [of 4 data] by simp
  also have "drop 5 data = concat (map put_block bs) @ drop (5 + n * 8) data"
    using concat_get_blocks [of n data] n bs append_take_drop_id [of "n * 8" "drop 5 data"]
    by (simp add: go_slice_def add.commute)
  finally have "data = EncodeSACK bs @ drop (5 + n * 8) data"
    using magic n len by (simp add: EncodeSACK_short n_def)
  then show ?thesis using n len by blast
qed

section \<open>The payload format\<close>

text \<open>
  (C31) A payload decodes to a list of blocks exactly when the list has one to four blocks
  and the payload begins with their encoding: decoding is the inverse of encoding, trailing
  bytes are ignored, and every other payload is rejected.
\<close>

theorem DecodeSACK_iff:
  "DecodeSACK data = Some bs \<longleftrightarrow>
    0 < length bs \<and> length bs \<le> 4 \<and> (\<exists>rest. data = EncodeSACK bs @ rest)"
  using DecodeSACK_SomeD DecodeSACK_encoded by metis

end
