(* ===== verification/Conn_Types.thy ===== *)
theory Conn_Types
  imports Seq_Arith Sack_Codec
begin

text \<open>
  The data of a stream connection: \<^verbatim>\<open>Connection\<close>, its retransmission and reassembly
  entries, its statistics and states (\<^verbatim>\<open>src/pkg/daemon/ports.go\<close>), and the packet the
  handlers exchange.

  Mutexes and wait groups are left out: an operation is one critical section. Channels of
  byte slices are lists; a channel used as a wake-up signal is a \<open>sigchan\<close>; a stop channel
  is \<open>None\<close> when nil and otherwise says whether it is closed. A timer is the instant it
  fires at, \<open>None\<close> when not armed. The send callback \<^verbatim>\<open>RetxSend\<close> is the flag
  \<open>RetxSend\<close> (set or nil); what it sends is returned by the operation that calls it. The
  channel \<^verbatim>\<open>SendBuf\<close>, which no code reads or writes, has no field.
\<close>

section \<open>Packets\<close>

text \<open>
  The packet type is declared outside \<^verbatim>\<open>src/\<close>. The record has the fields the daemon reads
  and writes, with the flag byte as the set of the flags the daemon tests; the version byte,
  which is the same constant in every packet, is left out.
\<close>

datatype flag = FlagSYN | FlagACK | FlagFIN | FlagRST

datatype proto = ProtoStream | ProtoDatagram | ProtoControl | ProtoOther u8

record Addr =
  Network :: u16
  Node :: node_id

record packet =
  Flags :: "flag set"
  Protocol :: proto
  Src :: Addr
  Dst :: Addr
  SrcPort :: u16
  DstPort :: u16
  Seq :: u32
  Ack :: u32
  Window :: u16
  Payload :: bytes

definition HasFlag :: "flag \<Rightarrow> packet \<Rightarrow> bool" where
  "HasFlag f pkt \<longleftrightarrow> f \<in> Flags pkt"

section \<open>Connections\<close>

record retxEntry =
  edata :: bytes
  eseq :: u32
  sentAt :: instant
  origSentAt :: instant
  attempts :: int
  sacked :: bool
  isFIN :: bool

record recvSegment =
  rseq :: u32
  rdata :: bytes

definition SendSegmentSize :: int where "SendSegmentSize = 1152"
definition MaxSegmentSize :: int where "MaxSegmentSize = 4096"
definition InitialCongWin :: int where "InitialCongWin = 10 * MaxSegmentSize"
definition MaxCongWin :: int where "MaxCongWin = 1024 * 1024"
definition RecvBufSize :: nat where "RecvBufSize = 512"
definition MaxOOOBuf :: nat where "MaxOOOBuf = 128"
definition MaxSegmentsOutstanding :: nat where "MaxSegmentsOutstanding = MaxOOOBuf"
definition AcceptQueueLen :: nat where "AcceptQueueLen = 64"
definition MaxNagleBuf :: int where "MaxNagleBuf = 64 * MaxSegmentSize"
definition ClockGranularity :: duration where "ClockGranularity = 10 * millisecond"
definition RTOMin :: duration where "RTOMin = 200 * millisecond"
definition RTOMax :: duration where "RTOMax = 10 * second"
definition InitialRTO :: duration where "InitialRTO = 1 * second"
definition MaxRetxAttempts :: int where "MaxRetxAttempts = 8"
definition QuickACKBudget :: int where "QuickACKBudget = 32"
definition DelayedACKThreshold :: int where "DelayedACKThreshold = 2"

lemmas window_consts =
  SendSegmentSize_def MaxSegmentSize_def InitialCongWin_def MaxCongWin_def RecvBufSize_def
  MaxOOOBuf_def MaxSegmentsOutstanding_def MaxNagleBuf_def

lemmas rto_consts = ClockGranularity_def RTOMin_def RTOMax_def InitialRTO_def

record ConnStats =
  BytesSent :: u64
  BytesRecv :: u64
  SegsSent :: u64
  SegsRecv :: u64
  Retransmits :: u64
  FastRetx :: u64
  SACKRecv :: u64
  SACKSent :: u64
  DupACKs :: u64

datatype ConnState =
    StateClosed | StateListen | StateSynSent | StateSynReceived
  | StateEstablished | StateFinWait | StateCloseWait | StateTimeWait

fun ConnState_String :: "ConnState \<Rightarrow> string" where
  "ConnState_String StateClosed = ''CLOSED''"
| "ConnState_String StateListen = ''LISTEN''"
| "ConnState_String StateSynSent = ''SYN_SENT''"
| "ConnState_String StateSynReceived = ''SYN_RECV''"
| "ConnState_String StateEstablished = ''ESTABLISHED''"
| "ConnState_String StateFinWait = ''FIN_WAIT''"
| "ConnState_String StateCloseWait = ''CLOSE_WAIT''"
| "ConnState_String StateTimeWait = ''TIME_WAIT''"

text \<open>The test \<^verbatim>\<open>st != StateClosed && st != StateTimeWait\<close> of the port manager.\<close>

definition active_state :: "ConnState \<Rightarrow> bool" where
  "active_state st \<longleftrightarrow> st \<noteq> StateClosed \<and> st \<noteq> StateTimeWait"

record Connection =
  ID :: u32
  LocalAddr :: Addr
  LocalPort :: u16
  RemoteAddr :: Addr
  RemotePort :: u16
  State :: ConnState
  LastActivity :: instant
  heldFIN :: "packet option"
  finLingerTimer :: "instant option"
  SendSeq :: u32
  RecvAck :: u32
  SynAckSeq :: u32
  SynAckSeqSet :: bool
  RecvBuf :: "bytes list"
  Unacked :: "retxEntry list"
  LastAck :: u32
  DupAckCount :: int
  RTO :: duration
  SRTT :: duration
  RTTVAR :: duration
  CongWin :: int
  SSThresh :: int
  InRecovery :: bool
  FastRecovery :: bool
  RecoveryPoint :: u32
  RetxStop :: "bool option"
  RetxSend :: bool
  WindowCh :: sigchan
  PeerRecvWin :: int
  NagleBuf :: bytes
  tailFlusher :: bool
  NagleCh :: sigchan
  DialCh :: sigchan
  NoDelay :: bool
  ExpectedSeq :: u32
  OOOBuf :: "recvSegment list"
  finPending :: bool
  finSeq :: u32
  finHeard :: instant
  finHoldTimer :: "instant option"
  PendingACKs :: int
  ACKTimer :: "instant option"
  QuickACKs :: int
  KeepaliveUnacked :: int
  RecvClosed :: bool
  LastRetxTime :: instant
  Stats :: ConnStats

definition zero_addr :: Addr where "zero_addr = \<lparr> Network = 0, Node = 0 \<rparr>"

definition zero_stats :: ConnStats where
  "zero_stats = \<lparr> BytesSent = 0, BytesRecv = 0, SegsSent = 0, SegsRecv = 0, Retransmits = 0,
    FastRetx = 0, SACKRecv = 0, SACKSent = 0, DupACKs = 0 \<rparr>"

text \<open>The connection \<^verbatim>\<open>NewConnection\<close> creates, every unnamed field at its zero value.\<close>

definition new_connection :: "instant \<Rightarrow> u32 \<Rightarrow> u16 \<Rightarrow> Addr \<Rightarrow> u16 \<Rightarrow> Connection" where
  "new_connection now i localPort remoteAddr remotePort =
    \<lparr> ID = i, LocalAddr = zero_addr, LocalPort = localPort, RemoteAddr = remoteAddr,
      RemotePort = remotePort, State = StateClosed, LastActivity = now, heldFIN = None,
      finLingerTimer = None, SendSeq = 0, RecvAck = 0, SynAckSeq = 0, SynAckSeqSet = False,
      RecvBuf = [], Unacked = [], LastAck = 0, DupAckCount = 0, RTO = 0, SRTT = 0, RTTVAR = 0,
      CongWin = InitialCongWin, SSThresh = MaxCongWin div 2, InRecovery = False,
      FastRecovery = False, RecoveryPoint = 0, RetxStop = Some False, RetxSend = False,
      WindowCh = Some False, PeerRecvWin = -1, NagleBuf = [], tailFlusher = False,
      NagleCh = Some False, DialCh = Some False, NoDelay = False, ExpectedSeq = 0, OOOBuf = [],
      finPending = False, finSeq = 0, finHeard = 0, finHoldTimer = None, PendingACKs = 0,
      ACKTimer = None, QuickACKs = QuickACKBudget, KeepaliveUnacked = 0, RecvClosed = False,
      LastRetxTime = 0, Stats = zero_stats \<rparr>"

end
