(* ===== verification/Conn_Recv.thy ===== *)
theory Conn_Recv
  imports Conn_Types
begin

text \<open>
  The receiving half of a connection (\<^verbatim>\<open>src/pkg/daemon/ports.go\<close>): reassembly of a byte
  stream from segments that arrive in any order (\<^verbatim>\<open>DeliverInOrder\<close>), the advertised
  window and the selective acknowledgements.

  \<^verbatim>\<open>DeliverInOrder\<close> pushes segments into the channel \<^verbatim>\<open>RecvBuf\<close>, waiting up to a second
  for the reader. The argument \<open>drained\<close> is the number of segments the reader takes out
  during that phase; the push of a segment fails when the channel is still full. Every value
  of \<open>drained\<close> is covered by the theorems.
\<close>

section \<open>Operations\<close>

definition RecvWindow :: "Connection \<Rightarrow> u16" where
  "RecvWindow c =
    (let free = int RecvBufSize - int (length (RecvBuf c));
         free = (if free < 0 then 0 else free);
         free = (if free > 0xFFFF then 0xFFFF else free)
     in of_int free)"

definition hasOOOSeg :: "u32 \<Rightarrow> Connection \<Rightarrow> bool" where
  "hasOOOSeg sq c \<longleftrightarrow> (\<exists>seg\<in>set (OOOBuf c). rseq seg = sq)"

definition seg_end :: "recvSegment \<Rightarrow> u32" where
  "seg_end seg = rseq seg + of_nat (length (rdata seg))"

text \<open>The first segment of the buffer that starts at a sequence number, and the others.\<close>

fun take_seg :: "u32 \<Rightarrow> recvSegment list \<Rightarrow> (recvSegment \<times> recvSegment list) option" where
  "take_seg sq [] = None"
| "take_seg sq (seg # segs) =
    (if rseq seg = sq then Some (seg, segs)
     else map_option (\<lambda>(x, rest). (x, seg # rest)) (take_seg sq segs))"

lemma take_seg_length: "take_seg sq segs = Some (x, rest) \<Longrightarrow> length segs = Suc (length rest)"
  by (induction segs arbitrary: rest) (auto split: if_splits)

function drain_ooo :: "u32 \<Rightarrow> recvSegment list \<Rightarrow> recvSegment list \<times> recvSegment list" where
  "drain_ooo nextSeq ooo =
    (case take_seg nextSeq ooo of
       None \<Rightarrow> ([], ooo)
     | Some (seg, rest) \<Rightarrow>
        (case drain_ooo (seg_end seg) rest of (segs, ooo') \<Rightarrow> (seg # segs, ooo')))"
  by pat_completeness auto
termination
  by (relation "measure (\<lambda>(_, ooo). length ooo)") (auto dest: take_seg_length)

declare drain_ooo.simps [simp del]

definition deliver_phase1 :: "u32 \<Rightarrow> bytes \<Rightarrow> Connection \<Rightarrow> recvSegment list \<times> Connection" where
  "deliver_phase1 sq data c =
    (let incoming = \<lparr> rseq = sq, rdata = data \<rparr> in
     if sq = ExpectedSeq c then
       (case drain_ooo (seg_end incoming) (OOOBuf c) of
          (segs, ooo) \<Rightarrow> (incoming # segs, c\<lparr> OOOBuf := ooo \<rparr>))
     else if seqAfter sq (ExpectedSeq c) then
       ([], if \<not> hasOOOSeg sq c \<and> length (OOOBuf c) < MaxOOOBuf
            then c\<lparr> OOOBuf := OOOBuf c @ [incoming] \<rparr> else c)
     else ([], c))"

definition deliver_phase2 :: "nat \<Rightarrow> recvSegment list \<Rightarrow> Connection \<Rightarrow> nat \<times> bytes list \<times> Connection" where
  "deliver_phase2 drained toDeliver c =
    (let delivered = min (length toDeliver) (RecvBufSize - length (RecvBuf c) + drained);
         queue = RecvBuf c @ map rdata (take delivered toDeliver)
     in (delivered, take drained queue, c\<lparr> RecvBuf := drop drained queue \<rparr>))"

definition dropOOOBefore :: "u32 \<Rightarrow> Connection \<Rightarrow> Connection" where
  "dropOOOBefore expected c =
    c\<lparr> OOOBuf := filter (\<lambda>seg. seqAfterOrEqual (rseq seg) expected) (OOOBuf c) \<rparr>"

definition deliver_phase3 :: "recvSegment list \<Rightarrow> nat \<Rightarrow> Connection \<Rightarrow> u32 \<times> Connection" where
  "deliver_phase3 toDeliver delivered c =
    (let c1 = fold (\<lambda>(i, seg) c.
           if i < delivered then c\<lparr> ExpectedSeq := seg_end seg \<rparr>
           else if i > 0 then c\<lparr> OOOBuf := OOOBuf c @ [seg] \<rparr>
           else c) (enumerate 0 toDeliver) c;
         c2 = dropOOOBefore (ExpectedSeq c1) c1
     in (ExpectedSeq c2, c2))"

text \<open>The result is the cumulative acknowledgement and what the reader took.\<close>

definition DeliverInOrder :: "nat \<Rightarrow> u32 \<Rightarrow> bytes \<Rightarrow> Connection \<Rightarrow> u32 \<times> bytes list \<times> Connection" where
  "DeliverInOrder drained sq data c =
    (if RecvClosed c then (ExpectedSeq c, [], c)
     else
       case deliver_phase1 sq data c of (toDeliver, c1) \<Rightarrow>
       case deliver_phase2 drained toDeliver c1 of (delivered, taken, c2) \<Rightarrow>
       case deliver_phase3 toDeliver delivered c2 of (expected, c3) \<Rightarrow> (expected, taken, c3))"

definition signalDial :: "Connection \<Rightarrow> Connection" where
  "signalDial c = c\<lparr> DialCh := chan_signal (DialCh c) \<rparr>"

definition CloseRecvBuf :: "Connection \<Rightarrow> Connection" where
  "CloseRecvBuf c = c\<lparr> RecvClosed := True \<rparr>"

text \<open>
  \<^verbatim>\<open>sort.Slice\<close> with the comparison of the source. All segments of a reorder buffer lie in
  one half of the sequence space, where the comparison is a total order.
\<close>

fun insert_seg :: "recvSegment \<Rightarrow> recvSegment list \<Rightarrow> recvSegment list" where
  "insert_seg x [] = [x]"
| "insert_seg x (y # ys) = (if seqAfter (rseq x) (rseq y) then y # insert_seg x ys else x # y # ys)"

definition sort_segs :: "recvSegment list \<Rightarrow> recvSegment list" where
  "sort_segs segs = foldr insert_seg segs []"

fun merge_blocks :: "SACKBlock \<Rightarrow> recvSegment list \<Rightarrow> SACKBlock list" where
  "merge_blocks cur [] = [cur]"
| "merge_blocks cur (seg # segs) =
    (if seqAfterOrEqual (Right cur) (rseq seg) then
       merge_blocks (if seqAfter (seg_end seg) (Right cur) then cur\<lparr> Right := seg_end seg \<rparr> else cur) segs
     else cur # merge_blocks \<lparr> Left = rseq seg, Right = seg_end seg \<rparr> segs)"

definition SACKBlocks :: "Connection \<Rightarrow> SACKBlock list" where
  "SACKBlocks c =
    (case sort_segs (OOOBuf c) of
       [] \<Rightarrow> []
     | s0 # segs \<Rightarrow>
        let blocks = merge_blocks \<lparr> Left = rseq s0, Right = seg_end s0 \<rparr> segs
        in if length blocks > 4 then drop (length blocks - 4) blocks else blocks)"

section \<open>Bounds\<close>

lemma take_seg_perm:
  "take_seg sq segs = Some (x, rest) \<Longrightarrow> set segs = insert x (set rest) \<and> rseq x = sq"
  by (induction segs arbitrary: rest) (auto split: if_splits)

lemma drain_ooo_NilD: "drain_ooo sq ooo = ([], ooo') \<Longrightarrow> take_seg sq ooo = None \<and> ooo' = ooo"
  by (subst (asm) drain_ooo.simps) (auto split: option.splits prod.splits)

lemma drain_ooo_ConsD:
  "drain_ooo sq ooo = (x # segs, ooo') \<Longrightarrow>
    \<exists>rest. take_seg sq ooo = Some (x, rest) \<and> drain_ooo (seg_end x) rest = (segs, ooo')"
  by (subst (asm) drain_ooo.simps) (auto split: option.splits prod.splits)

lemma drain_ooo_parts:
  "drain_ooo sq ooo = (segs, ooo') \<Longrightarrow>
    length segs + length ooo' = length ooo \<and> set segs \<union> set ooo' = set ooo"
proof (induction segs arbitrary: sq ooo)
  case Nil
  then show ?case using drain_ooo_NilD by fastforce
next
  case (Cons x segs)
  then obtain rest where "take_seg sq ooo = Some (x, rest)" "drain_ooo (seg_end x) rest = (segs, ooo')"
    using drain_ooo_ConsD by blast
  then show ?case using Cons.IH take_seg_length take_seg_perm by fastforce
qed

lemma take_seg_None: "take_seg sq segs = None \<longleftrightarrow> (\<forall>x\<in>set segs. rseq x \<noteq> sq)"
  by (induction segs) auto

text \<open>The sequence number after the last of a run of segments.\<close>

definition run_end :: "u32 \<Rightarrow> recvSegment list \<Rightarrow> u32" where
  "run_end sq segs = (if segs = [] then sq else seg_end (last segs))"

fun contiguous :: "u32 \<Rightarrow> recvSegment list \<Rightarrow> bool" where
  "contiguous sq [] = True"
| "contiguous sq (seg # segs) \<longleftrightarrow> rseq seg = sq \<and> contiguous (seg_end seg) segs"

lemma run_end_Cons [simp]: "run_end sq (seg # segs) = run_end (seg_end seg) segs"
  by (simp add: run_end_def)

lemma run_end_Nil [simp]: "run_end sq [] = sq"
  by (simp add: run_end_def)

lemma drain_ooo_contiguous:
  "drain_ooo sq ooo = (segs, ooo') \<Longrightarrow>
    contiguous sq segs \<and> (\<forall>x\<in>set ooo'. rseq x \<noteq> run_end sq segs)"
proof (induction segs arbitrary: sq ooo)
  case Nil
  then show ?case using drain_ooo_NilD [OF Nil] by (simp add: take_seg_None)
next
  case (Cons x segs)
  then obtain rest where "take_seg sq ooo = Some (x, rest)" "drain_ooo (seg_end x) rest = (segs, ooo')"
    using drain_ooo_ConsD by blast
  then show ?case using Cons.IH [of "seg_end x" rest] take_seg_perm by auto
qed

text \<open>The commit phase as a function of the two fields it changes.\<close>

lemma phase3_fold:
  "fold (\<lambda>(i, seg) c. if i < delivered then c\<lparr> ExpectedSeq := seg_end seg \<rparr>
      else if i > 0 then c\<lparr> OOOBuf := OOOBuf c @ [seg] \<rparr> else c) (enumerate k segs) c
    = c\<lparr> ExpectedSeq := run_end (ExpectedSeq c) (take (delivered - k) segs),
        OOOBuf := OOOBuf c @ (if k = 0 \<and> delivered = 0 then drop 1 segs else drop (delivered - k) segs) \<rparr>"
proof (induction segs arbitrary: k c)
  case (Cons seg segs)
  show ?case
  proof (cases "k < delivered")
    case True
    then have "delivered - k = Suc (delivered - Suc k)" by simp
    with True show ?thesis by (simp add: Cons.IH)
  next
    case False
    then show ?thesis by (auto simp: Cons.IH)
  qed
qed simp

lemma deliver_phase3_eq:
  "deliver_phase3 segs delivered c =
    (let exp = run_end (ExpectedSeq c) (take delivered segs);
         ooo = OOOBuf c @ (if delivered = 0 then drop 1 segs else drop delivered segs)
     in (exp, c\<lparr> ExpectedSeq := exp, OOOBuf := filter (\<lambda>seg. seqAfterOrEqual (rseq seg) exp) ooo \<rparr>))"
  using phase3_fold [of delivered 0 segs c]
  by (simp add: deliver_phase3_def dropOOOBefore_def Let_def)

section \<open>Reassembly\<close>

text \<open>
  The sender's byte stream is a function \<open>f\<close> from offsets to bytes, the byte at offset
  \<open>n\<close> carrying sequence number \<open>b + n\<close> (modulo \<^verbatim>\<open>2^32\<close>). A segment is a piece of
  the stream at some offset.
\<close>

definition piece :: "(nat \<Rightarrow> u8) \<Rightarrow> u32 \<Rightarrow> nat \<Rightarrow> recvSegment \<Rightarrow> bool" where
  "piece f b off seg \<longleftrightarrow> rseq seg = b + of_nat off \<and> length (rdata seg) < 65536 \<and>
    rdata seg = map f [off..<off + length (rdata seg)]"

text \<open>
  \<open>recv_inv f b E out c\<close>: the receiver has accepted the first \<open>E\<close> bytes of the stream,
  which are what the reader took (\<open>out\<close>) followed by the queue, and the reorder buffer
  holds pieces from the half window after them.
\<close>

definition recv_inv :: "(nat \<Rightarrow> u8) \<Rightarrow> u32 \<Rightarrow> nat \<Rightarrow> bytes \<Rightarrow> Connection \<Rightarrow> bool" where
  "recv_inv f b E out c \<longleftrightarrow>
    ExpectedSeq c = b + of_nat E \<and> out @ concat (RecvBuf c) = map f [0..<E] \<and>
    length (RecvBuf c) \<le> RecvBufSize \<and> length (OOOBuf c) \<le> MaxOOOBuf \<and>
    (\<forall>seg\<in>set (OOOBuf c). \<exists>off. E \<le> off \<and> off < E + 2 ^ 31 \<and> piece f b off seg)"

lemma contiguous_pieces:
  assumes "contiguous (b + of_nat cur) segs"
    and "\<forall>seg\<in>set segs. \<exists>off. E \<le> off \<and> off < E + 2 ^ 31 \<and> piece f b off seg"
    and "E \<le> cur" and "cur + 65536 * length segs < E + 2 ^ 31"
  shows "concat (map rdata segs) = map f [cur..<cur + length (concat (map rdata segs))] \<and>
    run_end (b + of_nat cur) segs = b + of_nat (cur + length (concat (map rdata segs))) \<and>
    length (concat (map rdata segs)) \<le> 65536 * length segs"
  using assms
proof (induction segs arbitrary: cur)
  case (Cons seg segs)
  from Cons.prems(2) obtain off where off: "E \<le> off" "off < E + 2 ^ 31" "piece f b off seg" by auto
  have "(of_nat off :: u32) = of_nat cur" using Cons.prems(1) off(3) by (simp add: piece_def)
  then have "off = cur" using off Cons.prems(3,4) by (intro of_nat_u32_inj) auto
  define n where "n = length (rdata seg)"
  have data: "rdata seg = map f [cur..<cur + n]" "n < 65536"
    using off(3) \<open>off = cur\<close> by (auto simp: piece_def n_def)
  have "seg_end seg = b + of_nat (cur + n)"
    using Cons.prems(1) by (simp add: seg_end_def n_def)
  note seg_end = this
  have "contiguous (b + of_nat (cur + n)) segs"
    using Cons.prems(1) seg_end by simp
  moreover have "\<forall>seg\<in>set segs. \<exists>off. E \<le> off \<and> off < E + 2 ^ 31 \<and> piece f b off seg"
    using Cons.prems(2) by simp
  moreover have "E \<le> cur + n" "cur + n + 65536 * length segs < E + 2 ^ 31"
    using Cons.prems(3,4) data(2) by (simp_all add: algebra_simps)
  ultimately have IH: "concat (map rdata segs) = map f [cur + n..<cur + n + length (concat (map rdata segs))]"
      "run_end (b + of_nat (cur + n)) segs = b + of_nat (cur + n + length (concat (map rdata segs)))"
      "length (concat (map rdata segs)) \<le> 65536 * length segs"
    using Cons.IH [of "cur + n"] by blast+
  have split: "[cur..<cur + (n + length (concat (map rdata segs)))]
      = [cur..<cur + n] @ [cur + n..<cur + n + length (concat (map rdata segs))]"
    using upt_add_eq_append [of cur "cur + n" "length (concat (map rdata segs))"] by (simp add: add.assoc)
  have len: "length (concat (map rdata (seg # segs))) = n + length (concat (map rdata segs))"
    by (simp add: n_def)
  show ?case
  proof (intro conjI)
    show "concat (map rdata (seg # segs)) = map f [cur..<cur + length (concat (map rdata (seg # segs)))]"
      unfolding len split map_append using IH(1) data(1) by simp
    show "run_end (b + of_nat cur) (seg # segs) = b + of_nat (cur + length (concat (map rdata (seg # segs))))"
      unfolding len run_end_Cons seg_end IH(2) by (simp add: add.assoc)
    show "length (concat (map rdata (seg # segs))) \<le> 65536 * length (seg # segs)"
      unfolding len using IH(3) data(2) by simp
  qed
qed simp

lemma piece_not_before:
  assumes "seqAfterOrEqual (b + of_nat off) (b + of_nat E')" and "off + 2 ^ 31 \<ge> E'" and "off < E' + 2 ^ 31"
  shows "E' \<le> off"
proof (rule ccontr)
  assume "\<not> E' \<le> off"
  then have lt: "off < E'" "E' - off \<le> 2 ^ 31" using assms(2) by auto
  obtain d where d: "E' = off + d" using lt(1) less_imp_add_positive by blast
  then have "unat (of_nat d :: u32) = d"
    using lt by (simp add: unat_of_nat take_bit_nat_eq_self)
  then have dist: "unat ((b + of_nat E' :: u32) - (b + of_nat off)) = E' - off" by (simp add: d)
  have "(b + of_nat off :: u32) \<noteq> b + of_nat E'"
    using dist lt by auto
  from unat_minus_swap [OF this] dist lt assms(1) show False
    by (simp add: seqAfterOrEqual_unat)
qed

lemma contiguous_take: "contiguous sq segs \<Longrightarrow> contiguous sq (take k segs)"
  by (induction segs arbitrary: sq k) (auto simp: take_Cons split: nat.splits)

text \<open>What the two phases after the first do to a connection that satisfies the invariant.\<close>

lemma phase2_facts:
  assumes "deliver_phase2 drained segs c = (k, taken, c2)"
  shows "k \<le> length segs" "c2 = c\<lparr> RecvBuf := RecvBuf c2 \<rparr>"
    and "concat taken @ concat (RecvBuf c2) = concat (RecvBuf c) @ concat (map rdata (take k segs))"
    and "length (RecvBuf c) \<le> RecvBufSize \<Longrightarrow> length (RecvBuf c2) \<le> RecvBufSize"
proof -
  from assms show "k \<le> length segs" "c2 = c\<lparr> RecvBuf := RecvBuf c2 \<rparr>"
    by (auto simp: deliver_phase2_def Let_def)
  define queue where "queue = RecvBuf c @ map rdata (take k segs)"
  have "taken = take drained queue" "RecvBuf c2 = drop drained queue"
    using assms by (auto simp: deliver_phase2_def Let_def queue_def)
  then show "concat taken @ concat (RecvBuf c2) = concat (RecvBuf c) @ concat (map rdata (take k segs))"
    unfolding queue_def
    by (metis append_take_drop_id concat_append)
  show "length (RecvBuf c) \<le> RecvBufSize \<Longrightarrow> length (RecvBuf c2) \<le> RecvBufSize"
    using assms by (auto simp: deliver_phase2_def Let_def)
qed

lemma commit_inv:
  assumes inv: "recv_inv f b E out c"
    and run: "contiguous (b + of_nat E) segs"
      "\<forall>seg\<in>set segs. \<exists>off. E \<le> off \<and> off < E + 2 ^ 31 \<and> piece f b off seg"
      "length segs \<le> Suc MaxOOOBuf"
    and ooo: "\<forall>seg\<in>set ooo. \<exists>off. E \<le> off \<and> off < E + 2 ^ 31 \<and> piece f b off seg"
      "length ooo + (length segs - 1) \<le> MaxOOOBuf"
    and p2: "deliver_phase2 drained segs (c\<lparr> OOOBuf := ooo \<rparr>) = (k, taken, c2)"
    and p3: "deliver_phase3 segs k c2 = (ack, c3)"
  shows "\<exists>E'\<ge>E. recv_inv f b E' (out @ concat taken) c3 \<and> ack = b + of_nat E' \<and>
    ack = run_end (b + of_nat E) (take k segs)"
proof -
  define del where "del = concat (map rdata (take k segs))"
  define E' where "E' = E + length del"
  note P2 = phase2_facts [OF p2]
  have small: "65536 * length (take k segs) < 2 ^ 31" using run(3) by (simp add: MaxOOOBuf_def)
  have "\<forall>seg\<in>set (take k segs). \<exists>off. E \<le> off \<and> off < E + 2 ^ 31 \<and> piece f b off seg"
    using run(2) by (auto dest: in_set_takeD)
  with contiguous_take [OF run(1)] small
  have del: "del = map f [E..<E']" "run_end (b + of_nat E) (take k segs) = b + of_nat E'"
      "length del \<le> 65536 * length (take k segs)"
    using contiguous_pieces [of b E "take k segs" E f] by (simp_all add: del_def E'_def)
  have exp: "ExpectedSeq c2 = b + of_nat E" "OOOBuf c2 = ooo"
    using inv by (subst P2(2); simp add: recv_inv_def)+
  define rest where "rest = (if k = 0 then drop 1 segs else drop k segs)"
  have c3: "ack = b + of_nat E'" "ExpectedSeq c3 = b + of_nat E'" "RecvBuf c3 = RecvBuf c2"
      "OOOBuf c3 = filter (\<lambda>seg. seqAfterOrEqual (rseq seg) (b + of_nat E')) (ooo @ rest)"
    using p3 del(2) exp by (auto simp: deliver_phase3_eq Let_def rest_def)
  have upt: "[0..<E'] = [0..<E] @ [E..<E']"
    unfolding E'_def by (rule upt_add_eq_append) simp
  have "out @ concat taken @ concat (RecvBuf c3) = map f [0..<E] @ del"
    using P2(3) inv c3(3) by (simp add: recv_inv_def del_def)
  also have "\<dots> = map f [0..<E']"
    by (simp only: del(1) upt map_append)
  finally have bytes: "(out @ concat taken) @ concat (RecvBuf c3) = map f [0..<E']" by simp
  have "length (filter P (ooo @ rest)) \<le> length ooo + (length segs - 1)" for P
    using length_filter_le [of P "ooo @ rest"] by (auto simp: rest_def)
  then have len: "length (OOOBuf c3) \<le> MaxOOOBuf" using ooo(2) c3(4) by (metis le_trans)
  have pieces: "\<exists>off. E' \<le> off \<and> off < E' + 2 ^ 31 \<and> piece f b off seg" if "seg \<in> set (OOOBuf c3)" for seg
  proof -
    from that c3(4) have "seg \<in> set ooo \<union> set segs" and after: "seqAfterOrEqual (rseq seg) (b + of_nat E')"
      by (auto simp: rest_def dest: in_set_dropD split: if_splits)
    then obtain off where off: "E \<le> off" "off < E + 2 ^ 31" "piece f b off seg" using ooo(1) run(2) by blast
    then have "E' \<le> off"
      using after small del(3) by (intro piece_not_before [of b off E']) (auto simp: piece_def E'_def)
    with off show ?thesis by (auto simp: E'_def intro!: exI [of _ off])
  qed
  have "length (RecvBuf c3) \<le> RecvBufSize"
    using P2(4) inv c3(3) by (simp add: recv_inv_def)
  then have "recv_inv f b E' (out @ concat taken) c3"
    unfolding recv_inv_def using bytes len pieces c3(2) by blast
  then show ?thesis using c3(1) del(2) by (intro exI [of _ E']) (auto simp: E'_def)
qed

lemma DeliverInOrder_inv:
  assumes inv: "recv_inv f b E out c"
    and seg: "piece f b off \<lparr> rseq = sq, rdata = data \<rparr>" "off < E + 2 ^ 31" "E < off + 2 ^ 31"
    and run: "DeliverInOrder drained sq data c = (ack, taken, c')"
  shows "\<exists>E'\<ge>E. recv_inv f b E' (out @ concat taken) c' \<and> ack = b + of_nat E'"
proof (cases "RecvClosed c")
  case True
  with inv run show ?thesis by (intro exI [of _ E]) (auto simp: DeliverInOrder_def recv_inv_def)
next
  case False
  let ?seg = "\<lparr> rseq = sq, rdata = data \<rparr>"
  obtain segs c1 where p1: "deliver_phase1 sq data c = (segs, c1)" by force
  obtain k tk c2 where p2: "deliver_phase2 drained segs c1 = (k, tk, c2)" by (cases "deliver_phase2 drained segs c1") auto
  have p3: "deliver_phase3 segs k c2 = (ack, c')" and tk: "taken = tk"
    using run False p1 p2 by (auto simp: DeliverInOrder_def split: prod.splits)
  from inv have E: "ExpectedSeq c = b + of_nat E" and len: "length (OOOBuf c) \<le> MaxOOOBuf"
    and ooo: "\<forall>seg\<in>set (OOOBuf c). \<exists>off. E \<le> off \<and> off < E + 2 ^ 31 \<and> piece f b off seg"
    by (auto simp: recv_inv_def)
  consider (inorder) "sq = ExpectedSeq c" | (ahead) "sq \<noteq> ExpectedSeq c" "seqAfter sq (ExpectedSeq c)"
    | (old) "sq \<noteq> ExpectedSeq c" "\<not> seqAfter sq (ExpectedSeq c)" by blast
  then show ?thesis
  proof cases
    case inorder
    obtain ds rest where dr: "drain_ooo (seg_end ?seg) (OOOBuf c) = (ds, rest)" by force
    from p1 inorder dr have c1: "segs = ?seg # ds" "c1 = c\<lparr> OOOBuf := rest \<rparr>"
      by (auto simp: deliver_phase1_def)
    have parts: "length ds + length rest = length (OOOBuf c)" "set ds \<union> set rest = set (OOOBuf c)"
      using drain_ooo_parts [OF dr] by auto
    have "(of_nat off :: u32) = of_nat E" using inorder E seg(1) by (simp add: piece_def)
    then have "off = E" using seg by (intro of_nat_u32_inj) auto
    with seg have "\<exists>off. E \<le> off \<and> off < E + 2 ^ 31 \<and> piece f b off ?seg" by auto
    then have "\<forall>seg\<in>set segs. \<exists>off. E \<le> off \<and> off < E + 2 ^ 31 \<and> piece f b off seg"
      using ooo parts(2) c1(1) by auto
    moreover have "contiguous (b + of_nat E) segs"
      using drain_ooo_contiguous [OF dr] c1(1) inorder E by simp
    ultimately show ?thesis
      using commit_inv [OF inv, of segs rest drained k tk c2 ack c'] p2 p3 c1 ooo parts len tk by auto
  next
    case ahead
    define ooo' where "ooo' = (if \<not> hasOOOSeg sq c \<and> length (OOOBuf c) < MaxOOOBuf
      then OOOBuf c @ [?seg] else OOOBuf c)"
    from p1 ahead have c1: "segs = []" "c1 = c\<lparr> OOOBuf := ooo' \<rparr>"
      by (auto simp: deliver_phase1_def ooo'_def Let_def)
    have "seqAfterOrEqual (b + of_nat off) (b + of_nat E)"
      using ahead(2) E seg(1) by (simp add: seqAfterOrEqual_alt piece_def)
    then have "E \<le> off" using seg(2,3) piece_not_before [of b off E] by linarith
    with seg have "\<exists>off. E \<le> off \<and> off < E + 2 ^ 31 \<and> piece f b off ?seg" by auto
    then have "\<forall>seg\<in>set ooo'. \<exists>off. E \<le> off \<and> off < E + 2 ^ 31 \<and> piece f b off seg"
      "length ooo' \<le> MaxOOOBuf"
      using ooo len by (auto simp: ooo'_def)
    then show ?thesis
      using commit_inv [OF inv, of "[]" ooo' drained k tk c2 ack c'] p2 p3 c1 tk by auto
  next
    case old
    from p1 old have c1: "segs = []" "c1 = c\<lparr> OOOBuf := OOOBuf c \<rparr>"
      by (auto simp: deliver_phase1_def Let_def)
    show ?thesis
      using commit_inv [OF inv, of "[]" "OOOBuf c" drained k tk c2 ack c'] p2 p3 c1 ooo len tk by auto
  qed
qed

text \<open>
  Every history of a receiver: segments of the stream arrive in any order and any number of
  times, each within half the sequence space of what has been accepted, and the reader takes
  segments from the queue.
\<close>

definition received :: "bytes \<Rightarrow> Connection \<Rightarrow> nat" where
  "received out c = length out + length (concat (RecvBuf c))"

inductive recv_run :: "(nat \<Rightarrow> u8) \<Rightarrow> u32 \<Rightarrow> Connection \<Rightarrow> bytes \<Rightarrow> Connection \<Rightarrow> bool"
  for f b c0 where
  start: "recv_run f b c0 [] c0"
| arrive: "\<lbrakk> recv_run f b c0 out c; piece f b off \<lparr> rseq = sq, rdata = data \<rparr>;
    off < received out c + 2 ^ 31; received out c < off + 2 ^ 31;
    DeliverInOrder drained sq data c = (ack, taken, c') \<rbrakk>
    \<Longrightarrow> recv_run f b c0 (out @ concat taken) c'"
| reads: "recv_run f b c0 out c \<Longrightarrow>
    recv_run f b c0 (out @ concat (take n (RecvBuf c))) (c\<lparr> RecvBuf := drop n (RecvBuf c) \<rparr>)"
| closes: "recv_run f b c0 out c \<Longrightarrow> recv_run f b c0 out (CloseRecvBuf c)"

lemma received_inv: "recv_inv f b E out c \<Longrightarrow> received out c = E"
  unfolding recv_inv_def received_def by (metis diff_zero length_append length_map length_upt)

lemma recv_run_inv:
  assumes "recv_run f b c0 out c" and "recv_inv f b 0 [] c0"
  shows "recv_inv f b (received out c) out c"
  using assms
proof (induction rule: recv_run.induct)
  case start
  then show ?case using received_inv by fastforce
next
  case (arrive out c off sq data drained ack taken c')
  then have inv: "recv_inv f b (received out c) out c" by blast
  obtain E' where "recv_inv f b E' (out @ concat taken) c'"
    using DeliverInOrder_inv [OF inv arrive.hyps(2-5)] by blast
  then show ?case using received_inv by simp
next
  case (reads out c n)
  have eq: "concat (RecvBuf c) = concat (take n (RecvBuf c)) @ concat (drop n (RecvBuf c))"
    by (metis append_take_drop_id concat_append)
  have "received (out @ concat (take n (RecvBuf c))) (c\<lparr> RecvBuf := drop n (RecvBuf c) \<rparr>) = received out c"
    unfolding received_def eq by simp
  moreover from reads have "recv_inv f b (received out c) out c" by blast
  ultimately show ?case
    using eq by (auto simp: recv_inv_def intro: le_trans [OF diff_le_self])
next
  case (closes out c)
  then show ?case by (simp add: recv_inv_def received_def CloseRecvBuf_def)
qed

section \<open>Bounds against any peer\<close>

definition recv_bounded :: "Connection \<Rightarrow> bool" where
  "recv_bounded c \<longleftrightarrow> length (OOOBuf c) \<le> MaxOOOBuf \<and> length (RecvBuf c) \<le> RecvBufSize"

datatype recv_op = Arrives nat u32 bytes | Reads nat | Closes

fun recv_step :: "recv_op \<Rightarrow> Connection \<Rightarrow> Connection" where
  "recv_step (Arrives drained sq data) c = snd (snd (DeliverInOrder drained sq data c))"
| "recv_step (Reads n) c = c\<lparr> RecvBuf := drop n (RecvBuf c) \<rparr>"
| "recv_step Closes c = CloseRecvBuf c"

lemma deliver_phase1_bounds:
  assumes "deliver_phase1 sq data c = (segs, c1)" and "length (OOOBuf c) \<le> MaxOOOBuf"
  shows "length (OOOBuf c1) + (length segs - 1) \<le> MaxOOOBuf" "RecvBuf c1 = RecvBuf c"
  using assms by (auto simp: deliver_phase1_def Let_def split: if_splits prod.splits dest!: drain_ooo_parts)

lemma phase3_length:
  "length (OOOBuf (snd (deliver_phase3 segs k c))) \<le> length (OOOBuf c) + (length segs - 1)"
proof -
  define rest where "rest = (if k = 0 then drop 1 segs else drop k segs)"
  have "length (filter P (OOOBuf c @ rest)) \<le> length (OOOBuf c @ rest)" for P
    by (rule length_filter_le)
  moreover have "length rest \<le> length segs - 1" by (auto simp: rest_def)
  ultimately have "length (filter P (OOOBuf c @ rest)) \<le> length (OOOBuf c) + (length segs - 1)" for P
    by (metis add_left_mono length_append le_trans)
  then show ?thesis unfolding deliver_phase3_eq rest_def Let_def by simp
qed

lemma DeliverInOrder_bounded:
  assumes "recv_bounded c"
  shows "recv_bounded (snd (snd (DeliverInOrder drained sq data c)))"
proof (cases "RecvClosed c")
  case True
  with assms show ?thesis by (simp add: DeliverInOrder_def)
next
  case False
  obtain segs c1 where p1: "deliver_phase1 sq data c = (segs, c1)" by force
  obtain k tk c2 where p2: "deliver_phase2 drained segs c1 = (k, tk, c2)" by (cases "deliver_phase2 drained segs c1") auto
  obtain ack c3 where p3: "deliver_phase3 segs k c2 = (ack, c3)" by force
  note B = deliver_phase1_bounds [OF p1] phase2_facts [OF p2]
  have c2: "OOOBuf c2 = OOOBuf c1" by (subst B(4)) simp
  have "length (OOOBuf c3) \<le> length (OOOBuf c2) + (length segs - 1)"
    using phase3_length [of segs k c2] p3 by simp
  moreover have "RecvBuf c3 = RecvBuf c2" using p3 by (auto simp: deliver_phase3_eq Let_def)
  ultimately show ?thesis
    using assms False B c2 p1 p2 p3 by (simp add: DeliverInOrder_def recv_bounded_def)
qed

interpretation recv_ops: op_system recv_step recv_bounded
proof
  fix c and x :: recv_op
  assume "recv_bounded c"
  then show "recv_bounded (recv_step x c)"
    by (cases x) (auto simp: DeliverInOrder_bounded, auto simp: recv_bounded_def CloseRecvBuf_def)
qed

section \<open>Selective acknowledgements\<close>

text \<open>Offsets past a base, for a reorder buffer that lies in the half window after it.\<close>

definition seg_cover :: "u32 \<Rightarrow> recvSegment \<Rightarrow> nat set" where
  "seg_cover b seg = {seq_off b (rseq seg)..<seq_off b (rseq seg) + length (rdata seg)}"

definition blk_cover :: "u32 \<Rightarrow> SACKBlock \<Rightarrow> nat set" where
  "blk_cover b blk = {seq_off b (Left blk)..<seq_off b (Right blk)}"

definition half_window :: "u32 \<Rightarrow> recvSegment \<Rightarrow> bool" where
  "half_window b seg \<longleftrightarrow> seq_off b (rseq seg) + length (rdata seg) < 2 ^ 31"

lemma half_window_end:
  "half_window b seg \<Longrightarrow> seq_off b (seg_end seg) = seq_off b (rseq seg) + length (rdata seg)"
  unfolding half_window_def seg_end_def by (rule seq_off_add) simp

lemma set_insert_seg [simp]: "set (insert_seg x segs) = insert x (set segs)"
  by (induction segs) auto

lemma set_sort_segs [simp]: "set (sort_segs segs) = set segs"
  unfolding sort_segs_def by (induction segs) auto

lemma sort_segs_Nil_iff [simp]: "sort_segs segs = [] \<longleftrightarrow> segs = []"
  by (metis set_sort_segs set_empty)

lemma insert_seg_sorted:
  assumes "half_window b x" "\<forall>y\<in>set segs. half_window b y" "sorted (map (\<lambda>s. seq_off b (rseq s)) segs)"
  shows "sorted (map (\<lambda>s. seq_off b (rseq s)) (insert_seg x segs))"
  using assms
proof (induction segs)
  case (Cons y segs)
  have "seqAfter (rseq x) (rseq y) \<longleftrightarrow> seq_off b (rseq y) < seq_off b (rseq x)"
    using Cons.prems by (intro seqAfter_window) (auto simp: half_window_def)
  with Cons show ?case by fastforce
qed simp

lemma sort_segs_sorted:
  "\<forall>y\<in>set segs. half_window b y \<Longrightarrow> sorted (map (\<lambda>s. seq_off b (rseq s)) (sort_segs segs))"
  unfolding sort_segs_def
proof (induction segs)
  case (Cons x segs)
  then show ?case
    using insert_seg_sorted [of b x "foldr insert_seg segs []"] set_sort_segs [of segs, unfolded sort_segs_def]
    by auto
qed simp

lemma merge_cover:
  assumes "\<forall>y\<in>set segs. half_window b y" "sorted (map (\<lambda>s. seq_off b (rseq s)) segs)"
    and "\<forall>y\<in>set segs. seq_off b (Left cur) \<le> seq_off b (rseq y)"
    and "seq_off b (Left cur) \<le> seq_off b (Right cur)" "seq_off b (Right cur) < 2 ^ 31"
  shows "(\<Union>blk\<in>set (merge_blocks cur segs). blk_cover b blk) = blk_cover b cur \<union> (\<Union>s\<in>set segs. seg_cover b s)"
  using assms
proof (induction segs arbitrary: cur)
  case (Cons seg segs)
  have hw: "half_window b seg" and rest: "\<forall>y\<in>set segs. half_window b y"
    "sorted (map (\<lambda>s. seq_off b (rseq s)) segs)" using Cons.prems by auto
  note e = half_window_end [OF hw]
  have lt: "seq_off b (rseq seg) < 2 ^ 31" "seq_off b (seg_end seg) < 2 ^ 31"
    using hw e by (simp_all add: half_window_def)
  have geq: "seqAfterOrEqual (Right cur) (rseq seg) \<longleftrightarrow> seq_off b (rseq seg) \<le> seq_off b (Right cur)"
    using Cons.prems(5) lt(1) by (intro seqAfterOrEqual_window)
  have gt: "seqAfter (seg_end seg) (Right cur) \<longleftrightarrow> seq_off b (Right cur) < seq_off b (seg_end seg)"
    using lt(2) Cons.prems(5) by (intro seqAfter_window)
  show ?case
  proof (cases "seqAfterOrEqual (Right cur) (rseq seg)")
    case True
    define nxt where "nxt = (if seqAfter (seg_end seg) (Right cur) then cur\<lparr> Right := seg_end seg \<rparr> else cur)"
    have "blk_cover b nxt = blk_cover b cur \<union> seg_cover b seg"
      using True geq gt e Cons.prems(3,4) by (auto simp: nxt_def blk_cover_def seg_cover_def)
    moreover have "(\<Union>blk\<in>set (merge_blocks nxt segs). blk_cover b blk) = blk_cover b nxt \<union> (\<Union>s\<in>set segs. seg_cover b s)"
      using Cons.prems lt(2) gt by (intro Cons.IH rest) (auto simp: nxt_def)
    ultimately show ?thesis using True by (simp add: nxt_def Un_assoc)
  next
    case False
    let ?nxt = "\<lparr> Left = rseq seg, Right = seg_end seg \<rparr>"
    have "blk_cover b ?nxt = seg_cover b seg" by (simp add: blk_cover_def seg_cover_def e)
    moreover have "(\<Union>blk\<in>set (merge_blocks ?nxt segs). blk_cover b blk) = blk_cover b ?nxt \<union> (\<Union>s\<in>set segs. seg_cover b s)"
      using Cons.prems lt(2) e by (intro Cons.IH rest) auto
    ultimately show ?thesis using False by simp
  qed
qed simp

lemma SACKBlocks_cover:
  assumes "\<forall>y\<in>set (OOOBuf c). half_window b y" and "OOOBuf c \<noteq> []"
  shows "\<exists>blocks. (\<Union>blk\<in>set blocks. blk_cover b blk) = (\<Union>s\<in>set (OOOBuf c). seg_cover b s) \<and>
    SACKBlocks c = (if length blocks > 4 then drop (length blocks - 4) blocks else blocks)"
proof -
  obtain s0 segs where srt: "sort_segs (OOOBuf c) = s0 # segs"
    using assms(2) by (cases "sort_segs (OOOBuf c)") auto
  have mem: "set (s0 # segs) = set (OOOBuf c)" using srt set_sort_segs by metis
  have sorted: "sorted (map (\<lambda>s. seq_off b (rseq s)) (s0 # segs))"
    using sort_segs_sorted [OF assms(1)] srt by simp
  have hw: "half_window b s0" "\<forall>y\<in>set segs. half_window b y" using assms(1) mem by auto
  note e = half_window_end [OF hw(1)]
  have "(\<Union>blk\<in>set (merge_blocks \<lparr> Left = rseq s0, Right = seg_end s0 \<rparr> segs). blk_cover b blk)
      = blk_cover b \<lparr> Left = rseq s0, Right = seg_end s0 \<rparr> \<union> (\<Union>s\<in>set segs. seg_cover b s)"
    using sorted hw e by (intro merge_cover) (auto simp: half_window_def)
  also have "\<dots> = (\<Union>s\<in>set (OOOBuf c). seg_cover b s)"
    unfolding mem [symmetric] by (simp add: blk_cover_def seg_cover_def e)
  finally show ?thesis by (auto simp: SACKBlocks_def srt Let_def)
qed

section \<open>Properties\<close>

definition sample_conn :: Connection where
  "sample_conn = new_connection 1 7 49200 zero_addr 80"

lemma sample_conn_simps [simp]:
  "ExpectedSeq sample_conn = 0" "RecvBuf sample_conn = []" "OOOBuf sample_conn = []"
  "RecvClosed sample_conn = False"
  by (simp_all add: sample_conn_def new_connection_def)

text \<open>
  (C1) Stream integrity. Whatever order the segments of the peer's stream arrive in, however
  often they are repeated and however often the sequence numbers wrap, what the reader gets
  is a prefix of the stream: no byte is lost, repeated, reordered or made up, even when the
  receive queue fills up and segments are pushed back. The cumulative acknowledgement is the
  sequence number of the first byte not accepted.
\<close>

theorem delivery_is_stream_prefix:
  assumes "recv_run f b c0 out c"
    and "ExpectedSeq c0 = b" "RecvBuf c0 = []" "OOOBuf c0 = []"
  shows "out = map f [0..<length out] \<and>
    out @ concat (RecvBuf c) = map f [0..<received out c] \<and>
    ExpectedSeq c = b + of_nat (received out c)"
proof -
  have "recv_inv f b 0 [] c0" using assms by (simp add: recv_inv_def)
  from recv_run_inv [OF assms(1) this]
  have all: "out @ concat (RecvBuf c) = map f [0..<received out c]"
      "ExpectedSeq c = b + of_nat (received out c)" by (auto simp: recv_inv_def)
  have "out = take (length out) (map f [0..<received out c])" unfolding all(1) [symmetric] by simp
  also have "\<dots> = map f [0..<length out]" by (simp add: take_map received_def)
  finally show ?thesis using all by blast
qed

theorem delivery_is_stream_prefix_witness:
  "concat (RecvBuf (snd (snd (DeliverInOrder 0 0xFFFFFFFE [0, 1]
      (snd (snd (DeliverInOrder 0 0 [2, 3] (sample_conn\<lparr> ExpectedSeq := 0xFFFFFFFE \<rparr>))))))))
    = [0, 1, 2, 3]"
proof -
  let ?f = "of_nat :: nat \<Rightarrow> u8" and ?b = "0xFFFFFFFE :: u32"
  let ?c0 = "sample_conn\<lparr> ExpectedSeq := ?b \<rparr>"
  let ?c1 = "snd (snd (DeliverInOrder 0 0 [2, 3] ?c0))"
  let ?c2 = "snd (snd (DeliverInOrder 0 ?b [0, 1] ?c1))"
  have c1: "?c1 = ?c0\<lparr> OOOBuf := [\<lparr> rseq = 0, rdata = [2, 3] \<rparr>] \<rparr>"
    by (simp add: DeliverInOrder_def deliver_phase1_def deliver_phase2_def deliver_phase3_eq
        seqAfter_unat seqAfterOrEqual_unat hasOOOSeg_def MaxOOOBuf_def Let_def)
  have t: "DeliverInOrder 0 0 [2, 3] ?c0 = (?b, [], ?c1)"
    by (simp add: DeliverInOrder_def deliver_phase1_def deliver_phase2_def deliver_phase3_eq
        seqAfter_unat seqAfterOrEqual_unat hasOOOSeg_def MaxOOOBuf_def Let_def)
  have wrap: "(4294967296 :: u32) = 0" by (simp add: word_unat_eq_iff)
  have drain: "drain_ooo 0 [\<lparr> rseq = 0, rdata = [2, 3] \<rparr>] = ([\<lparr> rseq = 0, rdata = [2, 3] \<rparr>], [])"
    by (simp add: drain_ooo.simps)
  have c2: "DeliverInOrder 0 ?b [0, 1] ?c1 = (2, [], ?c2)" "RecvBuf ?c2 = [[0, 1], [2, 3]]"
    unfolding c1
    by (simp_all add: DeliverInOrder_def deliver_phase1_def deliver_phase2_def deliver_phase3_eq
        seg_end_def wrap drain RecvBufSize_def Let_def)
  have "recv_run ?f ?b ?c0 ([] @ concat []) ?c1"
    by (rule recv_run.arrive [OF recv_run.start, of ?f ?b 2 0 "[2, 3]" ?c0 0 ?b "[]" ?c1])
      (use t in \<open>simp_all add: piece_def received_def upt_rec\<close>)
  then have "recv_run ?f ?b ?c0 ([] @ concat []) ?c2"
    by (intro recv_run.arrive [of ?f ?b ?c0 "[]" ?c1 0 ?b "[0, 1]" 0 2 "[]" ?c2])
      (use c1 c2 in \<open>simp_all add: piece_def received_def upt_rec\<close>)
  from delivery_is_stream_prefix [OF this] c2(2) show ?thesis
    by (simp add: received_def upt_rec)
qed

text \<open>
  The receiver never withholds what it could acknowledge: when a segment at the
  expected position arrives and the receive queue has room, no segment of the reorder buffer
  starts at the new acknowledgement, which is the end of the whole contiguous run.
\<close>

theorem delivery_is_maximal:
  assumes "\<not> RecvClosed c" and "length (OOOBuf c) + length (RecvBuf c) < RecvBufSize + drained"
    and "length (RecvBuf c) \<le> RecvBufSize"
    and "DeliverInOrder drained (ExpectedSeq c) data c = (ack, taken, c')"
  shows "\<forall>seg\<in>set (OOOBuf c'). rseq seg \<noteq> ack"
proof -
  let ?seg = "\<lparr> rseq = ExpectedSeq c, rdata = data \<rparr>"
  obtain ds rest where dr: "drain_ooo (seg_end ?seg) (OOOBuf c) = (ds, rest)" by force
  have "Suc (length ds) \<le> RecvBufSize - length (RecvBuf c) + drained"
    using conjunct1 [OF drain_ooo_parts [OF dr]] assms(2,3) by linarith
  then have "ack = run_end (seg_end ?seg) ds" "set (OOOBuf c') \<subseteq> set rest"
    using assms(1,4) dr
    by (auto simp: DeliverInOrder_def deliver_phase1_def deliver_phase2_def deliver_phase3_eq Let_def min_def)
  then show ?thesis using drain_ooo_contiguous [OF dr] by blast
qed

text \<open>
  A peer cannot make the receiver hold more than 128 out-of-order segments or queue
  more than 512, whatever segments it sends and however the reader behaves.
\<close>

theorem receive_buffers_bounded:
  assumes "length (OOOBuf c) \<le> MaxOOOBuf" and "length (RecvBuf c) \<le> RecvBufSize"
  shows "length (OOOBuf (fold recv_step ops c)) \<le> 128 \<and> length (RecvBuf (fold recv_step ops c)) \<le> 512"
  using recv_ops.run_inv [of c ops] assms by (simp add: recv_bounded_def MaxOOOBuf_def RecvBufSize_def)



end
