(* ===== verification/Conn_Send.thy ===== *)
theory Conn_Send
  imports Conn_Recv
begin

text \<open>
  The sending half of a connection: window checks, the retransmission buffer, processing of
  acknowledgements with the congestion window (\<^verbatim>\<open>src/pkg/daemon/ports.go\<close>) and the
  retransmission timeout (\<^verbatim>\<open>retransmitUnacked\<close> of \<^verbatim>\<open>src/pkg/daemon/daemon.go\<close>).

  Packets handed to the callback \<^verbatim>\<open>RetxSend\<close> are part of the result. A run-time panic (a
  division by a zero window, a random number below a bound that is not positive) is the
  result \<open>None\<close>. The clock readings of one call are one instant \<open>now\<close>.
\<close>

section \<open>The window\<close>

definition entry_len :: "retxEntry \<Rightarrow> int" where
  "entry_len e = int (length (edata e))"

definition entry_end :: "retxEntry \<Rightarrow> u32" where
  "entry_end e = eseq e + of_nat (length (edata e))"

definition BytesInFlight :: "Connection \<Rightarrow> int" where
  "BytesInFlight c = sum_list (map entry_len (filter (\<lambda>e. \<not> sacked e) (Unacked c)))"

definition nagleHoldsTail :: "Connection \<Rightarrow> bool" where
  "nagleHoldsTail c \<longleftrightarrow>
    (\<exists>e\<in>set (Unacked c). \<not> (sacked e \<or> isFIN e \<or> length (edata e) = 0) \<and> entry_len e < SendSegmentSize)"

definition EffectiveWindow :: "Connection \<Rightarrow> int" where
  "EffectiveWindow c =
    (let win = (if CongWin c \<le> 0 then InitialCongWin else CongWin c)
     in if PeerRecvWin c \<ge> 0 \<and> PeerRecvWin c < win then PeerRecvWin c else win)"

definition WindowAvailable :: "Connection \<Rightarrow> bool" where
  "WindowAvailable c =
    (let bytes = sum_list (map entry_len (filter (\<lambda>e. \<not> sacked e \<or> FastRecovery c) (Unacked c)))
     in if bytes \<ge> EffectiveWindow c then False
        else if PeerRecvWin c \<ge> 0 \<and> int (length (Unacked c)) \<ge> go_div (PeerRecvWin c) SendSegmentSize then False
        else length (Unacked c) < MaxSegmentsOutstanding)"

definition TrackSend :: "instant \<Rightarrow> u32 \<Rightarrow> bytes \<Rightarrow> Connection \<Rightarrow> Connection" where
  "TrackSend now sq data c =
    c\<lparr> Unacked := Unacked c @ [\<lparr> edata = data, eseq = sq, sentAt = now, origSentAt = now,
        attempts = 1, sacked = False, isFIN = False \<rparr>] \<rparr>"

definition signal_window_if :: "Connection \<Rightarrow> Connection" where
  "signal_window_if c = (if WindowAvailable c then c\<lparr> WindowCh := chan_signal (WindowCh c) \<rparr> else c)"

definition signal_nagle_if :: "Connection \<Rightarrow> Connection" where
  "signal_nagle_if c = (if \<not> nagleHoldsTail c then c\<lparr> NagleCh := chan_signal (NagleCh c) \<rparr> else c)"

section \<open>Retransmission\<close>

definition stream_packet :: "flag set \<Rightarrow> Connection \<Rightarrow> u32 \<Rightarrow> u32 \<Rightarrow> u16 \<Rightarrow> bytes \<Rightarrow> packet" where
  "stream_packet flags c sq ak win payload =
    \<lparr> Flags = flags, Protocol = ProtoStream, Src = LocalAddr c, Dst = RemoteAddr c,
      SrcPort = LocalPort c, DstPort = RemotePort c, Seq = sq, Ack = ak, Window = win,
      Payload = payload \<rparr>"

text \<open>The first entry that satisfies a condition, with what is before and after it.\<close>

fun split_first :: "('a \<Rightarrow> bool) \<Rightarrow> 'a list \<Rightarrow> ('a list \<times> 'a \<times> 'a list) option" where
  "split_first P [] = None"
| "split_first P (x # xs) =
    (if P x then Some ([], x, xs)
     else map_option (\<lambda>(pre, y, post). (x # pre, y, post)) (split_first P xs))"

definition fastRetransmit :: "instant \<Rightarrow> u32 \<Rightarrow> Connection \<Rightarrow> bool \<times> packet list \<times> Connection" where
  "fastRetransmit now recvAck c =
    (if Unacked c = [] \<or> \<not> RetxSend c then (False, [], c)
     else case split_first (\<lambda>e. \<not> sacked e) (Unacked c) of
       None \<Rightarrow> (False, [], c)
     | Some (pre, e, post) \<Rightarrow>
        if attempts e \<ge> MaxRetxAttempts then (False, [], c)
        else let e' = e\<lparr> attempts := attempts e + 1, sentAt := now \<rparr>;
                 c' = c\<lparr> Unacked := pre @ e' # post \<rparr>;
                 pkt = stream_packet (if isFIN e then {FlagFIN} else {FlagACK}) c (eseq e) recvAck
                         (RecvWindow c) (if isFIN e then [] else edata e)
             in (True, [pkt], c'))"

definition updateRTT :: "duration \<Rightarrow> Connection \<Rightarrow> Connection" where
  "updateRTT rtt c =
    (let c1 = (if SRTT c = 0 then c\<lparr> SRTT := rtt, RTTVAR := go_div rtt 2 \<rparr>
               else let diff = SRTT c - rtt;
                        diff = (if diff < 0 then - diff else diff)
                    in c\<lparr> RTTVAR := go_div (RTTVAR c * 3) 4 + go_div diff 4,
                          SRTT := go_div (SRTT c * 7) 8 + go_div rtt 8 \<rparr>);
         kvar = RTTVAR c1 * 4;
         kvar = (if kvar < ClockGranularity then ClockGranularity else kvar);
         rto = SRTT c1 + kvar;
         rto = (if rto < RTOMin then RTOMin else rto);
         rto = (if rto > RTOMax then RTOMax else rto)
     in c1\<lparr> RTO := rto \<rparr>)"

section \<open>Acknowledgements\<close>

definition flightSize :: "Connection \<Rightarrow> int" where
  "flightSize c = sum_list (map entry_len (Unacked c))"

text \<open>One segment more, up to the cap, and a wake-up for a blocked sender.\<close>

definition inflate :: "Connection \<Rightarrow> Connection" where
  "inflate c =
    (let win = CongWin c + SendSegmentSize
     in signal_window_if (c\<lparr> CongWin := (if win > MaxCongWin then MaxCongWin else win) \<rparr>))"

definition half_flight :: "Connection \<Rightarrow> int" where
  "half_flight c =
    (let t = go_div (flightSize c) 2 in if t < 2 * MaxSegmentSize then 2 * MaxSegmentSize else t)"

definition enter_fast_recovery :: "u32 \<Rightarrow> Connection \<Rightarrow> Connection" where
  "enter_fast_recovery sendSeq c =
    signal_window_if (c\<lparr> SSThresh := half_flight c, InRecovery := True, RecoveryPoint := sendSeq,
      FastRecovery := True, CongWin := half_flight c + 3 * SendSegmentSize \<rparr>)"

definition add_dup_stats :: "u64 \<Rightarrow> u64 \<Rightarrow> Connection \<Rightarrow> Connection" where
  "add_dup_stats dupAcks fastRetx c =
    c\<lparr> Stats := (Stats c)\<lparr> DupACKs := DupACKs (Stats c) + dupAcks,
                            FastRetx := FastRetx (Stats c) + fastRetx \<rparr> \<rparr>"

definition dup_ack :: "instant \<Rightarrow> Connection \<Rightarrow> packet list \<times> Connection" where
  "dup_ack now c0 =
    (if BytesInFlight c0 = 0 then ([], c0)
     else let c = c0\<lparr> DupAckCount := DupAckCount c0 + 1 \<rparr> in
       if DupAckCount c < 3 \<and> InRecovery c \<and> FastRecovery c \<and> Unacked c \<noteq> [] then
         ([], add_dup_stats 1 0 (inflate c))
       else if DupAckCount c = 3 \<and> Unacked c \<noteq> [] then
         (case fastRetransmit now (RecvAck c0) c of (sent, pkts, c1) \<Rightarrow>
            if \<not> sent then (pkts, add_dup_stats 1 0 c1)
            else if \<not> InRecovery c1 \<or> seqAfter (SendSeq c0) (RecoveryPoint c1) then
              (pkts, add_dup_stats 1 1 (enter_fast_recovery (SendSeq c0) c1))
            else if InRecovery c1 \<and> FastRecovery c1 then (pkts, add_dup_stats 1 1 (inflate c1))
            else (pkts, add_dup_stats 1 1 c1))
       else if DupAckCount c > 3 \<and> InRecovery c \<and> Unacked c \<noteq> [] then
         (if \<not> FastRecovery c then ([], add_dup_stats 1 0 c) else ([], add_dup_stats 1 0 (inflate c)))
       else ([], add_dup_stats 1 0 c))"

definition covered :: "u32 \<Rightarrow> retxEntry \<Rightarrow> bool" where
  "covered ak e \<longleftrightarrow> seqAfterOrEqual ak (entry_end e)"

definition bytes_acked :: "u32 \<Rightarrow> Connection \<Rightarrow> int" where
  "bytes_acked ak c =
    sum_list (map entry_len (filter (\<lambda>e. covered ak e \<and> \<not> sacked e \<and> \<not> isFIN e) (Unacked c)))"

text \<open>At most one RTT sample per acknowledgement, none if it covers a resent segment.\<close>

definition rtt_sample :: "instant \<Rightarrow> u32 \<Rightarrow> Connection \<Rightarrow> Connection" where
  "rtt_sample now ak c =
    (if \<exists>e\<in>set (Unacked c). attempts e > 1 \<and> covered ak e then c
     else case find (\<lambda>e. covered ak e \<and> attempts e = 1) (Unacked c) of
       None \<Rightarrow> c
     | Some e \<Rightarrow>
        let rttAnchor = (if time_is_zero (origSentAt e) then sentAt e else origSentAt e)
        in updateRTT (time_sub now rttAnchor) c)"

definition drop_acked :: "instant \<Rightarrow> u32 \<Rightarrow> Connection \<Rightarrow> Connection" where
  "drop_acked now ak c =
    c\<lparr> Unacked := map (\<lambda>e. if \<not> sacked e then e\<lparr> sentAt := now \<rparr> else e)
        (filter (\<lambda>e. \<not> covered ak e) (Unacked c)) \<rparr>"

text \<open>The new high-water mark, and the end of recovery once the loss window is acknowledged.\<close>

definition advance_ack :: "u32 \<Rightarrow> Connection \<Rightarrow> Connection" where
  "advance_ack ak c =
    (let c1 = c\<lparr> LastAck := ak, DupAckCount := 0, LastRetxTime := 0 \<rparr>
     in if InRecovery c1 \<and> seqAfterOrEqual ak (RecoveryPoint c1)
        then c1\<lparr> InRecovery := False, FastRecovery := False \<rparr> else c1)"

definition partial_window :: "int \<Rightarrow> Connection \<Rightarrow> int" where
  "partial_window bytesAcked c =
    (let win = CongWin c - bytesAcked;
         win = (if bytesAcked \<ge> SendSegmentSize then win + SendSegmentSize else win)
     in if win < SSThresh c then SSThresh c else win)"

definition recovery_ack ::
    "instant \<Rightarrow> u32 \<Rightarrow> int \<Rightarrow> bool \<Rightarrow> bool \<Rightarrow> Connection \<Rightarrow> packet list \<times> Connection" where
  "recovery_ack now recvAck bytesAcked wasInRecovery wasFastRecovery c =
    (if wasFastRecovery \<and> wasInRecovery then
       if \<not> InRecovery c then ([], c\<lparr> CongWin := SSThresh c \<rparr>)
       else snd (fastRetransmit now recvAck (c\<lparr> CongWin := partial_window bytesAcked c \<rparr>))
     else if wasInRecovery \<and> InRecovery c then snd (fastRetransmit now recvAck c)
     else ([], c))"

definition grow_window :: "int \<Rightarrow> Connection \<Rightarrow> Connection option" where
  "grow_window bytesAcked c =
    (if CongWin c < SSThresh c then
       let inc = (if bytesAcked > 2 * MaxSegmentSize then 2 * MaxSegmentSize else bytesAcked);
           win = CongWin c + inc
       in Some (c\<lparr> CongWin := (if win > MaxCongWin then MaxCongWin else win) \<rparr>)
     else if CongWin c = 0 then None
     else
       let eff = (if bytesAcked > MaxSegmentSize then MaxSegmentSize else bytesAcked);
           increment = go_div (MaxSegmentSize * eff) (CongWin c);
           increment = (if increment < 1 then 1 else increment);
           win = CongWin c + increment
       in Some (c\<lparr> CongWin := (if win > MaxCongWin then MaxCongWin else win) \<rparr>))"

definition new_ack :: "instant \<Rightarrow> u32 \<Rightarrow> Connection \<Rightarrow> (packet list \<times> Connection) option" where
  "new_ack now ak c =
    (let bytesAcked = bytes_acked ak c;
         wasInRecovery = InRecovery c;
         wasFastRecovery = FastRecovery c;
         c3 = drop_acked now ak (rtt_sample now ak (advance_ack ak c))
     in case recovery_ack now (RecvAck c) bytesAcked wasInRecovery wasFastRecovery c3 of
       (pkts, c4) \<Rightarrow>
         (case (if bytesAcked > 0 \<and> \<not> (wasFastRecovery \<and> wasInRecovery \<and> InRecovery c4)
                then grow_window bytesAcked c4 else Some c4) of
            None \<Rightarrow> None
          | Some c5 \<Rightarrow> Some (pkts, signal_nagle_if (c5\<lparr> WindowCh := chan_signal (WindowCh c5) \<rparr>))))"

definition ProcessAck :: "instant \<Rightarrow> u32 \<Rightarrow> bool \<Rightarrow> Connection \<Rightarrow> (packet list \<times> Connection) option" where
  "ProcessAck now ak pureACK c =
    (if seqAfter (LastAck c) ak then Some ([], c)
     else if ak = LastAck c then (if \<not> pureACK then Some ([], c) else Some (dup_ack now c))
     else new_ack now ak c)"

definition block_covers :: "retxEntry \<Rightarrow> SACKBlock \<Rightarrow> bool" where
  "block_covers e blk \<longleftrightarrow>
    \<not> seqAfterOrEqual (eseq e) (Right blk) \<and> \<not> seqAfterOrEqual (Left blk) (entry_end e)"

definition ProcessSACK :: "SACKBlock list \<Rightarrow> Connection \<Rightarrow> Connection" where
  "ProcessSACK blocks c =
    (let c1 = c\<lparr> Unacked := map (\<lambda>e. if \<exists>blk\<in>set blocks. block_covers e blk
                                    then e\<lparr> sacked := True \<rparr> else e) (Unacked c) \<rparr>;
         c2 = signal_nagle_if (signal_window_if c1)
     in c2\<lparr> Stats := (Stats c2)\<lparr> SACKRecv := SACKRecv (Stats c2) + of_nat (length blocks) \<rparr> \<rparr>)"

section \<open>The retransmission timeout\<close>

definition unackedHasData :: "Connection \<Rightarrow> bool" where
  "unackedHasData c \<longleftrightarrow> (\<exists>e\<in>set (Unacked c). \<not> isFIN e)"

definition startRetxLoop :: "Connection \<Rightarrow> Connection" where
  "startRetxLoop c = c\<lparr> RTO := InitialRTO, RetxSend := True \<rparr>"

definition cap_rto :: "duration \<Rightarrow> duration" where
  "cap_rto d = (if d > 10 * second then 10 * second else d)"

definition timed_out :: "instant \<Rightarrow> Connection \<Rightarrow> retxEntry \<Rightarrow> bool" where
  "timed_out now c e \<longleftrightarrow> time_sub now (sentAt e) > RTO c"

definition send_if :: "Connection \<Rightarrow> packet \<Rightarrow> packet list" where
  "send_if c pkt = (if RetxSend c then [pkt] else [])"

definition forget_sacks :: "instant \<Rightarrow> Connection \<Rightarrow> Connection" where
  "forget_sacks now c =
    (case Unacked c of [] \<Rightarrow> c
     | first # _ \<Rightarrow>
        if sacked first \<and> timed_out now c first
        then c\<lparr> Unacked := map (\<lambda>e. e\<lparr> sacked := False \<rparr>) (Unacked c) \<rparr> else c)"

text \<open>The argument \<open>rnd\<close> is the random source: \<^verbatim>\<open>rand.Int63n(n)\<close> is \<open>rnd mod n\<close>.\<close>

definition retransmitUnacked :: "instant \<Rightarrow> int \<Rightarrow> Connection \<Rightarrow> (packet list \<times> Connection) option" where
  "retransmitUnacked now rnd c0 =
    (if Unacked c0 = [] then Some ([], c0)
     else if \<not> time_is_zero (LastRetxTime c0) \<and> time_sub now (LastRetxTime c0) < RTO c0 then Some ([], c0)
     else let c = forget_sacks now c0 in
       case split_first (\<lambda>e. \<not> sacked e \<and> timed_out now c e) (Unacked c) of
         None \<Rightarrow> Some ([], c)
       | Some (pre, e, post) \<Rightarrow>
          if attempts e \<ge> MaxRetxAttempts then
            Some (send_if c (stream_packet {FlagRST} c 0 0 0 []), c\<lparr> State := StateClosed \<rparr>)
          else let rto = cap_rto (RTO c * 2) in
            if go_div rto 4 \<le> 0 then None
            else let rto = cap_rto (rto + rnd mod go_div rto 4);
                     c1 = c\<lparr> SSThresh := half_flight c, InRecovery := True, RecoveryPoint := SendSeq c,
                             CongWin := MaxSegmentSize, RTO := rto,
                             Unacked := pre @ e\<lparr> attempts := attempts e + 1, sentAt := now \<rparr> # post,
                             Stats := (Stats c)\<lparr> Retransmits := Retransmits (Stats c) + 1 \<rparr>,
                             DupAckCount := 0, FastRecovery := False, LastRetxTime := now \<rparr>;
                     pkt = (if isFIN e then stream_packet {FlagFIN} c (eseq e) 0 0 []
                            else stream_packet {FlagACK} c (eseq e) (RecvAck c) (RecvWindow c) (edata e))
                 in Some (send_if c pkt, c1))"

section \<open>Basic facts\<close>

lemma split_first_Some:
  "split_first P xs = Some (pre, x, post) \<longleftrightarrow> xs = pre @ x # post \<and> P x \<and> (\<forall>y\<in>set pre. \<not> P y)"
  by (induction xs arbitrary: pre) (auto simp: Cons_eq_append_conv)

lemma split_first_None: "split_first P xs = None \<longleftrightarrow> (\<forall>x\<in>set xs. \<not> P x)"
  by (induction xs) auto

text \<open>What identifies an entry and never changes while it is outstanding.\<close>

definition ekey :: "retxEntry \<Rightarrow> u32 \<times> bytes \<times> bool" where
  "ekey e = (eseq e, edata e, isFIN e)"

lemma ekey_updates [simp]:
  "ekey (e\<lparr> sentAt := t \<rparr>) = ekey e" "ekey (e\<lparr> attempts := n \<rparr>) = ekey e"
  "ekey (e\<lparr> sacked := b \<rparr>) = ekey e"
  by (simp_all add: ekey_def)

lemma signal_simps [simp]:
  "Unacked (signal_window_if c) = Unacked c" "Unacked (signal_nagle_if c) = Unacked c"
  "CongWin (signal_window_if c) = CongWin c" "CongWin (signal_nagle_if c) = CongWin c"
  "SSThresh (signal_window_if c) = SSThresh c" "SSThresh (signal_nagle_if c) = SSThresh c"
  "RTO (signal_window_if c) = RTO c" "RTO (signal_nagle_if c) = RTO c"
  "SRTT (signal_window_if c) = SRTT c" "SRTT (signal_nagle_if c) = SRTT c"
  "RTTVAR (signal_window_if c) = RTTVAR c" "RTTVAR (signal_nagle_if c) = RTTVAR c"
  "LastAck (signal_window_if c) = LastAck c" "LastAck (signal_nagle_if c) = LastAck c"
  by (simp_all add: signal_window_if_def signal_nagle_if_def)

lemma add_dup_stats_simps [simp]:
  "Unacked (add_dup_stats i j c) = Unacked c" "CongWin (add_dup_stats i j c) = CongWin c"
  "SSThresh (add_dup_stats i j c) = SSThresh c" "RTO (add_dup_stats i j c) = RTO c"
  "LastAck (add_dup_stats i j c) = LastAck c"
  by (simp_all add: add_dup_stats_def)

lemma inflate_simps [simp]:
  "Unacked (inflate c) = Unacked c" "SSThresh (inflate c) = SSThresh c" "RTO (inflate c) = RTO c"
  "LastAck (inflate c) = LastAck c"
  by (simp_all add: inflate_def Let_def)

lemma enter_simps [simp]:
  "Unacked (enter_fast_recovery sq c) = Unacked c" "RTO (enter_fast_recovery sq c) = RTO c"
  "LastAck (enter_fast_recovery sq c) = LastAck c"
  "SSThresh (enter_fast_recovery sq c) = half_flight c"
  "CongWin (enter_fast_recovery sq c) = half_flight c + 3 * SendSegmentSize"
  by (simp_all add: enter_fast_recovery_def)

text \<open>\<^verbatim>\<open>fastRetransmit\<close> touches the retry count and the timer of one entry.\<close>

lemma fastRetransmit_frame:
  "snd (snd (fastRetransmit now ra c)) = c\<lparr> Unacked := Unacked (snd (snd (fastRetransmit now ra c))) \<rparr>"
  "map ekey (Unacked (snd (snd (fastRetransmit now ra c)))) = map ekey (Unacked c)"
proof -
  show "snd (snd (fastRetransmit now ra c)) = c\<lparr> Unacked := Unacked (snd (snd (fastRetransmit now ra c))) \<rparr>"
    by (auto simp: fastRetransmit_def Let_def split: option.splits)
  show "map ekey (Unacked (snd (snd (fastRetransmit now ra c)))) = map ekey (Unacked c)"
    by (auto simp: fastRetransmit_def Let_def split_first_Some split: option.splits)
qed

lemma fastRetransmit_fields [simp]:
  "CongWin (snd (snd (fastRetransmit now ra c))) = CongWin c"
  "SSThresh (snd (snd (fastRetransmit now ra c))) = SSThresh c"
  "RTO (snd (snd (fastRetransmit now ra c))) = RTO c"
  "LastAck (snd (snd (fastRetransmit now ra c))) = LastAck c"
  "InRecovery (snd (snd (fastRetransmit now ra c))) = InRecovery c"
  "FastRecovery (snd (snd (fastRetransmit now ra c))) = FastRecovery c"
  "RecoveryPoint (snd (snd (fastRetransmit now ra c))) = RecoveryPoint c"
  "SRTT (snd (snd (fastRetransmit now ra c))) = SRTT c"
  "RTTVAR (snd (snd (fastRetransmit now ra c))) = RTTVAR c"
  by (subst fastRetransmit_frame, simp)+

section \<open>The congestion invariant\<close>

text \<open>
  What is outstanding fits the largest congestion window. Segments that passed the window
  check are far below it (128 segments of 1152 bytes); remainders that Nagle held are sent
  without the check and add to it.
\<close>

definition flight_ok :: "Connection \<Rightarrow> bool" where
  "flight_ok c \<longleftrightarrow> flightSize c \<le> MaxCongWin"

definition cong_inv :: "Connection \<Rightarrow> bool" where
  "cong_inv c \<longleftrightarrow> MaxSegmentSize \<le> CongWin c \<and> CongWin c \<le> MaxCongWin \<and>
    2 * MaxSegmentSize \<le> SSThresh c \<and> SSThresh c \<le> MaxCongWin div 2 \<and>
    RTOMin \<le> RTO c \<and> RTO c \<le> RTOMax \<and> flight_ok c"

lemma ekey_entry_len: "ekey e = ekey e' \<Longrightarrow> entry_len e = entry_len e'"
  by (simp add: ekey_def entry_len_def)

lemma flightSize_ekey:
  assumes "map ekey (Unacked c) = map ekey (Unacked d)"
  shows "flightSize c = flightSize d"
proof -
  have len: "length (Unacked c) = length (Unacked d)" using assms by (rule map_eq_imp_length_eq)
  have "map entry_len (Unacked c) = map entry_len (Unacked d)"
    using assms len by (auto simp: list_eq_iff_nth_eq dest: ekey_entry_len)
  then show ?thesis by (simp add: flightSize_def)
qed

lemma flight_ok_ekey: "map ekey (Unacked c) = map ekey (Unacked d) \<Longrightarrow> flight_ok c = flight_ok d"
  unfolding flight_ok_def by (drule flightSize_ekey) simp

lemma flight_ok_fields:
  "Unacked d = Unacked c \<Longrightarrow> flight_ok d = flight_ok c"
  by (simp add: flight_ok_def flightSize_def)

lemma sum_entry_len_filter:
  "sum_list (map entry_len (filter P es)) \<le> sum_list (map entry_len es)"
  "0 \<le> sum_list (map entry_len es)"
  by (induction es) (auto simp: entry_len_def)

lemma flight_ok_filter:
  "flight_ok c \<Longrightarrow> flight_ok (c\<lparr> Unacked := filter P (Unacked c) \<rparr>)"
  using sum_entry_len_filter(1) [of P "Unacked c"] by (simp add: flight_ok_def flightSize_def)

lemma half_flight_bounds:
  assumes "flight_ok c"
  shows "2 * MaxSegmentSize \<le> half_flight c" "half_flight c \<le> MaxCongWin div 2"
  using assms sum_entry_len_filter(2) [of "Unacked c"]
  by (auto simp: half_flight_def Let_def window_consts go_div_nonneg flight_ok_def flightSize_def)

lemma updateRTT_bounds: "RTOMin \<le> RTO (updateRTT rtt c) \<and> RTO (updateRTT rtt c) \<le> RTOMax"
  by (simp add: updateRTT_def Let_def rto_consts)

lemma updateRTT_frame [simp]:
  "Unacked (updateRTT rtt c) = Unacked c" "CongWin (updateRTT rtt c) = CongWin c"
  "SSThresh (updateRTT rtt c) = SSThresh c" "InRecovery (updateRTT rtt c) = InRecovery c"
  "FastRecovery (updateRTT rtt c) = FastRecovery c" "LastAck (updateRTT rtt c) = LastAck c"
  by (simp_all add: updateRTT_def Let_def)

lemma rtt_sample_frame [simp]:
  "Unacked (rtt_sample now ak c) = Unacked c" "CongWin (rtt_sample now ak c) = CongWin c"
  "SSThresh (rtt_sample now ak c) = SSThresh c" "InRecovery (rtt_sample now ak c) = InRecovery c"
  "FastRecovery (rtt_sample now ak c) = FastRecovery c" "LastAck (rtt_sample now ak c) = LastAck c"
  by (auto simp: rtt_sample_def Let_def split: option.splits)

lemma rtt_sample_bounds:
  "\<lbrakk> RTOMin \<le> RTO c; RTO c \<le> RTOMax \<rbrakk> \<Longrightarrow>
    RTOMin \<le> RTO (rtt_sample now ak c) \<and> RTO (rtt_sample now ak c) \<le> RTOMax"
  using updateRTT_bounds by (auto simp: rtt_sample_def Let_def split: option.splits)

lemma bytes_acked_nonneg: "0 \<le> bytes_acked ak c"
  using sum_entry_len_filter(2) by (simp add: bytes_acked_def)

lemma cong_inv_same:
  assumes "cong_inv c" and "CongWin d = CongWin c" "SSThresh d = SSThresh c" "RTO d = RTO c"
    and "map ekey (Unacked d) = map ekey (Unacked c)"
  shows "cong_inv d"
  using assms flight_ok_ekey [of d c] by (simp add: cong_inv_def)

lemma cong_inv_inflate: "cong_inv c \<Longrightarrow> cong_inv (inflate c)"
  by (auto simp: cong_inv_def flight_ok_fields [of "inflate c" c]) (auto simp: inflate_def Let_def window_consts)

lemma cong_inv_enter: "cong_inv c \<Longrightarrow> cong_inv (enter_fast_recovery sq c)"
  using half_flight_bounds [of c]
  by (auto simp: cong_inv_def flight_ok_fields [of "enter_fast_recovery sq c" c] window_consts)

lemma cong_inv_CongWin:
  "\<lbrakk> cong_inv c; MaxSegmentSize \<le> w; w \<le> MaxCongWin \<rbrakk> \<Longrightarrow> cong_inv (c\<lparr> CongWin := w \<rparr>)"
  by (simp add: cong_inv_def flight_ok_def flightSize_def)

lemma cong_inv_fastRetransmit: "cong_inv c \<Longrightarrow> cong_inv (snd (snd (fastRetransmit now ra c)))"
  by (erule cong_inv_same) (simp_all add: fastRetransmit_frame(2))

lemma cong_inv_dup_ack:
  assumes "cong_inv c"
  shows "cong_inv (snd (dup_ack now c))"
proof -
  let ?c = "c\<lparr> DupAckCount := DupAckCount c + 1 \<rparr>"
  have inv: "cong_inv ?c" by (rule cong_inv_same [OF assms]) simp_all
  have stats: "cong_inv (add_dup_stats i j d)" if "cong_inv d" for i j d
    by (rule cong_inv_same [OF that]) simp_all
  note K = stats inv cong_inv_inflate cong_inv_enter cong_inv_fastRetransmit [of ?c now "RecvAck c"]
  show ?thesis
    using K assms by (auto simp: dup_ack_def Let_def split_beta)
qed

lemma dup_ack_ekey: "map ekey (Unacked (snd (dup_ack now c))) = map ekey (Unacked c)"
  by (simp add: dup_ack_def Let_def split_beta fastRetransmit_frame(2))

lemma recovery_ack_ekey:
  "map ekey (Unacked (snd (recovery_ack now ra n wasrec wasfast c))) = map ekey (Unacked c)"
  by (simp add: recovery_ack_def Let_def fastRetransmit_frame(2))

lemma cong_inv_recovery_ack:
  assumes "cong_inv c" and "0 \<le> n"
  shows "cong_inv (snd (recovery_ack now ra n wasrec wasfast c))"
proof -
  have "SSThresh c \<le> partial_window n c" "partial_window n c \<le> max (CongWin c) (SSThresh c)"
    using assms(2) by (auto simp: partial_window_def Let_def SendSegmentSize_def)
  then have "cong_inv (c\<lparr> CongWin := partial_window n c \<rparr>)" "cong_inv (c\<lparr> CongWin := SSThresh c \<rparr>)"
    using assms(1) by (auto intro!: cong_inv_CongWin, auto simp: cong_inv_def window_consts)
  then show ?thesis
    using assms(1) cong_inv_fastRetransmit by (auto simp: recovery_ack_def)
qed

lemma grow_window_inv:
  assumes "cong_inv c" and "0 < n"
  shows "\<exists>d. grow_window n c = Some d \<and> cong_inv d \<and> Unacked d = Unacked c"
proof -
  have pos: "0 < CongWin c" using assms(1) by (simp add: cong_inv_def window_consts)
  note upd = cong_inv_CongWin [OF assms(1)]
  show ?thesis
  proof (cases "CongWin c < SSThresh c")
    case True
    define w where "w = CongWin c + (if n > 2 * MaxSegmentSize then 2 * MaxSegmentSize else n)"
    have w: "MaxSegmentSize \<le> (if w > MaxCongWin then MaxCongWin else w)"
      using assms by (auto simp: w_def cong_inv_def window_consts)
    have "grow_window n c = Some (c\<lparr> CongWin := (if w > MaxCongWin then MaxCongWin else w) \<rparr>)"
      using True by (simp add: grow_window_def Let_def w_def)
    then show ?thesis using upd [OF w] by simp
  next
    case False
    define inc where "inc = go_div (MaxSegmentSize * (if n > MaxSegmentSize then MaxSegmentSize else n)) (CongWin c)"
    define w where "w = CongWin c + (if inc < 1 then 1 else inc)"
    have w: "MaxSegmentSize \<le> (if w > MaxCongWin then MaxCongWin else w)"
      using assms(1) by (auto simp: w_def cong_inv_def window_consts)
    have "grow_window n c = Some (c\<lparr> CongWin := (if w > MaxCongWin then MaxCongWin else w) \<rparr>)"
      using False pos by (simp add: grow_window_def Let_def inc_def w_def)
    then show ?thesis using upd [OF w] by simp
  qed
qed

lemma drop_acked_ekey:
  "map ekey (Unacked (drop_acked now ak c)) = map ekey (filter (\<lambda>e. \<not> covered ak e) (Unacked c))"
  by (simp add: drop_acked_def)

lemma cong_inv_drop_acked: "cong_inv c \<Longrightarrow> cong_inv (drop_acked now ak c)"
  using flight_ok_filter [of c "\<lambda>e. \<not> covered ak e"]
    flight_ok_ekey [of "drop_acked now ak c" "c\<lparr> Unacked := filter (\<lambda>e. \<not> covered ak e) (Unacked c) \<rparr>"]
  by (simp add: drop_acked_ekey) (simp add: cong_inv_def drop_acked_def)

lemma cong_inv_rtt_sample: "cong_inv c \<Longrightarrow> cong_inv (rtt_sample now ak c)"
  using rtt_sample_bounds [of c now ak]
  by (simp add: cong_inv_def flight_ok_fields [of "rtt_sample now ak c" c])

lemma advance_ack_frame [simp]:
  "Unacked (advance_ack ak c) = Unacked c" "CongWin (advance_ack ak c) = CongWin c"
  "SSThresh (advance_ack ak c) = SSThresh c" "RTO (advance_ack ak c) = RTO c"
  "SRTT (advance_ack ak c) = SRTT c" "RTTVAR (advance_ack ak c) = RTTVAR c"
  by (simp_all add: advance_ack_def Let_def)

definition acked_state :: "instant \<Rightarrow> u32 \<Rightarrow> Connection \<Rightarrow> Connection" where
  "acked_state now ak c = drop_acked now ak (rtt_sample now ak (advance_ack ak c))"

lemma new_ack_SomeD:
  assumes "new_ack now ak c = Some (pkts, d)"
  obtains c4 c5 where
    "recovery_ack now (RecvAck c) (bytes_acked ak c) (InRecovery c) (FastRecovery c) (acked_state now ak c)
      = (pkts, c4)"
    "c5 = c4 \<or> grow_window (bytes_acked ak c) c4 = Some c5"
    "d = signal_nagle_if (c5\<lparr> WindowCh := chan_signal (WindowCh c5) \<rparr>)"
  using assms by (auto simp: new_ack_def acked_state_def Let_def split: prod.splits option.splits if_splits)

lemma acked_state_ekey:
  "map ekey (Unacked (acked_state now ak c)) = map ekey (filter (\<lambda>e. \<not> covered ak e) (Unacked c))"
  by (simp add: acked_state_def drop_acked_ekey)

lemma cong_inv_acked_state: "cong_inv c \<Longrightarrow> cong_inv (acked_state now ak c)"
  unfolding acked_state_def
  by (intro cong_inv_drop_acked cong_inv_rtt_sample, erule cong_inv_same) simp_all

lemma new_ack_inv:
  assumes "cong_inv c"
  shows "\<exists>pkts d. new_ack now ak c = Some (pkts, d) \<and> cong_inv d \<and>
    map ekey (Unacked d) = map ekey (filter (\<lambda>e. \<not> covered ak e) (Unacked c))"
proof -
  define n where "n = bytes_acked ak c"
  obtain pkts c4 where c4: "recovery_ack now (RecvAck c) n (InRecovery c) (FastRecovery c) (acked_state now ak c)
      = (pkts, c4)" by force
  define grow where "grow \<longleftrightarrow> n > 0 \<and> \<not> (FastRecovery c \<and> InRecovery c \<and> InRecovery c4)"
  have inv4: "cong_inv c4"
    using cong_inv_recovery_ack [OF cong_inv_acked_state [OF assms], of n now "RecvAck c" "InRecovery c" "FastRecovery c" now ak]
      bytes_acked_nonneg c4 by (simp add: n_def)
  have key4: "map ekey (Unacked c4) = map ekey (Unacked (acked_state now ak c))"
    using recovery_ack_ekey [of now "RecvAck c" n "InRecovery c" "FastRecovery c" "acked_state now ak c"] c4 by simp
  obtain c5 where c5: "(if grow then grow_window n c4 else Some c4) = Some c5"
      "cong_inv c5" "Unacked c5 = Unacked c4"
    using grow_window_inv [OF inv4, of n] inv4 by (cases grow) (auto simp: grow_def)
  define d where "d = signal_nagle_if (c5\<lparr> WindowCh := chan_signal (WindowCh c5) \<rparr>)"
  have "cong_inv d" by (rule cong_inv_same [OF c5(2)]) (simp_all add: d_def)
  moreover have "new_ack now ak c = Some (pkts, d)"
    using c4 c5(1) unfolding grow_def d_def n_def acked_state_def by (simp add: new_ack_def Let_def)
  moreover have "map ekey (Unacked d) = map ekey (filter (\<lambda>e. \<not> covered ak e) (Unacked c))"
    using acked_state_ekey key4 c5(3) by (simp add: d_def)
  ultimately show ?thesis by blast
qed

lemma ProcessAck_inv:
  assumes "cong_inv c"
  shows "\<exists>pkts d. ProcessAck now ak pure c = Some (pkts, d) \<and> cong_inv d"
proof -
  obtain pk d where "dup_ack now c = (pk, d)" by force
  then show ?thesis
    using new_ack_inv [OF assms, of now ak] cong_inv_dup_ack [OF assms, of now] assms
    by (auto simp: ProcessAck_def)
qed

lemma ProcessSACK_inv: "cong_inv c \<Longrightarrow> cong_inv (ProcessSACK blocks c)"
  by (erule cong_inv_same) (simp_all add: ProcessSACK_def Let_def comp_def if_distrib cong: if_cong)

lemma TrackSend_inv:
  "\<lbrakk> cong_inv c; flightSize c + int (length data) \<le> MaxCongWin \<rbrakk> \<Longrightarrow> cong_inv (TrackSend now sq data c)"
  by (simp add: cong_inv_def flight_ok_def flightSize_def TrackSend_def entry_len_def)

lemma forget_sacks_frame:
  "forget_sacks now c = c\<lparr> Unacked := Unacked (forget_sacks now c) \<rparr>"
  "map ekey (Unacked (forget_sacks now c)) = map ekey (Unacked c)"
  by (auto simp: forget_sacks_def split: list.splits)

lemma forget_sacks_fields [simp]:
  "CongWin (forget_sacks now c) = CongWin c" "SSThresh (forget_sacks now c) = SSThresh c"
  "RTO (forget_sacks now c) = RTO c" "RetxSend (forget_sacks now c) = RetxSend c"
  by (auto simp: forget_sacks_def split: list.splits)

lemma cong_inv_forget_sacks: "cong_inv c \<Longrightarrow> cong_inv (forget_sacks now c)"
  by (erule cong_inv_same) (simp_all add: forget_sacks_frame(2))

lemma retransmitUnacked_inv:
  assumes "cong_inv c"
  shows "\<exists>pkts d. retransmitUnacked now rnd c = Some (pkts, d) \<and> cong_inv d \<and>
    map ekey (Unacked d) = map ekey (Unacked c)"
proof -
  define c1 where "c1 = forget_sacks now c"
  have inv: "cong_inv c1" and key: "map ekey (Unacked c1) = map ekey (Unacked c)"
    using cong_inv_forget_sacks [OF assms] forget_sacks_frame(2) by (simp_all add: c1_def)
  define rto where "rto = cap_rto (RTO c1 * 2)"
  have rto: "400 * millisecond \<le> rto" "rto \<le> 10 * second"
    using inv by (auto simp: rto_def cap_rto_def cong_inv_def rto_consts)
  then have div: "0 < go_div rto 4" by (simp add: go_div_nonneg)
  define rto' where "rto' = cap_rto (rto + rnd mod go_div rto 4)"
  have "0 \<le> rnd mod go_div rto 4" using div by simp
  then have rto': "RTOMin \<le> rto'" "rto' \<le> RTOMax"
    using rto by (auto simp: rto'_def cap_rto_def rto_consts)
  show ?thesis
  proof (cases "split_first (\<lambda>e. \<not> sacked e \<and> timed_out now c1 e) (Unacked c1)")
    case None
    then show ?thesis
      using assms inv key by (auto simp: retransmitUnacked_def c1_def Let_def)
  next
    case (Some x)
    obtain pre e post where x: "x = (pre, e, post)" by (cases x)
    have un: "Unacked c1 = pre @ e # post" using Some x by (simp add: split_first_Some)
    define c2 where "c2 = c1\<lparr> SSThresh := half_flight c1, InRecovery := True, RecoveryPoint := SendSeq c1,
        CongWin := MaxSegmentSize, RTO := rto',
        Unacked := pre @ e\<lparr> attempts := attempts e + 1, sentAt := now \<rparr> # post,
        Stats := (Stats c1)\<lparr> Retransmits := Retransmits (Stats c1) + 1 \<rparr>,
        DupAckCount := 0, FastRecovery := False, LastRetxTime := now \<rparr>"
    have key2: "map ekey (Unacked c2) = map ekey (Unacked c1)" by (simp add: c2_def un)
    have "cong_inv c2"
      using inv half_flight_bounds [of c1] rto' flight_ok_ekey [OF key2]
      by (simp add: cong_inv_def) (simp add: c2_def window_consts)
    moreover have "cong_inv (c1\<lparr> State := StateClosed \<rparr>)" by (rule cong_inv_same [OF inv]) simp_all
    ultimately show ?thesis
      using assms Some x key key2 div
      by (simp add: retransmitUnacked_def Let_def flip: c1_def rto_def rto'_def) (auto simp: c2_def)
  qed
qed

section \<open>The sender as a system of operations\<close>

datatype send_op =
    AckIn instant u32 bool
  | SackIn "SACKBlock list"
  | RetxTick instant int
  | SendSeg instant u32 bytes

fun send_step :: "send_op \<Rightarrow> Connection \<Rightarrow> Connection" where
  "send_step (AckIn now ak pure) c = (case ProcessAck now ak pure c of None \<Rightarrow> c | Some (_, d) \<Rightarrow> d)"
| "send_step (SackIn blocks) c = ProcessSACK blocks c"
| "send_step (RetxTick now rnd) c = (case retransmitUnacked now rnd c of None \<Rightarrow> c | Some (_, d) \<Rightarrow> d)"
| "send_step (SendSeg now sq data) c =
    (if flightSize c + int (length data) \<le> MaxCongWin then TrackSend now sq data c else c)"

interpretation send_ops: op_system send_step cong_inv
proof
  fix c and x :: send_op
  assume inv: "cong_inv c"
  show "cong_inv (send_step x c)"
  proof (cases x)
    case (AckIn now ak pure)
    then show ?thesis using ProcessAck_inv [OF inv, of now ak pure] by auto
  next
    case (RetxTick now rnd)
    then show ?thesis using retransmitUnacked_inv [OF inv, of now rnd] by auto
  qed (use inv in \<open>auto simp: ProcessSACK_inv TrackSend_inv\<close>)
qed

section \<open>What is retransmitted\<close>

text \<open>A packet that repeats an outstanding entry.\<close>

definition repeats :: "Connection \<Rightarrow> packet \<Rightarrow> bool" where
  "repeats c pkt \<longleftrightarrow> (\<exists>e\<in>set (Unacked c). Seq pkt = eseq e \<and>
    (if isFIN e then Flags pkt = {FlagFIN} \<and> Payload pkt = []
     else Flags pkt = {FlagACK} \<and> Payload pkt = edata e))"

lemma repeats_ekey:
  assumes "ekey ` set (Unacked c) \<subseteq> ekey ` set (Unacked d)" and "repeats c pkt"
  shows "repeats d pkt"
proof -
  obtain e where e: "e \<in> set (Unacked c)" "Seq pkt = eseq e"
      "if isFIN e then Flags pkt = {FlagFIN} \<and> Payload pkt = [] else Flags pkt = {FlagACK} \<and> Payload pkt = edata e"
    using assms(2) unfolding repeats_def by blast
  then have "ekey e \<in> ekey ` set (Unacked d)" using assms(1) by blast
  then obtain e' where "e' \<in> set (Unacked d)" "ekey e' = ekey e" by force
  then have "e' \<in> set (Unacked d)" "eseq e' = eseq e" "edata e' = edata e" "isFIN e' = isFIN e"
    by (auto simp: ekey_def)
  with e show ?thesis unfolding repeats_def by (intro bexI [of _ e']) simp_all
qed

lemma repeats_same_keys:
  "map ekey (Unacked c) = map ekey (Unacked d) \<Longrightarrow> repeats c pkt \<Longrightarrow> repeats d pkt"
  by (rule repeats_ekey [of c d]) (metis list.set_map order_refl)

lemma fastRetransmit_repeats: "\<forall>pkt\<in>set (fst (snd (fastRetransmit now ra c))). repeats c pkt"
  by (auto simp: fastRetransmit_def Let_def stream_packet_def repeats_def split_first_Some
      split: option.splits)

lemma dup_ack_repeats: "\<forall>pkt\<in>set (fst (dup_ack now c)). repeats c pkt"
  using fastRetransmit_repeats [of now "RecvAck c" "c\<lparr> DupAckCount := DupAckCount c + 1 \<rparr>"]
  by (auto simp: dup_ack_def Let_def split_beta repeats_def)

lemma repeats_Unacked: "Unacked c = Unacked d \<Longrightarrow> repeats c pkt = repeats d pkt"
  by (simp add: repeats_def)

lemma recovery_ack_repeats: "\<forall>pkt\<in>set (fst (recovery_ack now ra n wasrec wasfast c)). repeats c pkt"
  using fastRetransmit_repeats [of now ra "c\<lparr> CongWin := partial_window n c \<rparr>"]
    fastRetransmit_repeats [of now ra c] repeats_Unacked [of "c\<lparr> CongWin := partial_window n c \<rparr>" c]
  by (simp add: recovery_ack_def)

lemma new_ack_repeats:
  assumes "new_ack now ak c = Some (pkts, d)" and "pkt \<in> set pkts"
  shows "repeats c pkt"
proof -
  from assms(1) obtain c4 where
    "recovery_ack now (RecvAck c) (bytes_acked ak c) (InRecovery c) (FastRecovery c) (acked_state now ak c) = (pkts, c4)"
    by (elim new_ack_SomeD)
  then have "repeats (acked_state now ak c) pkt"
    using recovery_ack_repeats [of now "RecvAck c" "bytes_acked ak c" "InRecovery c" "FastRecovery c" "acked_state now ak c"]
      assms(2) by simp
  moreover have "ekey ` set (Unacked (acked_state now ak c)) \<subseteq> ekey ` set (Unacked c)"
    using arg_cong [where f = set, OF acked_state_ekey [of now ak c]] by auto
  ultimately show ?thesis using repeats_ekey by blast
qed

lemma retransmitUnacked_repeats:
  assumes "retransmitUnacked now rnd c = Some (pkts, d)" and "pkt \<in> set pkts"
  shows "repeats c pkt \<or> Flags pkt = {FlagRST} \<and> State d = StateClosed"
proof -
  have "repeats (forget_sacks now c) pkt \<or> Flags pkt = {FlagRST} \<and> State d = StateClosed"
    using assms
    by (auto simp: retransmitUnacked_def Let_def stream_packet_def repeats_def send_if_def
        split_first_Some split: if_splits option.splits)
  then show ?thesis
    using repeats_same_keys [OF forget_sacks_frame(2)] by blast
qed

section \<open>Round-trip samples and loss episodes\<close>

lemma new_ack_rtt:
  assumes "new_ack now ak c = Some (pkts, d)"
    and "\<exists>e\<in>set (Unacked c). attempts e > 1 \<and> covered ak e"
  shows "SRTT d = SRTT c \<and> RTTVAR d = RTTVAR c \<and> RTO d = RTO c"
proof -
  have "rtt_sample now ak (advance_ack ak c) = advance_ack ak c"
    using assms(2) by (simp add: rtt_sample_def)
  then have base: "SRTT (acked_state now ak c) = SRTT c" "RTTVAR (acked_state now ak c) = RTTVAR c"
      "RTO (acked_state now ak c) = RTO c"
    by (simp_all add: acked_state_def drop_acked_def)
  have rec: "SRTT (snd (recovery_ack t ra n x y e)) = SRTT e"
      "RTTVAR (snd (recovery_ack t ra n x y e)) = RTTVAR e" "RTO (snd (recovery_ack t ra n x y e)) = RTO e"
    for t ra n x y e
    by (simp_all add: recovery_ack_def)
  have grow: "SRTT e' = SRTT e \<and> RTTVAR e' = RTTVAR e \<and> RTO e' = RTO e" if "grow_window n e = Some e'" for n e e'
    using that by (auto simp: grow_window_def Let_def split: if_splits)
  obtain c4 c5 where c4: "recovery_ack now (RecvAck c) (bytes_acked ak c) (InRecovery c) (FastRecovery c)
        (acked_state now ak c) = (pkts, c4)"
      and c5: "c5 = c4 \<or> grow_window (bytes_acked ak c) c4 = Some c5"
      and d: "d = signal_nagle_if (c5\<lparr> WindowCh := chan_signal (WindowCh c5) \<rparr>)"
    using assms(1) by (elim new_ack_SomeD)
  have "SRTT c4 = SRTT c" "RTTVAR c4 = RTTVAR c" "RTO c4 = RTO c"
    using rec [of now "RecvAck c" "bytes_acked ak c" "InRecovery c" "FastRecovery c" "acked_state now ak c"] c4 base
    by simp_all
  then have "SRTT c5 = SRTT c" "RTTVAR c5 = RTTVAR c" "RTO c5 = RTO c"
    using c5 grow [of "bytes_acked ak c" c4 c5] by auto
  then show ?thesis by (simp add: d)
qed

lemma dup_ack_same_episode:
  assumes "InRecovery c" and "\<not> seqAfter (SendSeq c) (RecoveryPoint c)"
  shows "SSThresh (snd (dup_ack now c)) = SSThresh c"
  using assms by (simp add: dup_ack_def Let_def split_beta)

section \<open>Properties\<close>

definition sample_sender :: Connection where
  "sample_sender = TrackSend 5 100 [1, 2, 3] (startRetxLoop (sample_conn\<lparr> LastAck := 100, SendSeq := 103 \<rparr>))"

lemmas sample_sender_defs =
  sample_sender_def TrackSend_def startRetxLoop_def sample_conn_def new_connection_def

lemma sample_sender_inv: "cong_inv sample_sender"
  by (simp add: cong_inv_def flight_ok_def flightSize_def entry_len_def sample_sender_defs
      window_consts rto_consts)



text \<open>
  Neither the acknowledgement path nor the retransmission timer can panic: in a
  state in range the congestion-avoidance division never divides by zero and the jitter of
  the timeout never asks for a random number below zero.
\<close>

theorem sender_never_panics:
  assumes "cong_inv c"
  shows "ProcessAck now ak pure c \<noteq> None \<and> retransmitUnacked now rnd c \<noteq> None"
  using ProcessAck_inv [OF assms, of now ak pure] retransmitUnacked_inv [OF assms, of now rnd] by auto

text \<open>
  An acknowledgement removes exactly what it covers. After \<^verbatim>\<open>ProcessAck\<close> the
  retransmission buffer holds, in order and with their sequence numbers and data unchanged,
  the entries that the acknowledgement does not cover, if it moves past the last one, and all
  entries otherwise. Nothing unacknowledged is ever forgotten.
\<close>

theorem ProcessAck_removes_covered:
  assumes "cong_inv c" and "ProcessAck now ak pure c = Some (pkts, d)"
  shows "map ekey (Unacked d) =
    map ekey (if seqAfter (LastAck c) ak \<or> ak = LastAck c then Unacked c
              else filter (\<lambda>e. \<not> seqAfterOrEqual ak (eseq e + of_nat (length (edata e)))) (Unacked c))"
proof -
  obtain pk d' where "new_ack now ak c = Some (pk, d')"
      "map ekey (Unacked d') = map ekey (filter (\<lambda>e. \<not> covered ak e) (Unacked c))"
    using new_ack_inv [OF assms(1), of now ak] by blast
  then show ?thesis
    using assms(2) dup_ack_ekey [of now c]
    by (auto simp: ProcessAck_def covered_def entry_end_def split: if_splits)
qed

text \<open>
  A retransmission repeats the original. Every packet that the acknowledgement path or
  the timer sends carries the sequence number and exactly the data of an entry that is still
  outstanding (a FIN carries no data), except for the RST with which the timer closes the
  connection.
\<close>

theorem retransmissions_repeat_outstanding:
  "(case ProcessAck now ak pure c of None \<Rightarrow> True | Some (pkts, d) \<Rightarrow> list_all (repeats c) pkts) \<and>
   (case retransmitUnacked now rnd c of None \<Rightarrow> True
    | Some (pkts, d) \<Rightarrow>
        list_all (\<lambda>pkt. repeats c pkt \<or> Flags pkt = {FlagRST} \<and> State d = StateClosed) pkts)"
  using new_ack_repeats [of now ak c] dup_ack_repeats [of now c] retransmitUnacked_repeats [of now rnd c]
  by (auto simp: ProcessAck_def list_all_iff split: option.splits)

text \<open>
  Karn's rule: an acknowledgement that covers a segment that was sent more than once
  leaves the round-trip estimate and the retransmission timeout as they are.
\<close>

theorem karn_no_sample_from_resent:
  assumes "ProcessAck now ak pure c = Some (pkts, d)"
    and "\<exists>e\<in>set (Unacked c). attempts e > 1 \<and> seqAfterOrEqual ak (eseq e + of_nat (length (edata e)))"
    and "\<not> seqAfter (LastAck c) ak" and "ak \<noteq> LastAck c"
  shows "SRTT d = SRTT c \<and> RTTVAR d = RTTVAR c \<and> RTO d = RTO c"
  using assms by (intro new_ack_rtt [of now ak c pkts d]) (auto simp: ProcessAck_def covered_def entry_end_def)

text \<open>
  One multiplicative decrease per loss episode: while in recovery, duplicate
  acknowledgements do not lower the slow-start threshold again unless data was sent past the
  recovery point.
\<close>

theorem one_decrease_per_episode:
  assumes "InRecovery c" and "\<not> seqAfter (SendSeq c) (RecoveryPoint c)"
    and "ProcessAck now (LastAck c) pure c = Some (pkts, d)"
  shows "SSThresh d = SSThresh c"
  using assms dup_ack_same_episode [OF assms(1,2), of now] by (auto simp: ProcessAck_def split: if_splits)

text \<open>
  (C29) The head of the retransmission buffer is always resent: when the oldest
  unacknowledged entry has waited longer than the timeout, has been sent fewer than eight
  times, and no retransmission went out within the timeout, the timer resends exactly that
  entry, even if the peer had reported it in a selective acknowledgement.
\<close>

theorem timeout_resends_head:
  assumes "Unacked c = e # es" and "RTO c < now - sentAt e" and "attempts e < 8"
    and "LastRetxTime c = 0 \<or> RTO c \<le> now - LastRetxTime c"
    and "cong_inv c" and "RetxSend c"
  shows "\<exists>pkt d. retransmitUnacked now rnd c = Some ([pkt], d) \<and> Seq pkt = eseq e \<and>
    (Payload pkt = (if isFIN e then [] else edata e)) \<and> CongWin d = 4096 \<and> InRecovery d"
proof -
  define c1 where "c1 = forget_sacks now c"
  define e1 where "e1 = e\<lparr> sacked := False \<rparr>"
  have rto: "200 * millisecond \<le> RTO c" "RTO c \<le> 10 * second"
    using assms(5) by (simp_all add: cong_inv_def rto_consts)
  have out: "timed_out now c e"
    using assms(2) rto by (simp add: timed_out_def time_sub_greater)
  have head: "\<exists>es'. Unacked c1 = e1 # es'"
    using assms(1) out by (cases "sacked e") (auto simp: c1_def e1_def forget_sacks_def)
  then obtain es' where un: "Unacked c1 = e1 # es'" by blast
  have "timed_out now c1 e1" using out by (simp add: timed_out_def c1_def e1_def)
  then have split: "split_first (\<lambda>e. \<not> sacked e \<and> timed_out now c1 e) (Unacked c1) = Some ([], e1, es')"
    by (simp add: un e1_def)
  have guard: "\<not> (\<not> time_is_zero (LastRetxTime c) \<and> time_sub now (LastRetxTime c) < RTO c)"
    using assms(4) rto by (auto simp: time_is_zero_def time_sub_less)
  have "0 < go_div (cap_rto (RTO c1 * 2)) 4"
    using rto by (simp add: cap_rto_def c1_def go_div_nonneg pos_imp_zdiv_pos_iff)
  then show ?thesis
    using assms(1,3,6) guard split
    by (auto simp: retransmitUnacked_def Let_def MaxRetxAttempts_def e1_def send_if_def stream_packet_def
        MaxSegmentSize_def c1_def [symmetric]) (simp_all add: c1_def)
qed

theorem timeout_resends_head_witness:
  "\<exists>pkt d. retransmitUnacked (3 * second) 7 sample_sender = Some ([pkt], d) \<and> Payload pkt = [1, 2, 3]"
proof -
  obtain e where e: "Unacked sample_sender = [e]" "sentAt e = 5" "attempts e = 1" "isFIN e = False" "edata e = [1, 2, 3]"
    by (simp add: sample_sender_defs)
  have "RTO sample_sender = second" "LastRetxTime sample_sender = 0" "RetxSend sample_sender"
    by (simp_all add: sample_sender_defs InitialRTO_def)
  with timeout_resends_head [OF e(1), of "3 * second" 7] e sample_sender_inv show ?thesis by fastforce
qed

end
