(* ===== verification/Port_Manager.thy ===== *)
theory Port_Manager
  imports Conn_Send "HOL-Library.AList"
begin

text \<open>
  Virtual ports and the connection table (\<^verbatim>\<open>PortManager\<close> of
  \<^verbatim>\<open>src/pkg/daemon/ports.go\<close>): listeners with their accept queues, the bitmap allocator of
  ephemeral ports, and the queries over all connections.

  The Go map \<^verbatim>\<open>connections\<close> is an association list with distinct keys whose order is the
  order an iteration happens to visit it in; the theorems hold for every order. Handlers hold
  pointers to connections: they are identified by their IDs, and a handler's update of a
  connection is an update of its entry. The bounds of the ephemeral range, constants of another
  module, are the arguments \<open>emin\<close> and \<open>emax\<close>.
\<close>

section \<open>State\<close>

record Listener =
  Port :: u16
  AcceptCh :: "u32 list"
  lclosed :: bool

record PortManager =
  listeners :: "u16 \<rightharpoonup> Listener"
  connections :: "(u32 \<times> Connection) list"
  nextConnID :: u32
  nextEphPort :: u16
  ephBitmap :: "u64 list"

definition NewPortManager :: "u16 \<Rightarrow> PortManager" where
  "NewPortManager emin =
    \<lparr> listeners = Map.empty, connections = [], nextConnID = 1, nextEphPort = emin,
      ephBitmap = replicate 256 0 \<rparr>"

section \<open>Listeners\<close>

definition TrySend :: "u32 \<Rightarrow> Listener \<Rightarrow> bool \<times> Listener" where
  "TrySend conn ln =
    (if lclosed ln then (False, ln)
     else if length (AcceptCh ln) < AcceptQueueLen then (True, ln\<lparr> AcceptCh := AcceptCh ln @ [conn] \<rparr>)
     else (False, ln))"

definition Listener_close :: "Listener \<Rightarrow> Listener" where
  "Listener_close ln = (if \<not> lclosed ln then ln\<lparr> lclosed := True \<rparr> else ln)"

definition Bind :: "u16 \<Rightarrow> PortManager \<Rightarrow> Listener option \<times> PortManager" where
  "Bind port pm =
    (case listeners pm port of
       Some _ \<Rightarrow> (None, pm)
     | None \<Rightarrow> let ln = \<lparr> Port = port, AcceptCh = [], lclosed = False \<rparr>
              in (Some ln, pm\<lparr> listeners := (listeners pm)(port \<mapsto> ln) \<rparr>))"

text \<open>The listener object outlives its table entry in the hands of its users, closed.\<close>

definition Unbind :: "u16 \<Rightarrow> PortManager \<Rightarrow> Listener option \<times> PortManager" where
  "Unbind port pm =
    (case listeners pm port of
       None \<Rightarrow> (None, pm)
     | Some ln \<Rightarrow> (Some (Listener_close ln), pm\<lparr> listeners := (listeners pm)(port := None) \<rparr>))"

definition GetListener :: "u16 \<Rightarrow> PortManager \<Rightarrow> Listener option" where
  "GetListener port pm = listeners pm port"

section \<open>The ephemeral bitmap\<close>

text \<open>Word \<open>idx div 64\<close> and bit \<open>idx mod 64\<close> of the table, \<open>None\<close> outside the range.\<close>

definition ephBitIndex :: "u16 \<Rightarrow> u16 \<Rightarrow> u16 \<Rightarrow> nat option" where
  "ephBitIndex emin emax port =
    (if port < emin \<or> port > emax then None else Some (unat (port - emin)))"

definition markEphPortUsedLocked :: "u16 \<Rightarrow> u16 \<Rightarrow> u16 \<Rightarrow> PortManager \<Rightarrow> PortManager" where
  "markEphPortUsedLocked emin emax port pm =
    (case ephBitIndex emin emax port of None \<Rightarrow> pm
     | Some i \<Rightarrow> pm\<lparr> ephBitmap := bm_set (ephBitmap pm) i \<rparr>)"

definition portInUse :: "u16 \<Rightarrow> PortManager \<Rightarrow> bool" where
  "portInUse port pm \<longleftrightarrow>
    (\<exists>(i, c)\<in>set (connections pm). LocalPort c = port \<and> active_state (State c))"

definition clearEphPortLocked :: "u16 \<Rightarrow> u16 \<Rightarrow> u16 \<Rightarrow> PortManager \<Rightarrow> PortManager" where
  "clearEphPortLocked emin emax port pm =
    (case ephBitIndex emin emax port of None \<Rightarrow> pm
     | Some i \<Rightarrow>
        if \<exists>(j, c)\<in>set (connections pm). LocalPort c = port \<and> active_state (State c) then pm
        else pm\<lparr> ephBitmap := bm_clear (ephBitmap pm) i \<rparr>)"

definition ReleaseEphemeralPort :: "u16 \<Rightarrow> u16 \<Rightarrow> u16 \<Rightarrow> PortManager \<Rightarrow> PortManager" where
  "ReleaseEphemeralPort emin emax port pm = clearEphPortLocked emin emax port pm"

definition AllocEphemeralPort :: "u16 \<Rightarrow> u16 \<Rightarrow> PortManager \<Rightarrow> u16 \<times> PortManager" where
  "AllocEphemeralPort emin emax pm =
    (let total = unat (emax - emin) + 1;
         startIdx = unat (nextEphPort pm - emin)
     in case find (\<lambda>offset. \<not> bm_test (ephBitmap pm) ((startIdx + offset) mod total)) [0..<total] of
          None \<Rightarrow> (0, pm)
        | Some offset \<Rightarrow>
           let idx = (startIdx + offset) mod total;
               port = emin + of_nat idx;
               nxt = (if port \<ge> emax then emin else port + 1)
           in (port, pm\<lparr> ephBitmap := bm_set (ephBitmap pm) idx, nextEphPort := nxt \<rparr>))"

section \<open>Connections\<close>

definition NewConnection ::
    "u16 \<Rightarrow> u16 \<Rightarrow> instant \<Rightarrow> u16 \<Rightarrow> Addr \<Rightarrow> u16 \<Rightarrow> PortManager \<Rightarrow> Connection \<times> PortManager" where
  "NewConnection emin emax now localPort remoteAddr remotePort pm =
    (let conn = new_connection now (nextConnID pm) localPort remoteAddr remotePort;
         nxt = nextConnID pm + 1;
         nxt = (if nxt = 0 then 1 else nxt);
         pm1 = pm\<lparr> nextConnID := nxt, connections := AList.update (ID conn) conn (connections pm) \<rparr>
     in (conn, markEphPortUsedLocked emin emax localPort pm1))"

definition GetConnection :: "u32 \<Rightarrow> PortManager \<Rightarrow> Connection option" where
  "GetConnection i pm = map_of (connections pm) i"

definition set_connection :: "Connection \<Rightarrow> PortManager \<Rightarrow> PortManager" where
  "set_connection c pm =
    pm\<lparr> connections := map (\<lambda>(i, d). if i = ID c then (i, c) else (i, d)) (connections pm) \<rparr>"

definition same_tuple :: "u16 \<Rightarrow> Addr \<Rightarrow> u16 \<Rightarrow> Connection \<Rightarrow> bool" where
  "same_tuple localPort remoteAddr remotePort c \<longleftrightarrow>
    LocalPort c = localPort \<and> RemoteAddr c = remoteAddr \<and> RemotePort c = remotePort"

fun find_conn :: "u16 \<Rightarrow> Addr \<Rightarrow> u16 \<Rightarrow> Connection option \<Rightarrow> (u32 \<times> Connection) list \<Rightarrow> Connection option" where
  "find_conn lp ra rp fallback [] = fallback"
| "find_conn lp ra rp fallback ((i, c) # cs) =
    (if same_tuple lp ra rp c then
       if active_state (State c) then Some c else find_conn lp ra rp (Some c) cs
     else find_conn lp ra rp fallback cs)"

definition FindConnection :: "u16 \<Rightarrow> Addr \<Rightarrow> u16 \<Rightarrow> PortManager \<Rightarrow> Connection option" where
  "FindConnection localPort remoteAddr remotePort pm =
    find_conn localPort remoteAddr remotePort None (connections pm)"

definition all_conns :: "PortManager \<Rightarrow> Connection list" where
  "all_conns pm = map snd (connections pm)"

definition ConnectionCountForPort :: "u16 \<Rightarrow> PortManager \<Rightarrow> nat" where
  "ConnectionCountForPort port pm =
    length (filter (\<lambda>c. LocalPort c = port \<and> active_state (State c)) (all_conns pm))"

definition TotalActiveConnections :: "PortManager \<Rightarrow> nat" where
  "TotalActiveConnections pm = length (filter (\<lambda>c. active_state (State c)) (all_conns pm))"

definition SynSentReapDuration :: duration where "SynSentReapDuration = 5 * second"

definition is_stale :: "instant \<Rightarrow> duration \<Rightarrow> Connection \<Rightarrow> bool" where
  "is_stale now timeWaitDur c =
    (case State c of
       StateClosed \<Rightarrow> True
     | StateCloseWait \<Rightarrow> True
     | StateFinWait \<Rightarrow> time_sub now (LastActivity c) > timeWaitDur
     | StateTimeWait \<Rightarrow> time_sub now (LastActivity c) > timeWaitDur
     | StateSynSent \<Rightarrow> time_sub now (LastActivity c) > SynSentReapDuration
     | _ \<Rightarrow> False)"

definition StaleConnections :: "instant \<Rightarrow> duration \<Rightarrow> PortManager \<Rightarrow> Connection list" where
  "StaleConnections now timeWaitDur pm = filter (is_stale now timeWaitDur) (all_conns pm)"

definition ActiveNodeIDs :: "PortManager \<Rightarrow> node_id set" where
  "ActiveNodeIDs pm = {Node (RemoteAddr c) | c. c \<in> set (all_conns pm) \<and> active_state (State c)}"

definition IdleConnections :: "instant \<Rightarrow> duration \<Rightarrow> PortManager \<Rightarrow> Connection list" where
  "IdleConnections now maxIdle pm =
    filter (\<lambda>c. State c = StateEstablished \<and> time_sub now (LastActivity c) > maxIdle) (all_conns pm)"

definition AllConnections :: "PortManager \<Rightarrow> Connection list" where
  "AllConnections pm = all_conns pm"

text \<open>The removed connection is returned with its stop channel closed.\<close>

definition RemoveConnection :: "u16 \<Rightarrow> u16 \<Rightarrow> u32 \<Rightarrow> PortManager \<Rightarrow> Connection option \<times> PortManager" where
  "RemoveConnection emin emax i pm =
    (let pm1 = pm\<lparr> connections := AList.delete i (connections pm) \<rparr>
     in case GetConnection i pm of
          None \<Rightarrow> (None, pm1)
        | Some c \<Rightarrow>
           (Some (c\<lparr> RetxStop := map_option (\<lambda>_. True) (RetxStop c) \<rparr>),
            clearEphPortLocked emin emax (LocalPort c) pm1))"

record ConnectionInfo =
  info_ID :: u32
  info_LocalPort :: u16
  info_RemoteAddr :: string
  info_RemotePort :: u16
  info_State :: string
  info_SendSeq :: u32
  info_RecvAck :: u32
  info_CongWin :: int
  info_SSThresh :: int
  info_InFlight :: int
  info_SRTT :: duration
  info_RTTVAR :: duration
  info_Unacked :: nat
  info_OOOBuf :: nat
  info_PeerRecvWin :: int
  info_RecvWin :: int
  info_InRecovery :: bool
  info_Stats :: ConnStats

text \<open>\<open>addr_string\<close> is the address printer of the packet library.\<close>

definition connection_info :: "(Addr \<Rightarrow> string) \<Rightarrow> Connection \<Rightarrow> ConnectionInfo" where
  "connection_info addr_string c =
    \<lparr> info_ID = ID c, info_LocalPort = LocalPort c, info_RemoteAddr = addr_string (RemoteAddr c),
      info_RemotePort = RemotePort c, info_State = ConnState_String (State c),
      info_SendSeq = SendSeq c, info_RecvAck = RecvAck c, info_CongWin = CongWin c,
      info_SSThresh = SSThresh c, info_InFlight = BytesInFlight c, info_SRTT = SRTT c,
      info_RTTVAR = RTTVAR c, info_Unacked = length (Unacked c), info_OOOBuf = length (OOOBuf c),
      info_PeerRecvWin = PeerRecvWin c, info_RecvWin = uint (RecvWindow c) * MaxSegmentSize,
      info_InRecovery = InRecovery c, info_Stats = Stats c \<rparr>"

definition ConnectionList :: "(Addr \<Rightarrow> string) \<Rightarrow> PortManager \<Rightarrow> ConnectionInfo list" where
  "ConnectionList addr_string pm = map (connection_info addr_string) (all_conns pm)"

section \<open>What an allocator of ports promises\<close>

text \<open>
  A dial relies on three facts: a port that is handed out belongs to the pool and was free,
  it is in use afterwards, and the answer 0 means that nothing was free.
\<close>

locale port_allocator =
  fixes alloc :: "'s \<Rightarrow> u16 \<times> 's" and used :: "'s \<Rightarrow> u16 set" and pool :: "u16 set"
    and ok :: "'s \<Rightarrow> bool"
  assumes ok_alloc: "ok s \<Longrightarrow> ok (snd (alloc s))"
    and fresh: "\<lbrakk> ok s; fst (alloc s) \<noteq> 0 \<rbrakk> \<Longrightarrow> fst (alloc s) \<in> pool - used s"
    and marks: "\<lbrakk> ok s; fst (alloc s) \<noteq> 0 \<rbrakk> \<Longrightarrow> used (snd (alloc s)) = insert (fst (alloc s)) (used s)"
    and exhausted: "ok s \<Longrightarrow> fst (alloc s) = 0 \<longleftrightarrow> pool \<subseteq> used s"
begin

fun allocs :: "nat \<Rightarrow> 's \<Rightarrow> u16 list" where
  "allocs 0 s = []"
| "allocs (Suc n) s = fst (alloc s) # allocs n (snd (alloc s))"

lemma allocs_fresh:
  "\<lbrakk> ok s; n \<le> card (pool - used s) \<rbrakk> \<Longrightarrow>
    distinct (allocs n s) \<and> set (allocs n s) \<subseteq> pool - used s \<and> 0 \<notin> set (allocs n s)"
proof (induction n arbitrary: s)
  case (Suc n)
  let ?p = "fst (alloc s)" and ?s = "snd (alloc s)"
  have "pool - used s \<noteq> {}" using Suc.prems(2) by (intro notI) simp
  then have nz: "?p \<noteq> 0" using exhausted [OF Suc.prems(1)] by blast
  note F = fresh [OF Suc.prems(1) nz] and M = marks [OF Suc.prems(1) nz]
  have "pool - used ?s = (pool - used s) - {?p}" unfolding M by blast
  then have "n \<le> card (pool - used ?s)"
    using Suc.prems(2) F by simp
  from Suc.IH [OF ok_alloc [OF Suc.prems(1)] this] F M nz show ?case by auto
qed simp

end

section \<open>The bitmap implements the allocator\<close>

definition eph_range :: "u16 \<Rightarrow> u16 \<Rightarrow> bool" where
  "eph_range emin emax \<longleftrightarrow> 0 < emin \<and> emin \<le> emax \<and> unat emax - unat emin < 16384"

definition eph_pool :: "u16 \<Rightarrow> u16 \<Rightarrow> u16 set" where
  "eph_pool emin emax = {emin..emax}"

definition eph_used :: "u16 \<Rightarrow> u16 \<Rightarrow> PortManager \<Rightarrow> u16 set" where
  "eph_used emin emax pm =
    {p. \<exists>i. ephBitIndex emin emax p = Some i \<and> bm_test (ephBitmap pm) i}"

definition eph_ok :: "u16 \<Rightarrow> u16 \<Rightarrow> PortManager \<Rightarrow> bool" where
  "eph_ok emin emax pm \<longleftrightarrow> eph_range emin emax \<and> length (ephBitmap pm) = 256"

lemma ephBitIndex_range:
  assumes "ephBitIndex emin emax p = Some i"
  shows "emin \<le> p" "p \<le> emax" "i = unat p - unat emin" "p = emin + of_nat i"
proof -
  show le: "emin \<le> p" "p \<le> emax" using assms by (auto simp: ephBitIndex_def split: if_splits)
  have i: "i = unat (p - emin)" using assms by (auto simp: ephBitIndex_def split: if_splits)
  then show "i = unat p - unat emin" using le(1) by (simp add: unat_sub)
  show "p = emin + of_nat i" by (simp add: i)
qed

lemma ephBitIndex_less:
  "eph_range emin emax \<Longrightarrow> ephBitIndex emin emax p = Some i \<Longrightarrow> i < 16384"
  using ephBitIndex_range [of emin emax p i] by (auto simp: eph_range_def word_le_nat_alt)

lemma ephBitIndex_inject:
  "\<lbrakk> ephBitIndex emin emax p = Some i; ephBitIndex emin emax q = Some i \<rbrakk> \<Longrightarrow> p = q"
  using ephBitIndex_range(4) by metis

lemma ephBitIndex_of_idx:
  assumes "eph_range emin emax" and "i < unat (emax - emin) + 1"
  shows "ephBitIndex emin emax (emin + of_nat i) = Some i"
proof -
  have le: "emin \<le> emax" using assms(1) by (simp add: eph_range_def)
  have i: "i \<le> unat emax - unat emin" using assms(2) le by (simp add: unat_sub)
  have "unat emax < 2 ^ 16" using unsigned_less [of emax] by simp
  then have "unat (of_nat i :: u16) = i" using i by (simp add: unat_of_nat take_bit_nat_eq_self)
  moreover have "unat emin + i < 2 ^ 16"
    using i le \<open>unat emax < 2 ^ 16\<close> by (simp add: word_le_nat_alt)
  ultimately have u: "unat (emin + of_nat i) = unat emin + i"
    using unat_add_lem [of emin "of_nat i :: u16"] by simp
  then have "emin \<le> emin + of_nat i" "emin + of_nat i \<le> emax"
    using i le by (simp_all add: word_le_nat_alt)
  then show ?thesis using \<open>unat (of_nat i :: u16) = i\<close> by (simp add: ephBitIndex_def not_less)
qed

lemma eph_pool_index: "p \<in> eph_pool emin emax \<longleftrightarrow> (\<exists>i. ephBitIndex emin emax p = Some i)"
  by (auto simp: eph_pool_def ephBitIndex_def)

lemma ephBitIndex_eq_iff:
  "\<lbrakk> ephBitIndex emin emax p = Some i; ephBitIndex emin emax q = Some j \<rbrakk> \<Longrightarrow> i = j \<longleftrightarrow> p = q"
  using ephBitIndex_inject by fastforce

lemma eph_used_iff:
  "ephBitIndex emin emax q = Some j \<Longrightarrow> q \<in> eph_used emin emax pm \<longleftrightarrow> bm_test (ephBitmap pm) j"
  "ephBitIndex emin emax q = None \<Longrightarrow> q \<notin> eph_used emin emax pm"
  by (simp_all add: eph_used_def)

lemma eph_used_set:
  assumes "eph_ok emin emax pm" and i: "ephBitIndex emin emax p = Some i"
  shows "eph_used emin emax (pm\<lparr> ephBitmap := bm_set (ephBitmap pm) i \<rparr>) = insert p (eph_used emin emax pm)"
proof (rule set_eqI)
  fix q
  have "i < 64 * length (ephBitmap pm)"
    using assms ephBitIndex_less [of emin emax p i] by (simp add: eph_ok_def)
  then show "q \<in> eph_used emin emax (pm\<lparr> ephBitmap := bm_set (ephBitmap pm) i \<rparr>)
      \<longleftrightarrow> q \<in> insert p (eph_used emin emax pm)"
    using i ephBitIndex_eq_iff [OF i, of q]
    by (cases "ephBitIndex emin emax q") (auto simp: eph_used_iff bm_test_set)
qed

lemma eph_used_clear:
  assumes "eph_ok emin emax pm" and i: "ephBitIndex emin emax p = Some i"
  shows "eph_used emin emax (pm\<lparr> ephBitmap := bm_clear (ephBitmap pm) i \<rparr>) = eph_used emin emax pm - {p}"
proof (rule set_eqI)
  fix q
  have "i < 64 * length (ephBitmap pm)"
    using assms ephBitIndex_less [of emin emax p i] by (simp add: eph_ok_def)
  then show "q \<in> eph_used emin emax (pm\<lparr> ephBitmap := bm_clear (ephBitmap pm) i \<rparr>)
      \<longleftrightarrow> q \<in> eph_used emin emax pm - {p}"
    using i ephBitIndex_eq_iff [OF i, of q]
    by (cases "ephBitIndex emin emax q") (auto simp: eph_used_iff bm_test_clear)
qed

lemma eph_used_frame: "ephBitmap d = ephBitmap c \<Longrightarrow> eph_used emin emax d = eph_used emin emax c"
  by (simp add: eph_used_def)

text \<open>The scan from the cursor visits every port of the range.\<close>

lemma cyclic_onto:
  assumes "(i :: nat) < n"
  shows "\<exists>k<n. (s + k) mod n = i"
proof -
  have n: "0 < n" using assms by simp
  define k where "k = (i + (n - s mod n)) mod n"
  have "(s + k) mod n = (s mod n + (i + (n - s mod n))) mod n"
    by (simp add: k_def mod_add_eq mod_add_left_eq mod_add_right_eq)
  also have "s mod n + (i + (n - s mod n)) = i + n" using mod_less_divisor [OF n, of s] by linarith
  finally have "(s + k) mod n = i" using assms by simp
  moreover have "k < n" using n by (simp add: k_def)
  ultimately show ?thesis by blast
qed

lemma alloc_cases:
  assumes "eph_ok emin emax pm"
  obtains (exhausted) "AllocEphemeralPort emin emax pm = (0, pm)" "eph_pool emin emax \<subseteq> eph_used emin emax pm"
  | (found) i p nxt where "ephBitIndex emin emax p = Some i" "\<not> bm_test (ephBitmap pm) i" "p \<noteq> 0"
      "AllocEphemeralPort emin emax pm = (p, pm\<lparr> ephBitmap := bm_set (ephBitmap pm) i, nextEphPort := nxt \<rparr>)"
proof -
  have range: "eph_range emin emax" using assms by (simp add: eph_ok_def)
  define total where "total = unat (emax - emin) + 1"
  define start where "start = unat (nextEphPort pm - emin)"
  let ?free = "\<lambda>off. \<not> bm_test (ephBitmap pm) ((start + off) mod total)"
  let ?port = "\<lambda>off. emin + of_nat ((start + off) mod total) :: u16"
  have alloc: "AllocEphemeralPort emin emax pm =
    (case find ?free [0..<total] of None \<Rightarrow> (0, pm)
     | Some off \<Rightarrow> (?port off, pm\<lparr> ephBitmap := bm_set (ephBitmap pm) ((start + off) mod total),
         nextEphPort := (if ?port off \<ge> emax then emin else ?port off + 1) \<rparr>))"
    unfolding AllocEphemeralPort_def Let_def total_def start_def ..
  show ?thesis
  proof (cases "find ?free [0..<total]")
    case None
    have full: "bm_test (ephBitmap pm) i" if "i < total" for i
      using cyclic_onto [OF that, of start] None by (auto simp: find_None_iff)
    have "eph_pool emin emax \<subseteq> eph_used emin emax pm"
    proof
      fix p assume "p \<in> eph_pool emin emax"
      then obtain i where i: "ephBitIndex emin emax p = Some i" by (auto simp: eph_pool_index)
      then have "i < total"
        using ephBitIndex_range(1-3) [OF i] by (auto simp: total_def unat_sub word_le_nat_alt less_Suc_eq_le)
      with i full show "p \<in> eph_used emin emax pm" by (auto simp: eph_used_def)
    qed
    moreover have "AllocEphemeralPort emin emax pm = (0, pm)" unfolding alloc None by simp
    ultimately show ?thesis by (intro exhausted)
  next
    case (Some off)
    define i where "i = (start + off) mod total"
    define p where "p = emin + (of_nat i :: u16)"
    have "0 < total" by (simp add: total_def)
    then have idx: "ephBitIndex emin emax p = Some i"
      unfolding p_def using range by (intro ephBitIndex_of_idx) (simp_all add: i_def total_def)
    have "p \<noteq> 0" using ephBitIndex_range(1) [OF idx] range by (auto simp: eph_range_def)
    moreover have "\<not> bm_test (ephBitmap pm) i" using Some by (auto simp: find_Some_iff i_def)
    moreover have "AllocEphemeralPort emin emax pm = (p, pm\<lparr> ephBitmap := bm_set (ephBitmap pm) i,
        nextEphPort := (if p \<ge> emax then emin else p + 1) \<rparr>)"
      unfolding alloc Some p_def i_def by simp
    ultimately show ?thesis using idx by (intro found [of p i])
  qed
qed

interpretation eph: port_allocator "AllocEphemeralPort emin emax" "eph_used emin emax"
    "eph_pool emin emax" "eph_ok emin emax" for emin emax
proof
  fix pm
  assume ok: "eph_ok emin emax pm"
  let ?p = "fst (AllocEphemeralPort emin emax pm)" and ?pm = "snd (AllocEphemeralPort emin emax pm)"
  show "eph_ok emin emax ?pm"
    using ok by (cases rule: alloc_cases [OF ok]) (auto simp: eph_ok_def)
  { assume "?p \<noteq> 0"
    then show "?p \<in> eph_pool emin emax - eph_used emin emax pm"
      by (cases rule: alloc_cases [OF ok]) (auto simp: eph_pool_index eph_used_iff) }
  { assume "?p \<noteq> 0"
    then show "eph_used emin emax ?pm = insert ?p (eph_used emin emax pm)"
    proof (cases rule: alloc_cases [OF ok, case_names exhausted found])
      case (found i p nxt)
      then show ?thesis
        using eph_used_set [OF ok found(1)]
          eph_used_frame [of ?pm "pm\<lparr> ephBitmap := bm_set (ephBitmap pm) i \<rparr>" emin emax] by simp
    qed auto }
  show "?p = 0 \<longleftrightarrow> eph_pool emin emax \<subseteq> eph_used emin emax pm"
    by (cases rule: alloc_cases [OF ok]) (auto simp: eph_pool_index eph_used_iff subset_iff)
qed

section \<open>The table and the bitmap\<close>

text \<open>
  The invariant of the manager: entries carry the ID they are stored under, and the port of
  every active connection in the ephemeral range is marked in the bitmap.
\<close>

definition ports_marked :: "u16 \<Rightarrow> u16 \<Rightarrow> PortManager \<Rightarrow> bool" where
  "ports_marked emin emax pm \<longleftrightarrow>
    (\<forall>(i, c)\<in>set (connections pm). active_state (State c) \<longrightarrow> LocalPort c \<in> eph_pool emin emax \<longrightarrow>
      LocalPort c \<in> eph_used emin emax pm)"

definition pm_inv :: "u16 \<Rightarrow> u16 \<Rightarrow> PortManager \<Rightarrow> bool" where
  "pm_inv emin emax pm \<longleftrightarrow> eph_ok emin emax pm \<and> distinct (map fst (connections pm)) \<and>
    (\<forall>(i, c)\<in>set (connections pm). ID c = i) \<and> nextConnID pm \<noteq> 0 \<and> ports_marked emin emax pm"

text \<open>
  The operations of the daemon on the manager. A connection is opened in an active state (a
  dial or an accepted SYN); a handler's update of it keeps its ID and port and does not bring
  a closed connection back to life.
\<close>

datatype pm_op =
    DoAlloc
  | DoRelease u16
  | DoOpen instant u16 Addr u16 ConnState
  | DoUpdate Connection
  | DoRemove u32
  | DoBind u16
  | DoUnbind u16

fun pm_step :: "u16 \<Rightarrow> u16 \<Rightarrow> pm_op \<Rightarrow> PortManager \<Rightarrow> PortManager" where
  "pm_step emin emax DoAlloc pm = snd (AllocEphemeralPort emin emax pm)"
| "pm_step emin emax (DoRelease port) pm = ReleaseEphemeralPort emin emax port pm"
| "pm_step emin emax (DoOpen now lp ra rp st) pm =
    (case NewConnection emin emax now lp ra rp pm of (c, pm1) \<Rightarrow> set_connection (c\<lparr> State := st \<rparr>) pm1)"
| "pm_step emin emax (DoUpdate c) pm =
    (case GetConnection (ID c) pm of None \<Rightarrow> pm
     | Some c0 \<Rightarrow> if LocalPort c = LocalPort c0 \<and> (active_state (State c) \<longrightarrow> active_state (State c0))
                 then set_connection c pm else pm)"
| "pm_step emin emax (DoRemove i) pm = snd (RemoveConnection emin emax i pm)"
| "pm_step emin emax (DoBind port) pm = snd (Bind port pm)"
| "pm_step emin emax (DoUnbind port) pm = snd (Unbind port pm)"

lemma eph_ok_frame: "length (ephBitmap d) = length (ephBitmap c) \<Longrightarrow> eph_ok emin emax d = eph_ok emin emax c"
  by (simp add: eph_ok_def)

lemma mark_used:
  assumes "eph_ok emin emax pm"
  shows "eph_used emin emax (markEphPortUsedLocked emin emax port pm)
      = eph_used emin emax pm \<union> ({port} \<inter> eph_pool emin emax)"
    and "connections (markEphPortUsedLocked emin emax port pm) = connections pm"
    and "nextConnID (markEphPortUsedLocked emin emax port pm) = nextConnID pm"
    and "eph_ok emin emax (markEphPortUsedLocked emin emax port pm)"
  using assms eph_used_set [OF assms, of port]
  by (auto simp: markEphPortUsedLocked_def eph_pool_index eph_ok_def split: option.splits)

lemma clear_used:
  assumes "eph_ok emin emax pm"
  shows "eph_used emin emax (clearEphPortLocked emin emax port pm)
      = (if portInUse port pm then eph_used emin emax pm else eph_used emin emax pm - {port})"
    and "connections (clearEphPortLocked emin emax port pm) = connections pm"
    and "nextConnID (clearEphPortLocked emin emax port pm) = nextConnID pm"
    and "eph_ok emin emax (clearEphPortLocked emin emax port pm)"
  using assms eph_used_clear [OF assms, of port]
  by (auto simp: clearEphPortLocked_def portInUse_def eph_ok_def eph_used_iff split: option.splits)

lemma ports_marked_mono:
  assumes "ports_marked emin emax pm" and "set (connections d) \<subseteq> set (connections pm)"
    and "\<And>i c. (i, c) \<in> set (connections d) \<Longrightarrow> active_state (State c) \<Longrightarrow> LocalPort c \<in> eph_used emin emax pm
      \<Longrightarrow> LocalPort c \<in> eph_used emin emax d"
  shows "ports_marked emin emax d"
  using assms unfolding ports_marked_def by fast

lemma clear_marked:
  assumes "eph_ok emin emax pm" and "ports_marked emin emax pm"
  shows "ports_marked emin emax (clearEphPortLocked emin emax port pm)"
  by (rule ports_marked_mono [OF assms(2)])
    (auto simp: clear_used [OF assms(1)] portInUse_def split: if_splits)

lemma set_connection_entries:
  "set (connections (set_connection c pm)) \<subseteq> insert (ID c, c) {x \<in> set (connections pm). fst x \<noteq> ID c}"
  "map fst (connections (set_connection c pm)) = map fst (connections pm)"
  "ephBitmap (set_connection c pm) = ephBitmap pm" "nextConnID (set_connection c pm) = nextConnID pm"
  by (auto simp: set_connection_def split_beta)

lemma pm_inv_Alloc: "pm_inv emin emax pm \<Longrightarrow> pm_inv emin emax (snd (AllocEphemeralPort emin emax pm))"
proof -
  assume inv: "pm_inv emin emax pm"
  then have ok: "eph_ok emin emax pm" by (simp add: pm_inv_def)
  have frame: "connections (snd (AllocEphemeralPort emin emax pm)) = connections pm"
    "nextConnID (snd (AllocEphemeralPort emin emax pm)) = nextConnID pm"
    by (cases rule: alloc_cases [OF ok]; simp)+
  have "eph_used emin emax pm \<subseteq> eph_used emin emax (snd (AllocEphemeralPort emin emax pm))"
    using eph.marks [OF ok] by (cases rule: alloc_cases [OF ok]) auto
  then have "ports_marked emin emax (snd (AllocEphemeralPort emin emax pm))"
    using inv frame(1) by - (rule ports_marked_mono [of emin emax pm], simp add: pm_inv_def, simp, blast)
  with inv show ?thesis using eph.ok_alloc [OF ok] by (simp add: pm_inv_def frame)
qed

lemma pm_inv_clear: "pm_inv emin emax pm \<Longrightarrow> pm_inv emin emax (clearEphPortLocked emin emax port pm)"
  using clear_marked [of emin emax pm port] clear_used(2-4) [of emin emax pm port] by (simp add: pm_inv_def)

lemma pm_inv_update:
  assumes inv: "pm_inv emin emax pm"
    and "active_state (State c) \<Longrightarrow> LocalPort c \<in> eph_pool emin emax \<Longrightarrow> LocalPort c \<in> eph_used emin emax pm"
  shows "pm_inv emin emax (set_connection c pm)"
proof -
  have ents: "x \<in> set (connections (set_connection c pm)) \<Longrightarrow> x = (ID c, c) \<or> x \<in> set (connections pm)" for x
    using set_connection_entries(1) [of c pm] by blast
  have used: "eph_used emin emax (set_connection c pm) = eph_used emin emax pm"
    by (rule eph_used_frame) (simp add: set_connection_entries)
  have "ports_marked emin emax (set_connection c pm)"
    unfolding ports_marked_def used using inv assms(2) ents by (fastforce simp: pm_inv_def ports_marked_def)
  moreover have "eph_ok emin emax (set_connection c pm)"
    using inv by (simp add: pm_inv_def eph_ok_def set_connection_entries)
  moreover have "\<forall>(i, d)\<in>set (connections (set_connection c pm)). ID d = i"
    using inv ents by (fastforce simp: pm_inv_def)
  moreover have "distinct (map fst (connections (set_connection c pm)))"
    unfolding set_connection_entries(2) using inv by (simp add: pm_inv_def)
  ultimately show ?thesis
    using inv by (simp add: pm_inv_def set_connection_entries(4))
qed

lemma alist_update_entries:
  "x \<in> set (AList.update k v xs) \<Longrightarrow> x = (k, v) \<or> x \<in> set xs"
  by (induction xs) (auto split: if_splits)

lemma new_connection_simps [simp]:
  "ID (new_connection now i lp ra rp) = i" "LocalPort (new_connection now i lp ra rp) = lp"
  "State (new_connection now i lp ra rp) = StateClosed"
  by (simp_all add: new_connection_def)

lemma pm_inv_New:
  assumes inv: "pm_inv emin emax pm" and new: "NewConnection emin emax now lp ra rp pm = (c, pm1)"
  shows "pm_inv emin emax pm1" "lp \<in> eph_pool emin emax \<Longrightarrow> lp \<in> eph_used emin emax pm1"
    "c = new_connection now (nextConnID pm) lp ra rp"
proof -
  define nxt where "nxt = (if nextConnID pm + 1 = 0 then 1 else nextConnID pm + 1)"
  define pm0 where "pm0 = pm\<lparr> nextConnID := nxt, connections := AList.update (nextConnID pm)
      (new_connection now (nextConnID pm) lp ra rp) (connections pm) \<rparr>"
  show c: "c = new_connection now (nextConnID pm) lp ra rp" using new by (auto simp: NewConnection_def Let_def)
  have pm1: "pm1 = markEphPortUsedLocked emin emax lp pm0"
    using new by (auto simp: NewConnection_def Let_def pm0_def nxt_def)
  have ok: "eph_ok emin emax pm0" using inv by (simp add: pm_inv_def pm0_def eph_ok_def)
  have used: "eph_used emin emax pm0 = eph_used emin emax pm" by (rule eph_used_frame) (simp add: pm0_def)
  have ents: "x \<in> set (connections pm0) \<Longrightarrow> x = (nextConnID pm, new_connection now (nextConnID pm) lp ra rp)
      \<or> x \<in> set (connections pm)" for x
    using alist_update_entries by (fastforce simp: pm0_def)
  have "ports_marked emin emax pm0"
    unfolding ports_marked_def used using inv ents
    by (fastforce simp: pm_inv_def ports_marked_def active_state_def)
  then have "ports_marked emin emax pm1"
    unfolding pm1 by (rule ports_marked_mono) (simp_all add: mark_used [OF ok])
  moreover have "\<forall>(i, d)\<in>set (connections pm0). ID d = i"
    using inv ents by (fastforce simp: pm_inv_def)
  moreover have "distinct (map fst (connections pm0))"
    using inv distinct_update [of "connections pm"] by (simp add: pm_inv_def pm0_def)
  moreover have "nextConnID pm0 \<noteq> 0" by (simp add: pm0_def nxt_def)
  ultimately show "pm_inv emin emax pm1"
    unfolding pm_inv_def pm1 by (simp add: mark_used [OF ok])
  show "lp \<in> eph_pool emin emax \<Longrightarrow> lp \<in> eph_used emin emax pm1"
    unfolding pm1 by (simp add: mark_used [OF ok])
qed

lemma pm_inv_Remove:
  assumes inv: "pm_inv emin emax pm"
  shows "pm_inv emin emax (snd (RemoveConnection emin emax i pm))"
proof -
  define pm1 where "pm1 = pm\<lparr> connections := AList.delete i (connections pm) \<rparr>"
  have sub: "set (connections pm1) \<subseteq> set (connections pm)"
    by (auto simp: pm1_def AList.delete_eq)
  have used: "eph_used emin emax pm1 = eph_used emin emax pm" by (rule eph_used_frame) (simp add: pm1_def)
  have "ports_marked emin emax pm1"
    using inv sub used by - (rule ports_marked_mono [of emin emax pm], simp add: pm_inv_def, simp, simp)
  moreover have "distinct (map fst (connections pm1))"
    using inv distinct_delete [of "connections pm" i] by (simp add: pm_inv_def pm1_def)
  ultimately have "pm_inv emin emax pm1"
    using inv sub by (auto simp: pm_inv_def eph_ok_def) (auto simp: pm1_def)
  then show ?thesis
    using pm_inv_clear [of emin emax pm1]
    by (auto simp: RemoveConnection_def Let_def simp flip: pm1_def split: option.splits)
qed

lemma pm_inv_listeners: "pm_inv emin emax (pm\<lparr> listeners := l \<rparr>) = pm_inv emin emax pm"
  by (simp add: pm_inv_def eph_ok_def ports_marked_def eph_used_def)

lemma GetConnection_entry: "GetConnection i pm = Some c \<Longrightarrow> (i, c) \<in> set (connections pm)"
  by (simp add: GetConnection_def map_of_SomeD)

interpretation pm_ops: op_system "pm_step emin emax" "pm_inv emin emax" for emin emax
proof
  fix pm and x :: pm_op
  assume inv: "pm_inv emin emax pm"
  show "pm_inv emin emax (pm_step emin emax x pm)"
  proof (cases x)
    case (DoOpen now lp ra rp st)
    obtain c pm1 where new: "NewConnection emin emax now lp ra rp pm = (c, pm1)" by force
    note N = pm_inv_New [OF inv new]
    then show ?thesis using new DoOpen by (auto intro!: pm_inv_update)
  next
    case (DoUpdate c)
    show ?thesis
    proof (cases "GetConnection (ID c) pm")
      case None
      then show ?thesis using inv DoUpdate by simp
    next
      case (Some c0)
      then have "(ID c, c0) \<in> set (connections pm)" by (rule GetConnection_entry)
      then have "active_state (State c0) \<Longrightarrow> LocalPort c0 \<in> eph_pool emin emax \<Longrightarrow> LocalPort c0 \<in> eph_used emin emax pm"
        using inv by (auto simp: pm_inv_def ports_marked_def)
      then show ?thesis using inv DoUpdate Some by (auto intro!: pm_inv_update)
    qed
  qed (use inv in \<open>auto simp: pm_inv_Alloc pm_inv_clear pm_inv_Remove ReleaseEphemeralPort_def
        Bind_def Unbind_def pm_inv_listeners Let_def split: option.splits\<close>)
qed

lemma NewPortManager_inv: "eph_range emin emax \<Longrightarrow> pm_inv emin emax (NewPortManager emin)"
  by (simp add: pm_inv_def NewPortManager_def eph_ok_def ports_marked_def)

lemma NewPortManager_used: "eph_range emin emax \<Longrightarrow> eph_used emin emax (NewPortManager emin) = {}"
  using ephBitIndex_less [of emin emax] bm_test_zero [of _ 256] by (auto simp: eph_used_def NewPortManager_def)

section \<open>Sequences of allocations\<close>

fun alloc_many :: "u16 \<Rightarrow> u16 \<Rightarrow> nat \<Rightarrow> PortManager \<Rightarrow> u16 list" where
  "alloc_many emin emax 0 pm = []"
| "alloc_many emin emax (Suc n) pm =
    (case AllocEphemeralPort emin emax pm of (p, pm1) \<Rightarrow> p # alloc_many emin emax n pm1)"

lemma alloc_many_allocs: "alloc_many emin emax n pm = eph.allocs emin emax n pm"
  by (induction n arbitrary: pm) (simp_all add: split_beta)

lemma card_eph_pool:
  assumes "eph_range emin emax"
  shows "card (eph_pool emin emax) = unat emax - unat emin + 1"
proof -
  let ?n = "unat (emax - emin) + 1"
  have "inj_on (\<lambda>i. emin + of_nat i) {0..<?n}"
    using ephBitIndex_of_idx [OF assms] by (intro inj_onI) (metis atLeastLessThan_iff option.inject)
  moreover have "(\<lambda>i. emin + of_nat i) ` {0..<?n} = eph_pool emin emax"
  proof (intro equalityI subsetI)
    fix p assume "p \<in> eph_pool emin emax"
    then obtain i where i: "ephBitIndex emin emax p = Some i" by (auto simp: eph_pool_index)
    then have "i < ?n"
      using ephBitIndex_range(1-3) [OF i] by (auto simp: unat_sub word_le_nat_alt less_Suc_eq_le)
    then show "p \<in> (\<lambda>i. emin + of_nat i) ` {0..<?n}" using ephBitIndex_range(4) [OF i] by auto
  qed (use ephBitIndex_of_idx [OF assms] in \<open>auto simp: eph_pool_index\<close>)
  ultimately have "card (eph_pool emin emax) = ?n" using card_image [of "\<lambda>i. emin + of_nat i" "{0..<?n}"] by simp
  then show ?thesis using assms by (simp add: eph_range_def unat_sub)
qed

text \<open>The search returns the first active match, else the last match.\<close>

lemma find_conn_eq:
  "find_conn lp ra rp fb cs =
    (case find (\<lambda>c. same_tuple lp ra rp c \<and> active_state (State c)) (map snd cs) of
       Some c \<Rightarrow> Some c
     | None \<Rightarrow> (let ms = filter (same_tuple lp ra rp) (map snd cs) in if ms = [] then fb else Some (last ms)))"
  by (induction lp ra rp fb cs rule: find_conn.induct) (auto simp: Let_def split: option.splits)

section \<open>Properties\<close>

lemma pilot_range: "eph_range 49152 65535"
  by (simp add: eph_range_def)

text \<open>
  Ephemeral ports are never handed out twice and none is wasted: as many allocations
  in a row as there are free ports all succeed, with pairwise distinct ports of the range that
  were not in use.
\<close>

theorem allocations_distinct_until_exhausted:
  assumes "eph_ok emin emax pm" and "n \<le> card (eph_pool emin emax - eph_used emin emax pm)"
  shows "distinct (alloc_many emin emax n pm) \<and>
    set (alloc_many emin emax n pm) \<subseteq> eph_pool emin emax - eph_used emin emax pm \<and>
    0 \<notin> set (alloc_many emin emax n pm)"
  unfolding alloc_many_allocs by (rule eph.allocs_fresh [OF assms])

text \<open>
  The answer 0 means what callers take it for: \<^verbatim>\<open>AllocEphemeralPort\<close> returns 0
  exactly when every port of the range is marked in use.
\<close>

theorem alloc_zero_iff_exhausted:
  assumes "eph_ok emin emax pm"
  shows "fst (AllocEphemeralPort emin emax pm) = 0 \<longleftrightarrow> eph_pool emin emax \<subseteq> eph_used emin emax pm"
  by (rule eph.exhausted [OF assms])



text \<open>
  A packet reaches the live connection. When several table entries share the 4-tuple,
  as after the reuse of a port in TIME_WAIT, \<^verbatim>\<open>FindConnection\<close> returns an active one if
  there is one, whatever order the map is visited in; it returns none only if no entry
  matches, and never an entry of another 4-tuple.
\<close>

theorem FindConnection_prefers_active:
  "case FindConnection lp ra rp pm of
     None \<Rightarrow> (\<forall>c\<in>set (all_conns pm). \<not> same_tuple lp ra rp c)
   | Some c \<Rightarrow> c \<in> set (all_conns pm) \<and> same_tuple lp ra rp c \<and>
       (active_state (State c) \<or>
        (\<forall>d\<in>set (all_conns pm). same_tuple lp ra rp d \<longrightarrow> \<not> active_state (State d)))"
proof (cases "find (\<lambda>c. same_tuple lp ra rp c \<and> active_state (State c)) (all_conns pm)")
  case (Some c)
  then have "FindConnection lp ra rp pm = Some c"
    by (simp add: FindConnection_def find_conn_eq all_conns_def)
  moreover have "c \<in> set (all_conns pm)" "same_tuple lp ra rp c" "active_state (State c)"
    using Some by (auto simp: find_Some_iff)
  ultimately show ?thesis by simp
next
  case None
  define ms where "ms = filter (same_tuple lp ra rp) (all_conns pm)"
  have mem: "c \<in> set ms \<longleftrightarrow> c \<in> set (all_conns pm) \<and> same_tuple lp ra rp c" for c by (auto simp: ms_def)
  have "FindConnection lp ra rp pm = (if ms = [] then None else Some (last ms))"
    using None by (simp add: FindConnection_def find_conn_eq all_conns_def [symmetric] ms_def Let_def)
  moreover have "ms \<noteq> [] \<Longrightarrow> last ms \<in> set ms" by (rule last_in_set)
  moreover have "ms = [] \<Longrightarrow> \<forall>c\<in>set (all_conns pm). \<not> same_tuple lp ra rp c" using mem by auto
  ultimately show ?thesis using None mem by (auto simp: find_None_iff)
qed

text \<open>
  Removing a connection returns its port: afterwards the ID is unknown, and the local
  port is free unless another active connection uses it, in which case it stays reserved.
\<close>

theorem RemoveConnection_releases_port:
  assumes "eph_ok emin emax pm" and "GetConnection i pm = Some c"
    and "RemoveConnection emin emax i pm = (r, pm')"
  shows "GetConnection i pm' = None \<and>
    eph_used emin emax pm' =
      (if portInUse (LocalPort c) pm' then eph_used emin emax pm else eph_used emin emax pm - {LocalPort c})"
proof -
  define pm1 where "pm1 = pm\<lparr> connections := AList.delete i (connections pm) \<rparr>"
  have ok: "eph_ok emin emax pm1" using assms(1) by (simp add: eph_ok_def pm1_def)
  have used: "eph_used emin emax pm1 = eph_used emin emax pm" by (rule eph_used_frame) (simp add: pm1_def)
  have pm': "pm' = clearEphPortLocked emin emax (LocalPort c) pm1"
    using assms(2,3) by (simp add: RemoveConnection_def Let_def pm1_def)
  have "portInUse (LocalPort c) pm' = portInUse (LocalPort c) pm1"
    by (simp add: portInUse_def pm' clear_used [OF ok])
  moreover have "GetConnection i pm' = None"
    by (simp add: GetConnection_def pm' clear_used [OF ok]) (simp add: pm1_def delete_conv')
  ultimately show ?thesis by (simp add: pm' clear_used [OF ok] used)
qed

text \<open>
  When the sweeper takes a connection: CLOSED and CLOSE_WAIT at once, FIN_WAIT and
  TIME_WAIT after the TIME_WAIT period without activity, SYN_SENT after five seconds, and no
  other state ever. (The comment on \<^verbatim>\<open>StaleConnections\<close> lists FIN_WAIT among the states
  that are cleaned up at once.)
\<close>

theorem StaleConnections_iff:
  assumes "0 \<le> dur" and "dur < 2 ^ 62"
  shows "c \<in> set (StaleConnections now dur pm) \<longleftrightarrow> c \<in> set (all_conns pm) \<and>
    (State c \<in> {StateClosed, StateCloseWait} \<or>
     State c \<in> {StateFinWait, StateTimeWait} \<and> dur < now - LastActivity c \<or>
     State c = StateSynSent \<and> 5 * second < now - LastActivity c)"
  using assms
  by (cases "State c") (auto simp: StaleConnections_def is_stale_def SynSentReapDuration_def time_sub_greater)

end
