(* ===== verification/Beacon_Select.thy ===== *)
theory Beacon_Select
  imports Pilot_Prelude
begin

text \<open>
  The choice of the beacon: \<^verbatim>\<open>select.go\<close> and the pure part of \<^verbatim>\<open>discovery.go\<close> under
  \<^verbatim>\<open>src/pkg/daemon/routing\<close>. Addresses are strings of ASCII characters; the zero value of
  a Go string is the empty list. A round-trip table \<^verbatim>\<open>map[string]time.Duration\<close> is a map
  with finite domain. The filter on private addresses, the registry call and the cache file
  rest on the network and file libraries and are not modelled.
\<close>

section \<open>The list of beacons\<close>

text \<open>\<^verbatim>\<open>strings.Split(s, ",")\<close> and \<^verbatim>\<open>strings.TrimSpace\<close>.\<close>

fun split_on :: "char \<Rightarrow> string \<Rightarrow> string list" where
  "split_on sep [] = [[]]"
| "split_on sep (c # cs) =
    (if c = sep then [] # split_on sep cs
     else case split_on sep cs of [] \<Rightarrow> [[c]] | p # ps \<Rightarrow> (c # p) # ps)"

definition is_space :: "char \<Rightarrow> bool" where
  "is_space c \<longleftrightarrow> c \<in> {CHR 0x09, CHR 0x0A, CHR 0x0B, CHR 0x0C, CHR 0x0D, CHR '' ''}"

definition trim_space :: "string \<Rightarrow> string" where
  "trim_space s = rev (dropWhile is_space (rev (dropWhile is_space s)))"

definition ParseBeaconList :: "string \<Rightarrow> string list" where
  "ParseBeaconList s =
    (if s = [] then []
     else filter (\<lambda>p. p \<noteq> []) (map trim_space (split_on (CHR '','') s)))"

text \<open>\<^verbatim>\<open>hash/fnv.New32a\<close> over the bytes of the key.\<close>

definition fnv32a :: "bytes \<Rightarrow> u32" where
  "fnv32a key = foldl (\<lambda>h b. (h XOR ucast b) * 16777619) 2166136261 key"

definition PickBeacon :: "string list \<Rightarrow> bytes \<Rightarrow> string" where
  "PickBeacon list key =
    (if length list = 0 then []
     else if length list = 1 then list ! 0
     else list ! unat (fnv32a key mod of_nat (length list)))"

text \<open>The loop of \<^verbatim>\<open>PickBeaconWithRTT\<close> over the list; the pair is the best so far.\<close>

fun fastest :: "(string \<rightharpoonup> duration) \<Rightarrow> string list \<Rightarrow> string \<times> duration \<Rightarrow> string \<times> duration" where
  "fastest rttMap [] best = best"
| "fastest rttMap (addr # addrs) best =
    (case rttMap addr of None \<Rightarrow> fastest rttMap addrs best
     | Some rtt \<Rightarrow>
       if fst best = [] \<or> rtt < snd best then fastest rttMap addrs (addr, rtt)
       else fastest rttMap addrs best)"

definition PickBeaconWithRTT :: "string list \<Rightarrow> bytes \<Rightarrow> (string \<rightharpoonup> duration) \<Rightarrow> string" where
  "PickBeaconWithRTT list key rttMap =
    (if length list = 0 then []
     else if map_len rttMap = 0 then PickBeacon list key
     else
       let hashPick = PickBeacon list key;
           (bestAddr, bestRTT) = fastest rttMap list ([], 0) in
       if bestAddr = [] then hashPick
       else case rttMap hashPick of
           None \<Rightarrow> bestAddr
         | Some hashRTT \<Rightarrow> if hashRTT > 2 * bestRTT then bestAddr else hashPick)"

definition FirstBeacon :: "string \<Rightarrow> string" where
  "FirstBeacon s = (let list = ParseBeaconList s in if length list = 0 then [] else list ! 0)"

text \<open>One of the two loops of \<^verbatim>\<open>MergeBeaconLists\<close>: the state is the set seen and the output.\<close>

fun add_unseen :: "string list \<Rightarrow> string set \<times> string list \<Rightarrow> string set \<times> string list" where
  "add_unseen [] acc = acc"
| "add_unseen (a # as) (seen, out) =
    (if a = [] then add_unseen as (seen, out)
     else if a \<in> seen then add_unseen as (seen, out)
     else add_unseen as (insert a seen, out @ [a]))"

definition MergeBeaconLists :: "string list \<Rightarrow> string list \<Rightarrow> string list" where
  "MergeBeaconLists bootstrap discovered =
    (if length bootstrap = 0 \<and> length discovered = 0 then []
     else snd (add_unseen discovered (add_unseen bootstrap ({}, []))))"

section \<open>Refresh\<close>

record BeaconSelectionState =
  bootstrap :: "string list"
  currentList :: "string list"
  currentPick :: string

record RefreshDecision =
  NewList :: "string list"
  NewPick :: string
  ShouldSwap :: bool

definition NewBeaconSelectionState :: "string list \<Rightarrow> BeaconSelectionState" where
  "NewBeaconSelectionState boot = \<lparr> bootstrap = boot, currentList = [], currentPick = [] \<rparr>"

definition GetCurrentPick :: "BeaconSelectionState \<Rightarrow> string" where
  "GetCurrentPick s = currentPick s"

definition ComputeRefreshDecision :: "BeaconSelectionState \<Rightarrow> string list \<Rightarrow> bytes \<Rightarrow> RefreshDecision" where
  "ComputeRefreshDecision state discovered identityKey =
    (let previousPick = currentPick state;
         merged = MergeBeaconLists (bootstrap state) discovered in
     if length merged = 0 then \<lparr> NewList = [], NewPick = [], ShouldSwap = False \<rparr>
     else
       let newPick = PickBeacon merged identityKey;
           shouldSwap = (previousPick = [] \<or> newPick \<noteq> previousPick);
           shouldSwap' =
             (if \<not> shouldSwap then
                let stillPresent = list_ex (\<lambda>a. a = previousPick) merged in
                if \<not> stillPresent then True else shouldSwap
              else shouldSwap) in
       \<lparr> NewList = merged, NewPick = newPick, ShouldSwap = shouldSwap' \<rparr>)"

definition ApplyRefreshDecision :: "RefreshDecision \<Rightarrow> BeaconSelectionState \<Rightarrow> BeaconSelectionState" where
  "ApplyRefreshDecision d s =
    (let s1 = s\<lparr> currentList := NewList d \<rparr> in
     if ShouldSwap d \<and> NewPick d \<noteq> [] then s1\<lparr> currentPick := NewPick d \<rparr> else s1)"

section \<open>Parsing\<close>

fun join_with :: "char \<Rightarrow> string list \<Rightarrow> string" where
  "join_with sep [] = []"
| "join_with sep [p] = p"
| "join_with sep (p # ps) = p @ sep # join_with sep ps"

lemma split_on_nonempty: "split_on sep s \<noteq> []"
  by (induction s) (auto split: list.splits)

lemma split_on_prefix:
  assumes "sep \<notin> set p"
  shows "split_on sep (p @ sep # s) = p # split_on sep s"
  using assms by (induction p) (auto simp: split_on_nonempty)

lemma split_on_self: "sep \<notin> set p \<Longrightarrow> split_on sep p = [p]"
  by (induction p) auto

lemma split_on_join:
  "\<lbrakk> ps \<noteq> []; \<forall>p\<in>set ps. sep \<notin> set p \<rbrakk> \<Longrightarrow> split_on sep (join_with sep ps) = ps"
  by (induction sep ps rule: join_with.induct) (auto simp: split_on_self split_on_prefix)

definition beacon_entry :: "string \<Rightarrow> bool" where
  "beacon_entry p \<longleftrightarrow> p \<noteq> [] \<and> CHR '','' \<notin> set p \<and> \<not> is_space (hd p) \<and> \<not> is_space (last p)"

lemma dropWhile_hd: "\<lbrakk> xs \<noteq> []; \<not> P (hd xs) \<rbrakk> \<Longrightarrow> dropWhile P xs = xs"
  by (cases xs) auto

lemma trim_space_entry: "beacon_entry p \<Longrightarrow> trim_space p = p"
  by (simp add: trim_space_def beacon_entry_def dropWhile_hd hd_rev)

section \<open>Merging and picking\<close>

definition fresh_adds :: "string list \<Rightarrow> string set \<Rightarrow> string list" where
  "fresh_adds as seen = snd (add_unseen as (seen, []))"

lemma add_unseen_acc:
  "add_unseen as (seen, out) = (fst (add_unseen as (seen, [])), out @ snd (add_unseen as (seen, [])))"
proof (induction as arbitrary: seen out)
  case (Cons a as)
  from Cons.IH [of "insert a seen" "out @ [a]"] Cons.IH [of "insert a seen" "[a]"] Cons.IH [of seen out]
  show ?case by simp
qed simp

lemma add_unseen_props:
  assumes "set out = seen" and "distinct out" and "[] \<notin> seen" and "add_unseen as (seen, out) = (seen', out')"
  shows "set out' = seen' \<and> distinct out' \<and> seen' = seen \<union> (set as - {[]})"
  using assms
proof (induction as arbitrary: seen out)
  case (Cons a as)
  show ?case
  proof (cases "a = [] \<or> a \<in> seen")
    case True
    then have "add_unseen (a # as) (seen, out) = add_unseen as (seen, out)" by auto
    with Cons.IH [of out seen] Cons.prems True show ?thesis by auto
  next
    case False
    then have "add_unseen (a # as) (seen, out) = add_unseen as (insert a seen, out @ [a])" by auto
    with Cons.IH [of "out @ [a]" "insert a seen"] Cons.prems False show ?thesis by auto
  qed
qed auto

lemma MergeBeaconLists_props:
  "distinct (MergeBeaconLists bs ds)" "set (MergeBeaconLists bs ds) = (set bs \<union> set ds) - {[]}"
proof -
  obtain s1 o1 where a1: "add_unseen bs ({}, []) = (s1, o1)" by force
  obtain s2 o2 where a2: "add_unseen ds (s1, o1) = (s2, o2)" by force
  have p1: "set o1 = s1 \<and> distinct o1 \<and> s1 = {} \<union> (set bs - {[]})"
    using a1 by (intro add_unseen_props) auto
  have p2: "set o2 = s2 \<and> distinct o2 \<and> s2 = s1 \<union> (set ds - {[]})"
    using p1 a2 by (intro add_unseen_props) auto
  have "MergeBeaconLists bs ds = o2" using a1 a2 by (auto simp: MergeBeaconLists_def)
  with p1 p2 show "distinct (MergeBeaconLists bs ds)" "set (MergeBeaconLists bs ds) = (set bs \<union> set ds) - {[]}"
    by auto
qed

lemma MergeBeaconLists_bootstrap_first:
  "MergeBeaconLists bs ds = MergeBeaconLists bs [] @ fresh_adds ds (set bs - {[]})"
proof -
  obtain s1 o1 where a1: "add_unseen bs ({}, []) = (s1, o1)" by force
  have s1: "s1 = set bs - {[]}" using add_unseen_props [of "[]" "{}" bs s1 o1] a1 by auto
  show ?thesis
    using a1 add_unseen_acc [of ds s1 o1] by (auto simp: MergeBeaconLists_def fresh_adds_def s1)
qed

lemma pick_index:
  assumes "list \<noteq> []" and "length list < 2 ^ 32"
  shows "unat (fnv32a key mod of_nat (length list)) = unat (fnv32a key) mod length list"
    and "unat (fnv32a key mod of_nat (length list)) < length list"
proof -
  have "unat (of_nat (length list) :: u32) = length list"
    using assms(2) by (simp add: unat_of_nat take_bit_nat_eq_self)
  then show "unat (fnv32a key mod of_nat (length list)) = unat (fnv32a key) mod length list"
    by (simp add: unat_mod_distrib)
  then show "unat (fnv32a key mod of_nat (length list)) < length list"
    using assms(1) by simp
qed

lemma PickBeacon_mod:
  assumes "list \<noteq> []" and "length list < 2 ^ 32"
  shows "PickBeacon list key = list ! (unat (fnv32a key) mod length list)"
  using assms pick_index [OF assms] by (cases "length list = 1") (auto simp: PickBeacon_def)

lemma PickBeacon_in: "\<lbrakk> list \<noteq> []; length list < 2 ^ 32 \<rbrakk> \<Longrightarrow> PickBeacon list key \<in> set list"
  by (simp add: PickBeacon_mod)

definition lower_bound :: "(string \<rightharpoonup> duration) \<Rightarrow> string list \<Rightarrow> duration \<Rightarrow> bool" where
  "lower_bound rttMap addrs r \<longleftrightarrow> (\<forall>x\<in>set addrs. \<forall>rx. rttMap x = Some rx \<longrightarrow> r \<le> rx)"

lemma fastest_improves:
  assumes "b \<noteq> []" and "[] \<notin> set addrs" and "fastest rttMap addrs (b, rb) = (a, r)"
  shows "r \<le> rb \<and> lower_bound rttMap addrs r \<and> a \<noteq> [] \<and>
    ((a, r) = (b, rb) \<or> a \<in> set addrs \<and> rttMap a = Some r)"
  using assms
proof (induction addrs arbitrary: b rb)
  case (Cons y ys)
  show ?case
  proof (cases "\<exists>ry. rttMap y = Some ry \<and> ry < rb")
    case True
    then obtain ry where y: "rttMap y = Some ry" "ry < rb" by blast
    with Cons.IH [of y ry] Cons.prems show ?thesis by (auto simp: lower_bound_def)
  next
    case False
    with Cons.IH [of b rb] Cons.prems show ?thesis
      by (fastforce simp: lower_bound_def split: option.splits)
  qed
qed (simp add: lower_bound_def)

lemma fastest_finds:
  assumes "[] \<notin> set addrs" and "fastest rttMap addrs ([], r0) = (a, r)" and "x \<in> set addrs" and "rttMap x \<noteq> None"
  shows "lower_bound rttMap addrs r \<and> a \<noteq> [] \<and> a \<in> set addrs \<and> rttMap a = Some r"
  using assms
proof (induction addrs)
  case (Cons y ys)
  show ?case
  proof (cases "rttMap y")
    case None
    with Cons show ?thesis by (auto simp: lower_bound_def)
  next
    case (Some ry)
    with Cons.prems fastest_improves [of y ys rttMap ry a r] show ?thesis by (auto simp: lower_bound_def)
  qed
qed simp

section \<open>Properties\<close>

lemma ParseBeaconList_join:
  assumes "\<forall>p\<in>set ps. beacon_entry p"
  shows "ParseBeaconList (join_with (CHR '','') ps) = ps"
proof (cases "ps = []")
  case True
  then show ?thesis by (simp add: ParseBeaconList_def)
next
  case False
  have "join_with (CHR '','') ps \<noteq> []"
    using False assms by (cases "(CHR '','', ps)" rule: join_with.cases) (auto simp: beacon_entry_def)
  moreover have "split_on (CHR '','') (join_with (CHR '','') ps) = ps"
    using False assms by (intro split_on_join) (auto simp: beacon_entry_def)
  moreover have "map trim_space ps = ps" "filter (\<lambda>p. p \<noteq> []) ps = ps"
    using assms by (auto simp: trim_space_entry beacon_entry_def intro: map_idI filter_True)
  ultimately show ?thesis by (simp add: ParseBeaconList_def)
qed

lemma ComputeRefreshDecision_swap:
  assumes "length (bootstrap s) + length ds < 2 ^ 32"
  shows "ShouldSwap (ComputeRefreshDecision s ds key) \<longleftrightarrow>
    NewList (ComputeRefreshDecision s ds key) \<noteq> [] \<and>
    NewPick (ComputeRefreshDecision s ds key) \<noteq> currentPick s"
    (is "?swap \<longleftrightarrow> ?list \<noteq> [] \<and> ?pick \<noteq> _")
    and "NewList (ComputeRefreshDecision s ds key) \<noteq> [] \<Longrightarrow>
      NewPick (ComputeRefreshDecision s ds key) \<in> set (NewList (ComputeRefreshDecision s ds key))"
proof -
  let ?m = "MergeBeaconLists (bootstrap s) ds"
  have "length ?m = card (set ?m)" by (rule distinct_card [symmetric]) (rule MergeBeaconLists_props)
  also have "\<dots> \<le> card (set (bootstrap s @ ds))"
    by (intro card_mono) (auto simp: MergeBeaconLists_props)
  also have "\<dots> \<le> length (bootstrap s @ ds)" by (rule card_length)
  finally have "length ?m < 2 ^ 32" using assms by simp
  then have pick: "?m = [] \<or> PickBeacon ?m key \<in> set ?m" using PickBeacon_in by blast
  moreover have "[] \<notin> set ?m" by (simp add: MergeBeaconLists_props)
  ultimately show "?swap \<longleftrightarrow> ?list \<noteq> [] \<and> ?pick \<noteq> currentPick s"
    by (auto simp: ComputeRefreshDecision_def Let_def list_ex_iff)
  show "?list \<noteq> [] \<Longrightarrow> ?pick \<in> set ?list"
    using pick by (auto simp: ComputeRefreshDecision_def Let_def split: if_splits)
qed

text \<open>
  One refresh of the beacon choice. The merged list has no duplicates and no empty
  entry, holds exactly the configured and the discovered beacons and starts with the
  configured ones; the pick is one of its entries; the decision to swap is exactly that the
  pick changed; and once the decision is applied, the same discovery result never swaps again.
\<close>

theorem beacon_refresh_stable:
  assumes "length (bootstrap s) + length ds < 2 ^ 32"
    and "d = ComputeRefreshDecision s ds key"
  shows "distinct (NewList d) \<and> set (NewList d) = (set (bootstrap s) \<union> set ds) - {[]} \<and>
    (\<exists>rest. NewList d = MergeBeaconLists (bootstrap s) [] @ rest) \<and>
    (NewList d = [] \<or> NewPick d \<in> set (NewList d)) \<and>
    (ShouldSwap d \<longleftrightarrow> NewList d \<noteq> [] \<and> NewPick d \<noteq> currentPick s) \<and>
    \<not> ShouldSwap (ComputeRefreshDecision (ApplyRefreshDecision d s) ds key)"
proof -
  let ?m = "MergeBeaconLists (bootstrap s) ds"
  have list: "NewList d = ?m" by (simp add: assms(2) ComputeRefreshDecision_def Let_def)
  have pick: "?m \<noteq> [] \<Longrightarrow> NewPick d \<in> set ?m"
    using ComputeRefreshDecision_swap(2) [OF assms(1), of key] list assms(2) by simp
  have swap: "ShouldSwap d \<longleftrightarrow> ?m \<noteq> [] \<and> NewPick d \<noteq> currentPick s"
    using ComputeRefreshDecision_swap(1) [OF assms(1), of key] list assms(2) by simp
  let ?s = "ApplyRefreshDecision d s"
  have boot: "bootstrap ?s = bootstrap s" by (simp add: ApplyRefreshDecision_def Let_def)
  then have same: "NewList (ComputeRefreshDecision ?s ds key) = ?m"
      "NewPick (ComputeRefreshDecision ?s ds key) = NewPick d"
    by (simp_all add: assms(2) ComputeRefreshDecision_def Let_def)
  have "?m \<noteq> [] \<Longrightarrow> currentPick ?s = NewPick d"
    using pick swap by (auto simp: ApplyRefreshDecision_def MergeBeaconLists_props)
  then have "\<not> ShouldSwap (ComputeRefreshDecision ?s ds key)"
    using ComputeRefreshDecision_swap(1) [of ?s ds key] assms(1) boot same by auto
  moreover have "\<exists>rest. ?m = MergeBeaconLists (bootstrap s) [] @ rest"
    using MergeBeaconLists_bootstrap_first [of "bootstrap s" ds] by blast
  ultimately show ?thesis
    unfolding list swap using pick MergeBeaconLists_props by blast
qed

text \<open>
  Measured round trips bound the choice: when at least one beacon of the list answered
  its probe, the beacon chosen is one that answered, and its round trip is at most twice that
  of any beacon that did.
\<close>

theorem PickBeaconWithRTT_near_best:
  assumes "finite (dom rttMap)" and "\<forall>x\<in>set list. x \<noteq> [] \<and> (\<forall>r. rttMap x = Some r \<longrightarrow> 0 \<le> r)"
    and "length list < 2 ^ 32" and "x \<in> set list" and "rttMap x = Some rx"
  shows "\<exists>r. PickBeaconWithRTT list key rttMap \<in> set list \<and>
    rttMap (PickBeaconWithRTT list key rttMap) = Some r \<and> r \<le> 2 * rx"
proof -
  obtain a r where f: "fastest rttMap list ([], 0) = (a, r)" by force
  have best: "lower_bound rttMap list r" "a \<noteq> []" "a \<in> set list" "rttMap a = Some r"
    using fastest_finds [OF _ f assms(4)] assms(2,5) by auto
  have "map_len rttMap \<noteq> 0" using assms(1,5) by (auto simp: map_len_def)
  moreover have "list \<noteq> []" using assms(4) by auto
  ultimately have pick: "PickBeaconWithRTT list key rttMap =
      (case rttMap (PickBeacon list key) of None \<Rightarrow> a
       | Some h \<Rightarrow> if h > 2 * r then a else PickBeacon list key)"
    using best(2) by (simp add: PickBeaconWithRTT_def f Let_def)
  have "r \<le> rx" "0 \<le> r" using best(1,3,4) assms(2,4,5) by (auto simp: lower_bound_def)
  with pick best(3,4) PickBeacon_in [OF \<open>list \<noteq> []\<close> assms(3), of key] show ?thesis
    by (auto split: option.splits)
qed

text \<open>
  The comment on \<^verbatim>\<open>ComputeRefreshDecision\<close> says that a beacon added at the end only attracts
  the daemons whose hash now points at it. With three beacons and a fourth added, a daemon
  whose key is the byte 5 moves from the third beacon to the first, not to the new one.
\<close>

lemma added_beacon_moves_others:
  "PickBeacon [''a'', ''b'', ''c''] [5] = ''c'' \<and> PickBeacon [''a'', ''b'', ''c'', ''d''] [5] = ''a''"
  by (simp add: PickBeacon_def fnv32a_def)

end
