(* ===== verification/Replay_Window.thy ===== *)
theory Replay_Window
  imports Pilot_Prelude
begin

text \<open>
  The per-peer crypto state of \<^verbatim>\<open>src/pkg/daemon/keyexchange/crypto.go\<close> and its replay
  window: a 256-bit ring bitmap below the highest counter received. The window is proved to
  refine an abstract filter that remembers every counter ever accepted, through the
  interface \<open>replay_filter\<close> the envelope layer relies on.

  The mutexes of the struct are left out: each operation is one critical section. The
  \<^verbatim>\<open>cipher.AEAD\<close> value is represented by its key.
\<close>

section \<open>State\<close>

type_synonym aead_key = bytes

definition ReplayWindowSize :: nat where "ReplayWindowSize = 256"
definition SalvageMaxEntries :: nat where "SalvageMaxEntries = 4"
definition SalvageMaxAge :: duration where "SalvageMaxAge = 5 * second"
definition DecryptFailDropThreshold :: int where "DecryptFailDropThreshold = 5"
definition OutsideWindowDropThreshold :: int where "OutsideWindowDropThreshold = 5"
definition OutsideWindowDropGrace :: duration where "OutsideWindowDropGrace = 1 * second"
definition ReplayDropThreshold :: int where "ReplayDropThreshold = 5"
definition ReplayDropGrace :: duration where "ReplayDropGrace = 1 * second"
definition AgedCryptoFastDropAge :: duration where "AgedCryptoFastDropAge = 1 * minute"
definition DecryptFailDropGrace :: duration where "DecryptFailDropGrace = 3 * second"

lemmas crypto_const_defs =
  ReplayWindowSize_def SalvageMaxEntries_def SalvageMaxAge_def DecryptFailDropThreshold_def
  OutsideWindowDropThreshold_def OutsideWindowDropGrace_def ReplayDropThreshold_def
  ReplayDropGrace_def AgedCryptoFastDropAge_def DecryptFailDropGrace_def

record SalvageEntry =
  Plaintext :: bytes
  When :: instant

record Crypto =
  AEAD :: aead_key
  Nonce :: u64
  NoncePrefix :: bytes
  MaxRecvNonce :: u64
  ReplayBitmap :: "u64 list"
  Ready :: bool
  Authenticated :: bool
  PeerX25519Key :: bytes
  DecryptFailCount :: int
  OutsideWindowCount :: int
  ReplayCount :: int
  CreatedAt :: instant
  Salvage :: "SalvageEntry list"

section \<open>Operations\<close>

definition replay_bit :: "u64 \<Rightarrow> nat" where
  "replay_bit counter = unat (counter mod of_nat ReplayWindowSize)"

definition SetReplayBit :: "u64 \<Rightarrow> Crypto \<Rightarrow> Crypto" where
  "SetReplayBit counter c = c\<lparr> ReplayBitmap := bm_set (ReplayBitmap c) (replay_bit counter) \<rparr>"

definition UndoReplayBit :: "u64 \<Rightarrow> Crypto \<Rightarrow> Crypto" where
  "UndoReplayBit counter c = c\<lparr> ReplayBitmap := bm_clear (ReplayBitmap c) (replay_bit counter) \<rparr>"

definition clear_positions :: "u64 \<Rightarrow> nat \<Rightarrow> u64 list \<Rightarrow> u64 list" where
  "clear_positions counter shift bm =
    fold (\<lambda>s bm. bm_clear bm (replay_bit (counter - of_nat s))) [0..<shift] bm"

definition CheckAndRecordNonce :: "u64 \<Rightarrow> Crypto \<Rightarrow> bool \<times> Crypto" where
  "CheckAndRecordNonce counter c =
    (if MaxRecvNonce c = 0 then
       (True, SetReplayBit counter (c\<lparr> MaxRecvNonce := counter \<rparr>))
     else if counter > MaxRecvNonce c then
       let shift = counter - MaxRecvNonce c;
           bm = (if shift \<ge> of_nat ReplayWindowSize
                 then replicate (ReplayWindowSize div 64) 0
                 else clear_positions counter (unat shift) (ReplayBitmap c))
       in (True, SetReplayBit counter (c\<lparr> ReplayBitmap := bm, MaxRecvNonce := counter \<rparr>))
     else if MaxRecvNonce c - counter \<ge> of_nat ReplayWindowSize then (False, c)
     else if bm_test (ReplayBitmap c) (replay_bit counter) then (False, c)
     else (True, SetReplayBit counter c))"

definition WouldAcceptNonce :: "u64 \<Rightarrow> Crypto \<Rightarrow> bool" where
  "WouldAcceptNonce counter c =
    (if MaxRecvNonce c = 0 then True
     else if counter > MaxRecvNonce c then True
     else if MaxRecvNonce c - counter \<ge> of_nat ReplayWindowSize then False
     else if bm_test (ReplayBitmap c) (replay_bit counter) then False
     else True)"

section \<open>What a replay filter promises\<close>

text \<open>
  A filter of items (counters, or frames that carry one) over a state \<open>'s\<close>, with an
  abstraction relation to the set of keys accepted so far: an item whose key is in the set
  is refused, and after a call the set has grown by the key of the item exactly when the item
  was accepted. \<open>valid\<close> restricts the items that may be presented.
\<close>

locale replay_filter =
  fixes check :: "'f \<Rightarrow> 's \<Rightarrow> bool \<times> 's"
    and key :: "'f \<Rightarrow> 'n"
    and rel :: "'s \<Rightarrow> 'n set \<Rightarrow> bool"
    and valid :: "'f \<Rightarrow> bool"
  assumes refuse_seen: "\<lbrakk> rel s S; key f \<in> S; valid f \<rbrakk> \<Longrightarrow> \<not> fst (check f s)"
    and accept_rel: "\<lbrakk> rel s S; valid f; fst (check f s) \<rbrakk> \<Longrightarrow> rel (snd (check f s)) (insert (key f) S)"
    and refuse_rel: "\<lbrakk> rel s S; valid f; \<not> fst (check f s) \<rbrakk> \<Longrightarrow> rel (snd (check f s)) S"
begin

fun accepted :: "'f list \<Rightarrow> 's \<Rightarrow> 'n list" where
  "accepted [] s = []"
| "accepted (f # fs) s = (case check f s of (ok, s') \<Rightarrow> (if ok then [key f] else []) @ accepted fs s')"

lemma accepted_fresh:
  "\<lbrakk> rel s S; \<forall>f\<in>set fs. valid f \<rbrakk> \<Longrightarrow>
    distinct (accepted fs s) \<and> set (accepted fs s) \<inter> S = {}"
proof (induction fs arbitrary: s S)
  case (Cons f fs)
  obtain ok s' where chk: "check f s = (ok, s')" by force
  show ?case
  proof (cases ok)
    case True
    with chk Cons.prems have "rel s' (insert (key f) S)" using accept_rel [of s S f] by simp
    then have "distinct (accepted fs s') \<and> set (accepted fs s') \<inter> insert (key f) S = {}"
      using Cons by auto
    moreover have "key f \<notin> S" using refuse_seen [of s S f] chk True Cons.prems by auto
    ultimately show ?thesis using True chk by auto
  next
    case False
    with chk Cons.prems have "rel s' S" using refuse_rel [of s S f] by simp
    then show ?thesis using Cons False chk by auto
  qed
qed simp

end

section \<open>The window as an abstract filter\<close>

text \<open>
  The specification keeps the highest counter and the set of all accepted counters. It
  refuses a counter that was accepted before or lies a full window below the highest.
\<close>

definition spec_check :: "nat \<Rightarrow> nat \<times> nat set \<Rightarrow> bool \<times> nat \<times> nat set" where
  "spec_check n st =
    (case st of (hi, seen) \<Rightarrow>
      if n \<notin> seen \<and> hi < n + ReplayWindowSize then (True, max hi n, insert n seen)
      else (False, hi, seen))"

definition window_rel :: "Crypto \<Rightarrow> nat \<times> nat set \<Rightarrow> bool" where
  "window_rel c st \<longleftrightarrow>
    (case st of (hi, seen) \<Rightarrow>
      unat (MaxRecvNonce c) = hi \<and> length (ReplayBitmap c) = 4 \<and>
      (\<forall>n\<in>seen. 0 < n \<and> n \<le> hi) \<and>
      (hi = 0 \<longrightarrow> (\<forall>i<256. \<not> bm_test (ReplayBitmap c) i)) \<and>
      (0 < hi \<longrightarrow> (\<forall>n. n \<le> hi \<and> hi < n + 256 \<longrightarrow>
        (bm_test (ReplayBitmap c) (n mod 256) \<longleftrightarrow> n \<in> seen))))"

lemma replay_bit_unat: "replay_bit counter = unat counter mod 256"
  by (simp add: replay_bit_def ReplayWindowSize_def unat_mod)

lemma replay_bit_less [simp]: "replay_bit counter < 256"
  by (simp add: replay_bit_unat)

lemma length_clear_positions [simp]: "length (clear_positions n k bm) = length bm"
  by (induction k) (simp_all add: clear_positions_def)

lemma bm_test_clear_positions:
  assumes "length bm = 4" and "k \<le> unat n"
  shows "bm_test (clear_positions n k bm) j \<longleftrightarrow>
    bm_test bm j \<and> (\<forall>s<k. (unat n - s) mod 256 \<noteq> j)"
  using assms(2)
proof (induction k)
  case 0
  then show ?case by (simp add: clear_positions_def)
next
  case (Suc k)
  have "unat n < 2 ^ 64" using unsigned_less [of n] by simp
  then have "unat (of_nat k :: u64) = k"
    using Suc.prems by (simp add: unat_of_nat take_bit_nat_eq_self)
  then have "unat (n - of_nat k) = unat n - k"
    using Suc.prems by (simp add: unat_sub word_le_nat_alt)
  then have bit: "replay_bit (n - of_nat k) = (unat n - k) mod 256"
    by (simp add: replay_bit_unat)
  have "clear_positions n (Suc k) bm
      = bm_clear (clear_positions n k bm) ((unat n - k) mod 256)"
    using bit by (simp add: clear_positions_def)
  moreover have "(unat n - k) mod 256 < 64 * length (clear_positions n k bm)"
    using assms(1) by simp
  ultimately show ?case
    using Suc by (auto simp: bm_test_clear less_Suc_eq)
qed

lemma window_relI:
  assumes "unat (MaxRecvNonce c) = hi" "length (ReplayBitmap c) = 4"
    and "\<And>n. n \<in> seen \<Longrightarrow> 0 < n \<and> n \<le> hi" and "0 < hi"
    and "\<And>n. \<lbrakk> n \<le> hi; hi < n + 256 \<rbrakk> \<Longrightarrow> bm_test (ReplayBitmap c) (n mod 256) \<longleftrightarrow> n \<in> seen"
  shows "window_rel c (hi, seen)"
  using assms by (auto simp: window_rel_def)

lemma window_relD:
  assumes "window_rel c (hi, seen)"
  shows "unat (MaxRecvNonce c) = hi" "length (ReplayBitmap c) = 4"
    "n \<in> seen \<Longrightarrow> 0 < n" "n \<in> seen \<Longrightarrow> n \<le> hi"
    "\<lbrakk> hi = 0; i < 256 \<rbrakk> \<Longrightarrow> \<not> bm_test (ReplayBitmap c) i"
    "\<lbrakk> 0 < hi; n \<le> hi; hi < n + 256 \<rbrakk> \<Longrightarrow> bm_test (ReplayBitmap c) (n mod 256) \<longleftrightarrow> n \<in> seen"
  using assms by (auto simp: window_rel_def)

lemma window_rel_fresh:
  assumes "MaxRecvNonce c = 0" "ReplayBitmap c = replicate 4 0"
  shows "window_rel c (0, {})"
  using assms by (auto simp: window_rel_def bm_test_zero)

text \<open>The three ways a counter is recorded.\<close>

lemma record_first:
  assumes "window_rel c (0, seen)" and "counter \<noteq> 0"
  shows "window_rel (SetReplayBit counter (c\<lparr> MaxRecvNonce := counter \<rparr>))
    (unat counter, insert (unat counter) seen)"
proof (rule window_relI)
  note D = window_relD [OF assms(1)]
  have empty: "seen = {}" using D(3,4) by fastforce
  show "0 < unat counter" using assms(2) by (simp add: unat_gt_0)
  fix n assume "n \<le> unat counter" "unat counter < n + 256"
  then show "bm_test (ReplayBitmap (SetReplayBit counter (c\<lparr> MaxRecvNonce := counter \<rparr>))) (n mod 256)
      \<longleftrightarrow> n \<in> insert (unat counter) seen"
    using D(2) D(5) [of "n mod 256"] mod_window_inj [of n 256 "unat counter"] empty
    by (auto simp: SetReplayBit_def bm_test_set replay_bit_unat)
qed (use window_relD(2-4) [OF assms(1)] assms(2) in
    \<open>auto simp: SetReplayBit_def unat_gt_0 dest: less_le_trans\<close>)

lemma record_inside:
  assumes rel: "window_rel c (hi, seen)" and "0 < hi"
    and le: "unat counter \<le> hi" "hi < unat counter + 256" and "counter \<noteq> 0"
  shows "window_rel (SetReplayBit counter c) (hi, insert (unat counter) seen)"
proof (rule window_relI)
  note D = window_relD [OF rel]
  fix n assume n: "n \<le> hi" "hi < n + 256"
  have "n mod 256 = unat counter mod 256 \<longleftrightarrow> n = unat counter"
    using mod_window_inj [of n 256 "unat counter"] mod_window_inj [of "unat counter" 256 n] n le
    by (cases "n \<le> unat counter") auto
  then show "bm_test (ReplayBitmap (SetReplayBit counter c)) (n mod 256)
      \<longleftrightarrow> n \<in> insert (unat counter) seen"
    using D(2) D(6) [OF \<open>0 < hi\<close> n] by (auto simp: SetReplayBit_def bm_test_set replay_bit_unat)
qed (use assms window_relD(1-4) [OF rel] in \<open>auto simp: SetReplayBit_def unat_gt_0\<close>)

lemma record_advance:
  assumes rel: "window_rel c (hi, seen)" and "0 < hi" and gt: "hi < unat counter"
    and bm: "length bm = 4"
      "\<And>n. \<lbrakk> n < unat counter; unat counter < n + 256 \<rbrakk> \<Longrightarrow>
        bm_test bm (n mod 256) \<longleftrightarrow> n \<le> hi \<and> bm_test (ReplayBitmap c) (n mod 256)"
  shows "window_rel (SetReplayBit counter (c\<lparr> ReplayBitmap := bm, MaxRecvNonce := counter \<rparr>))
    (unat counter, insert (unat counter) seen)"
proof (rule window_relI)
  note D = window_relD [OF rel]
  show "0 < unat counter" using gt by simp
  fix n assume n: "n \<le> unat counter" "unat counter < n + 256"
  have same: "unat counter mod 256 = n mod 256 \<longleftrightarrow> n = unat counter"
    using mod_window_inj [of n 256 "unat counter"] n by auto
  have "bm_test bm (n mod 256) \<longleftrightarrow> n \<in> seen" if "n < unat counter"
  proof (cases "n \<le> hi")
    case True
    then show ?thesis using bm(2) [OF that n(2)] D(6) [OF \<open>0 < hi\<close> True] n gt by simp
  next
    case False
    then show ?thesis using bm(2) [OF that n(2)] D(4) [of n] by auto
  qed
  then show "bm_test (ReplayBitmap (SetReplayBit counter
        (c\<lparr> ReplayBitmap := bm, MaxRecvNonce := counter \<rparr>))) (n mod 256)
      \<longleftrightarrow> n \<in> insert (unat counter) seen"
    using bm(1) same n(1) by (auto simp: SetReplayBit_def bm_test_set replay_bit_unat)
qed (use bm(1) gt window_relD(3,4) [OF rel] in
    \<open>auto simp: SetReplayBit_def dest: less_imp_le intro: order_trans less_trans\<close>)

lemma advance_clears:
  assumes len: "length bm = 4" and gt: "hi < unat counter"
    and n: "n < unat counter" "unat counter < n + 256"
  shows "bm_test (clear_positions counter (unat counter - hi) bm) (n mod 256)
    \<longleftrightarrow> n \<le> hi \<and> bm_test bm (n mod 256)"
proof -
  have "(\<exists>s<unat counter - hi. (unat counter - s) mod 256 = n mod 256) \<longleftrightarrow> hi < n"
  proof
    assume "\<exists>s<unat counter - hi. (unat counter - s) mod 256 = n mod 256"
    then obtain s where s: "s < unat counter - hi" "(unat counter - s) mod 256 = n mod 256" by blast
    show "hi < n"
    proof (rule ccontr)
      assume "\<not> hi < n"
      with s n have "n \<le> unat counter - s" "unat counter - s < n + 256" by auto
      with s mod_window_inj [of n 256 "unat counter - s"] \<open>\<not> hi < n\<close> show False by auto
    qed
  next
    assume "hi < n"
    with n show "\<exists>s<unat counter - hi. (unat counter - s) mod 256 = n mod 256"
      by (intro exI [of _ "unat counter - n"]) auto
  qed
  then show ?thesis
    using bm_test_clear_positions [OF len, of "unat counter - hi" counter "n mod 256"] by auto
qed

section \<open>Refinement\<close>

lemma WouldAcceptNonce_verdict: "fst (CheckAndRecordNonce counter c) = WouldAcceptNonce counter c"
  by (simp add: CheckAndRecordNonce_def WouldAcceptNonce_def Let_def)

lemma refused_unchanged: "\<not> WouldAcceptNonce counter c \<Longrightarrow> snd (CheckAndRecordNonce counter c) = c"
  by (simp add: CheckAndRecordNonce_def WouldAcceptNonce_def Let_def split: if_splits)

lemma too_old_unat:
  "counter \<le> m \<Longrightarrow> of_nat ReplayWindowSize \<le> m - counter \<longleftrightarrow> unat counter + 256 \<le> unat m"
  for counter m :: u64
  by (auto simp: ReplayWindowSize_def word_le_nat_alt unat_sub)

lemma WouldAcceptNonce_spec:
  assumes rel: "window_rel c (hi, seen)" and "counter \<noteq> 0"
  shows "WouldAcceptNonce counter c \<longleftrightarrow> unat counter \<notin> seen \<and> hi < unat counter + 256"
proof -
  note D = window_relD [OF rel]
  have zero: "MaxRecvNonce c = 0 \<longleftrightarrow> hi = 0" using D(1) by (metis unat_eq_zero)
  have gt: "MaxRecvNonce c < counter \<longleftrightarrow> hi < unat counter"
    using D(1) by (simp add: word_less_nat_alt)
  have pos: "0 < unat counter" using \<open>counter \<noteq> 0\<close> by (simp add: unat_gt_0)
  show ?thesis
  proof (cases "hi < unat counter")
    case True
    then show ?thesis using gt D(4) [of "unat counter"] by (auto simp: WouldAcceptNonce_def)
  next
    case False
    then have "counter \<le> MaxRecvNonce c" "0 < hi" using D(1) pos by (simp_all add: word_le_nat_alt)
    then show ?thesis
      using False zero gt D(1) D(6) [of "unat counter"]
      by (simp add: WouldAcceptNonce_def too_old_unat replay_bit_unat)
  qed
qed

lemma accept_window_rel:
  assumes rel: "window_rel c (hi, seen)" and nz: "counter \<noteq> 0" and ok: "WouldAcceptNonce counter c"
  shows "window_rel (snd (CheckAndRecordNonce counter c))
    (max hi (unat counter), insert (unat counter) seen)"
proof -
  note D = window_relD [OF rel]
  have zero: "MaxRecvNonce c = 0 \<longleftrightarrow> hi = 0" using D(1) by (metis unat_eq_zero)
  have gt: "MaxRecvNonce c < counter \<longleftrightarrow> hi < unat counter"
    using D(1) by (simp add: word_less_nat_alt)
  consider (first) "hi = 0" | (advance) "0 < hi" "hi < unat counter"
    | (inside) "0 < hi" "\<not> hi < unat counter" by auto
  then show ?thesis
  proof cases
    case first
    then show ?thesis using record_first [of c seen counter] rel nz zero
      by (simp add: CheckAndRecordNonce_def max_def)
  next
    case advance
    define shift where "shift = counter - MaxRecvNonce c"
    define bm where "bm = (if shift \<ge> of_nat ReplayWindowSize then replicate (ReplayWindowSize div 64) 0
      else clear_positions counter (unat shift) (ReplayBitmap c))"
    have shift: "unat shift = unat counter - hi"
      using advance gt D(1) by (simp add: shift_def unat_sub word_le_nat_alt)
    have "snd (CheckAndRecordNonce counter c)
        = SetReplayBit counter (c\<lparr> ReplayBitmap := bm, MaxRecvNonce := counter \<rparr>)"
      using advance zero gt by (simp add: CheckAndRecordNonce_def bm_def shift_def Let_def)
    moreover have "window_rel (SetReplayBit counter (c\<lparr> ReplayBitmap := bm, MaxRecvNonce := counter \<rparr>))
        (unat counter, insert (unat counter) seen)"
    proof (rule record_advance [OF rel advance])
      show "length bm = 4" using D(2) by (simp add: bm_def ReplayWindowSize_def)
      fix n assume n: "n < unat counter" "unat counter < n + 256"
      show "bm_test bm (n mod 256) \<longleftrightarrow> n \<le> hi \<and> bm_test (ReplayBitmap c) (n mod 256)"
      proof (cases "shift \<ge> of_nat ReplayWindowSize")
        case True
        then have "256 \<le> unat counter - hi"
          using shift by (simp add: word_le_nat_alt ReplayWindowSize_def)
        then have "\<not> n \<le> hi" using n by linarith
        moreover have "\<not> bm_test bm (n mod 256)"
          using True bm_test_zero [of "n mod 256" 4] by (simp add: bm_def ReplayWindowSize_def)
        ultimately show ?thesis by simp
      next
        case False
        then show ?thesis
          using advance_clears [OF D(2) advance(2) n] shift by (simp add: bm_def)
      qed
    qed
    ultimately show ?thesis using advance by (simp add: max_def)
  next
    case inside
    with ok WouldAcceptNonce_spec [OF rel nz] have "hi < unat counter + 256" by simp
    moreover have "snd (CheckAndRecordNonce counter c) = SetReplayBit counter c"
      using ok inside zero gt by (auto simp: CheckAndRecordNonce_def WouldAcceptNonce_def split: if_splits)
    ultimately show ?thesis
      using record_inside [OF rel inside(1)] inside nz by (simp add: max_def)
  qed
qed

lemma CheckAndRecordNonce_refines:
  assumes "window_rel c st" and "counter \<noteq> 0"
  shows "fst (CheckAndRecordNonce counter c) = fst (spec_check (unat counter) st)"
    and "window_rel (snd (CheckAndRecordNonce counter c)) (snd (spec_check (unat counter) st))"
proof -
  obtain hi seen where st: "st = (hi, seen)" by force
  note V = WouldAcceptNonce_spec [OF assms(1) [unfolded st] assms(2)]
  show "fst (CheckAndRecordNonce counter c) = fst (spec_check (unat counter) st)"
    using V by (auto simp: WouldAcceptNonce_verdict spec_check_def st ReplayWindowSize_def)
  show "window_rel (snd (CheckAndRecordNonce counter c)) (snd (spec_check (unat counter) st))"
    using V accept_window_rel [OF assms(1) [unfolded st] assms(2)] assms(1)
      refused_unchanged [of counter c]
    by (auto simp: spec_check_def st ReplayWindowSize_def)
qed

text \<open>
  Whatever counter is presented, zero included, a refused counter stays refused, and a counter
  other than zero is refused once it was recorded.
\<close>

lemma refused_stable:
  assumes len: "length (ReplayBitmap c) = 4" and ref: "\<not> WouldAcceptNonce n c"
  shows "\<not> WouldAcceptNonce n (snd (CheckAndRecordNonce k c))"
proof (cases "WouldAcceptNonce k c \<and> k > MaxRecvNonce c")
  case False
  have "bm_test (ReplayBitmap c) i \<Longrightarrow> bm_test (ReplayBitmap (SetReplayBit k c)) i" for i
    using len by (simp add: SetReplayBit_def bm_test_set replay_bit_unat)
  moreover have "snd (CheckAndRecordNonce k c) \<in> {c, SetReplayBit k c}"
    using False ref by (auto simp: CheckAndRecordNonce_def WouldAcceptNonce_def split: if_splits)
  ultimately show ?thesis
    using ref by (auto simp: WouldAcceptNonce_def SetReplayBit_def split: if_splits)
next
  case True
  from ref have M: "MaxRecvNonce c \<noteq> 0" "n \<le> MaxRecvNonce c" by (auto simp: WouldAcceptNonce_def split: if_splits)
  define bm where "bm = (if k - MaxRecvNonce c \<ge> of_nat ReplayWindowSize then replicate (ReplayWindowSize div 64) 0
      else clear_positions k (unat (k - MaxRecvNonce c)) (ReplayBitmap c))"
  have new: "snd (CheckAndRecordNonce k c) = SetReplayBit k (c\<lparr> ReplayBitmap := bm, MaxRecvNonce := k \<rparr>)"
    using True M by (simp add: CheckAndRecordNonce_def bm_def Let_def)
  have lt: "unat (MaxRecvNonce c) < unat k" "unat n \<le> unat (MaxRecvNonce c)"
    using True M by (simp_all add: word_less_nat_alt word_le_nat_alt)
  have "n \<le> k" using lt by (simp add: word_le_nat_alt)
  show ?thesis
  proof (cases "unat n + 256 \<le> unat k")
    case True
    then show ?thesis
      using lt too_old_unat [OF \<open>n \<le> k\<close>] by (auto simp: new WouldAcceptNonce_def SetReplayBit_def word_less_nat_alt)
  next
    case False
    then have "\<not> k - MaxRecvNonce c \<ge> of_nat ReplayWindowSize"
      using lt too_old_unat [of "MaxRecvNonce c" k] by (simp add: word_le_nat_alt)
    moreover have "unat (k - MaxRecvNonce c) = unat k - unat (MaxRecvNonce c)"
      using lt by (simp add: unat_sub word_le_nat_alt)
    moreover have "bm_test (ReplayBitmap c) (replay_bit n)"
      using ref M False lt too_old_unat [OF M(2)] by (auto simp: WouldAcceptNonce_def split: if_splits)
    ultimately have "bm_test bm (replay_bit n)"
      using advance_clears [OF len, of "unat (MaxRecvNonce c)" k "unat n"] lt False
      by (simp add: bm_def replay_bit_unat)
    moreover have "length bm = 4" using len by (simp add: bm_def ReplayWindowSize_def)
    ultimately have "bm_test (bm_set bm (replay_bit k)) (replay_bit n)" by (simp add: bm_test_set replay_bit_unat)
    then show ?thesis
      using lt False \<open>n \<le> k\<close> by (auto simp: new WouldAcceptNonce_def SetReplayBit_def word_less_nat_alt)
  qed
qed

lemma CheckAndRecordNonce_length:
  assumes "length (ReplayBitmap c) = 4"
  shows "length (ReplayBitmap (snd (CheckAndRecordNonce k c))) = 4"
  using assms by (auto simp: CheckAndRecordNonce_def SetReplayBit_def Let_def ReplayWindowSize_def)

lemma recorded_refused:
  assumes "length (ReplayBitmap c) = 4" and "n \<noteq> 0"
  shows "\<not> WouldAcceptNonce n (snd (CheckAndRecordNonce n c))"
proof (cases "WouldAcceptNonce n c")
  case True
  obtain c' where c': "snd (CheckAndRecordNonce n c) = SetReplayBit n c'" "length (ReplayBitmap c') = 4"
    using True assms(1)
    by (auto simp: CheckAndRecordNonce_def WouldAcceptNonce_def ReplayWindowSize_def Let_def split: if_splits)
  moreover have "n \<le> MaxRecvNonce (snd (CheckAndRecordNonce n c))"
    using True by (auto simp: CheckAndRecordNonce_def SetReplayBit_def WouldAcceptNonce_def Let_def split: if_splits)
  moreover from this have "MaxRecvNonce (snd (CheckAndRecordNonce n c)) \<noteq> 0"
    using assms(2) by (metis word_le_0_iff)
  ultimately show ?thesis
    by (auto simp: WouldAcceptNonce_def SetReplayBit_def bm_test_set replay_bit_unat)
qed (simp add: refused_unchanged)

text \<open>The window is a replay filter over the non-zero counters.\<close>

definition seen_rel :: "Crypto \<Rightarrow> u64 set \<Rightarrow> bool" where
  "seen_rel c S \<longleftrightarrow> (\<exists>hi. window_rel c (hi, unat ` S))"

interpretation nonce_filter: replay_filter CheckAndRecordNonce "\<lambda>n. n" seen_rel "\<lambda>n. n \<noteq> 0"
proof
  fix c S and n :: u64
  assume rel: "seen_rel c S" and nz: "n \<noteq> 0"
  then obtain hi where hi: "window_rel c (hi, unat ` S)" by (auto simp: seen_rel_def)
  note V = WouldAcceptNonce_spec [OF hi nz] WouldAcceptNonce_verdict [of n c]
  { assume "n \<in> S" then show "\<not> fst (CheckAndRecordNonce n c)" using V by auto }
  { assume "fst (CheckAndRecordNonce n c)"
    then show "seen_rel (snd (CheckAndRecordNonce n c)) (insert n S)"
      using accept_window_rel [OF hi nz] V by (auto simp: seen_rel_def) }
  { assume "\<not> fst (CheckAndRecordNonce n c)"
    then show "seen_rel (snd (CheckAndRecordNonce n c)) S"
      using refused_unchanged [of n c] V rel by simp }
qed

section \<open>Runs of the window\<close>

fun check_run :: "u64 list \<Rightarrow> Crypto \<Rightarrow> bool list \<times> Crypto" where
  "check_run [] c = ([], c)"
| "check_run (n # ns) c =
    (case CheckAndRecordNonce n c of (ok, c1) \<Rightarrow>
      case check_run ns c1 of (oks, c2) \<Rightarrow> (ok # oks, c2))"

fun spec_run :: "nat list \<Rightarrow> nat \<times> nat set \<Rightarrow> bool list" where
  "spec_run [] st = []"
| "spec_run (n # ns) st = (case spec_check n st of (ok, st1) \<Rightarrow> ok # spec_run ns st1)"

fun accepted_counters :: "u64 list \<Rightarrow> Crypto \<Rightarrow> u64 list" where
  "accepted_counters [] c = []"
| "accepted_counters (n # ns) c =
    (case CheckAndRecordNonce n c of (ok, c1) \<Rightarrow> (if ok then [n] else []) @ accepted_counters ns c1)"

definition fresh_window :: "Crypto \<Rightarrow> bool" where
  "fresh_window c \<longleftrightarrow> MaxRecvNonce c = 0 \<and> ReplayBitmap c = replicate 4 0"

lemma fresh_window_rel: "fresh_window c \<Longrightarrow> window_rel c (0, {})"
  by (simp add: fresh_window_def window_rel_fresh)

lemma check_run_refines:
  "\<lbrakk> window_rel c st; 0 \<notin> set ns \<rbrakk> \<Longrightarrow> fst (check_run ns c) = spec_run (map unat ns) st"
proof (induction ns arbitrary: c st)
  case (Cons n ns)
  then show ?case
    using CheckAndRecordNonce_refines [of c st n] by (auto simp: split_beta)
qed simp

lemma accepted_counters_filter: "accepted_counters ns c = nonce_filter.accepted ns c"
  by (induction ns arbitrary: c) (simp_all split: prod.splits)

lemma spec_check_verdict:
  "fst (spec_check n (hi, seen)) \<longleftrightarrow> n \<notin> seen \<and> hi < n + ReplayWindowSize"
  by (simp add: spec_check_def)

text \<open>A concrete crypto state, used to instantiate the properties.\<close>

definition sample_crypto :: Crypto where
  "sample_crypto = \<lparr> AEAD = [1], Nonce = 0, NoncePrefix = [9, 9, 9, 9], MaxRecvNonce = 0,
    ReplayBitmap = [0, 0, 0, 0], Ready = True, Authenticated = True, PeerX25519Key = [7],
    DecryptFailCount = 0, OutsideWindowCount = 0, ReplayCount = 0, CreatedAt = 1, Salvage = [] \<rparr>"

lemma sample_fresh: "fresh_window sample_crypto"
  by (simp add: fresh_window_def sample_crypto_def numeral_eq_Suc)

section \<open>Properties\<close>

text \<open>
  (C11) On every sequence of non-zero counters presented to a new key, the ring bitmap of
  \<^verbatim>\<open>CheckAndRecordNonce\<close> gives exactly the verdicts of the specification that remembers
  every accepted counter: a counter is accepted if and only if it was not accepted before
  and is less than 256 below the highest accepted one. So no replay passes, and no fresh
  counter inside the window is lost, whatever the jumps.
\<close>

theorem replay_window_refines_spec:
  assumes "fresh_window c" and "0 \<notin> set ns"
  shows "fst (check_run ns c) = spec_run (map unat ns) (0, {})"
  using assms by (intro check_run_refines fresh_window_rel)

theorem replay_window_refines_spec_witness:
  "fst (check_run [5, 3, 5, 300, 44, 45, 300] sample_crypto) = [True, True, False, True, False, True, False]"
  using replay_window_refines_spec [OF sample_fresh, of "[5, 3, 5, 300, 44, 45, 300]"]
  by (simp add: spec_check_def ReplayWindowSize_def)

text \<open>
  No counter is ever accepted twice under one key: the counters accepted from any
  sequence of non-zero counters are pairwise distinct.
\<close>

theorem no_counter_accepted_twice:
  assumes "fresh_window c" and "0 \<notin> set ns"
  shows "distinct (accepted_counters ns c)"
  unfolding accepted_counters_filter
  using nonce_filter.accepted_fresh [of c "{}" ns] fresh_window_rel [OF assms(1)] assms(2)
  by (auto simp: seen_rel_def)

text \<open>
  The read-only pre-check \<^verbatim>\<open>WouldAcceptNonce\<close> gives the verdict of
  \<^verbatim>\<open>CheckAndRecordNonce\<close> in every state, and a refused counter changes nothing.
\<close>

theorem precheck_is_verdict:
  "fst (CheckAndRecordNonce counter c) = WouldAcceptNonce counter c \<and>
    (snd (CheckAndRecordNonce counter c) = c \<or> WouldAcceptNonce counter c)"
  using WouldAcceptNonce_verdict refused_unchanged by blast

text \<open>
  (C32) Counter 0 is not covered by the window: received first it leaves the high-water mark
  at zero, so the same frame is accepted again.
\<close>

theorem zero_counter_accepted_again:
  assumes "MaxRecvNonce c = 0"
  shows "fst (CheckAndRecordNonce 0 c) \<and> fst (CheckAndRecordNonce 0 (snd (CheckAndRecordNonce 0 c)))"
  using assms by (simp add: CheckAndRecordNonce_def SetReplayBit_def)

theorem zero_counter_accepted_again_witness:
  "fst (check_run [0, 0] sample_crypto) = [True, True]"
  using zero_counter_accepted_again [of sample_crypto]
  by (simp add: sample_crypto_def split_beta)

end
