(* ===== verification/Key_Store.thy ===== *)
theory Key_Store
  imports Replay_Window
begin

text \<open>
  The per-tunnel key store of \<^verbatim>\<open>src/pkg/daemon/keyexchange/store.go\<close>. The code compares
  \<^verbatim>\<open>*Crypto\<close> pointers to tell a key from its replacement, so the store is modelled with
  an explicit heap: \<open>crypto\<close> maps a node ID to a pointer and \<open>heap\<close> a pointer to
  its object. A nil pointer is \<open>None\<close>. Wiping a salvage ring is modelled by emptying it;
  the zeroing of the bytes of the dropped slices has no observer in the model.
\<close>

type_synonym cptr = nat

record Store =
  crypto :: "node_id \<rightharpoonup> cptr"
  heap :: "cptr \<Rightarrow> Crypto"
  localNodeID :: node_id
  EncryptOK :: u64
  EncryptFail :: u64

definition MaxCryptoPeers :: nat where "MaxCryptoPeers = 16384"

definition NewStore :: "(cptr \<Rightarrow> Crypto) \<Rightarrow> Store" where
  "NewStore h = \<lparr> crypto = Map.empty, heap = h, localNodeID = 0, EncryptOK = 0, EncryptFail = 0 \<rparr>"

definition SetLocalNodeID :: "node_id \<Rightarrow> Store \<Rightarrow> Store" where
  "SetLocalNodeID i s = s\<lparr> localNodeID := i \<rparr>"

definition LocalNodeID :: "Store \<Rightarrow> node_id" where
  "LocalNodeID s = localNodeID s"

definition Install :: "node_id \<Rightarrow> cptr \<Rightarrow> Store \<Rightarrow> Store" where
  "Install peerNodeID c s = s\<lparr> crypto := (crypto s)(peerNodeID \<mapsto> c) \<rparr>"

definition Get :: "node_id \<Rightarrow> Store \<Rightarrow> cptr option" where
  "Get peerNodeID s = crypto s peerNodeID"

definition Has :: "node_id \<Rightarrow> Store \<Rightarrow> bool" where
  "Has peerNodeID s \<longleftrightarrow> crypto s peerNodeID \<noteq> None"

definition IsReady :: "node_id \<Rightarrow> Store \<Rightarrow> bool" where
  "IsReady peerNodeID s =
    (case crypto s peerNodeID of None \<Rightarrow> False | Some c \<Rightarrow> Ready (heap s c))"

definition set_crypto :: "cptr \<Rightarrow> Crypto \<Rightarrow> Store \<Rightarrow> Store" where
  "set_crypto p c s = s\<lparr> heap := (heap s)(p := c) \<rparr>"

definition wipeCryptoSecrets :: "cptr option \<Rightarrow> Store \<Rightarrow> Store" where
  "wipeCryptoSecrets cp s =
    (case cp of None \<Rightarrow> s | Some p \<Rightarrow> set_crypto p ((heap s p)\<lparr> Salvage := [] \<rparr>) s)"

definition Drop :: "node_id \<Rightarrow> Store \<Rightarrow> Store" where
  "Drop peerNodeID s =
    wipeCryptoSecrets (crypto s peerNodeID) (s\<lparr> crypto := (crypto s)(peerNodeID := None) \<rparr>)"

definition CompareAndDrop :: "node_id \<Rightarrow> cptr option \<Rightarrow> Store \<Rightarrow> bool \<times> Store" where
  "CompareAndDrop peerNodeID expected s =
    (if crypto s peerNodeID \<noteq> expected then (False, s)
     else (True, wipeCryptoSecrets (crypto s peerNodeID)
                   (s\<lparr> crypto := (crypto s)(peerNodeID := None) \<rparr>)))"

definition Len :: "Store \<Rightarrow> nat" where
  "Len s = map_len (crypto s)"

definition PeerIDs :: "Store \<Rightarrow> node_id set" where
  "PeerIDs s = dom (crypto s)"

section \<open>Teardown gates\<close>

definition ShouldDropOnDecryptFail :: "instant \<Rightarrow> node_id \<Rightarrow> cptr option \<Rightarrow> Store \<Rightarrow> bool" where
  "ShouldDropOnDecryptFail now peerNodeID cp s =
    (case cp of None \<Rightarrow> False
     | Some p \<Rightarrow> let c = heap s p; failures = DecryptFailCount c in
        if failures < DecryptFailDropThreshold then False
        else if time_sub now (CreatedAt c) < DecryptFailDropGrace then False
        else Get peerNodeID s = cp)"

definition ShouldDropOnOutsideWindow :: "instant \<Rightarrow> node_id \<Rightarrow> cptr option \<Rightarrow> Store \<Rightarrow> bool" where
  "ShouldDropOnOutsideWindow now peerNodeID cp s =
    (case cp of None \<Rightarrow> False
     | Some p \<Rightarrow> let c = heap s p; rejections = OutsideWindowCount c;
                    age = time_sub now (CreatedAt c) in
        if rejections = 0 then False
        else if age < AgedCryptoFastDropAge \<and> rejections < OutsideWindowDropThreshold then False
        else if age < AgedCryptoFastDropAge \<and> age < OutsideWindowDropGrace then False
        else Get peerNodeID s = cp)"

definition ShouldDropOnReplay :: "instant \<Rightarrow> node_id \<Rightarrow> cptr option \<Rightarrow> Store \<Rightarrow> bool" where
  "ShouldDropOnReplay now peerNodeID cp s =
    (case cp of None \<Rightarrow> False
     | Some p \<Rightarrow> let c = heap s p; replays = ReplayCount c;
                    age = time_sub now (CreatedAt c) in
        if replays = 0 then False
        else if age < AgedCryptoFastDropAge \<and> replays < ReplayDropThreshold then False
        else if age < AgedCryptoFastDropAge \<and> age < ReplayDropGrace then False
        else Get peerNodeID s = cp)"

section \<open>The salvage ring\<close>

definition salvage_push :: "instant \<Rightarrow> bytes \<Rightarrow> SalvageEntry list \<Rightarrow> SalvageEntry list" where
  "salvage_push now plaintext sal =
    (let cutoff = now - SalvageMaxAge;
         trimmed = dropWhile (\<lambda>e. When e < cutoff) sal;
         bounded = (if length trimmed \<ge> SalvageMaxEntries then tl trimmed else trimmed)
     in bounded @ [\<lparr> Plaintext = plaintext, When = now \<rparr>])"

definition RecordSalvage :: "instant \<Rightarrow> cptr option \<Rightarrow> bytes \<Rightarrow> Store \<Rightarrow> Store" where
  "RecordSalvage now cp plaintext s =
    (case cp of None \<Rightarrow> s
     | Some p \<Rightarrow> set_crypto p ((heap s p)\<lparr> Salvage := salvage_push now plaintext (Salvage (heap s p)) \<rparr>) s)"

definition DrainSalvage :: "instant \<Rightarrow> cptr option \<Rightarrow> Store \<Rightarrow> SalvageEntry list \<times> Store" where
  "DrainSalvage now cp s =
    (case cp of None \<Rightarrow> ([], s)
     | Some p \<Rightarrow> let entries = Salvage (heap s p);
                    s1 = set_crypto p ((heap s p)\<lparr> Salvage := [] \<rparr>) s
        in (filter (\<lambda>e. \<not> When e < now - SalvageMaxAge) entries, s1))"

section \<open>Facts about the store\<close>

lemma set_crypto_simps [simp]:
  "crypto (set_crypto p c s) = crypto s" "heap (set_crypto p c s) p = c"
  "q \<noteq> p \<Longrightarrow> heap (set_crypto p c s) q = heap s q"
  "localNodeID (set_crypto p c s) = localNodeID s"
  "EncryptOK (set_crypto p c s) = EncryptOK s" "EncryptFail (set_crypto p c s) = EncryptFail s"
  by (simp_all add: set_crypto_def)

lemma wipe_simps [simp]:
  "crypto (wipeCryptoSecrets cp s) = crypto s"
  "Salvage (heap (wipeCryptoSecrets (Some p) s) p) = []"
  "q \<noteq> p \<Longrightarrow> heap (wipeCryptoSecrets (Some p) s) q = heap s q"
  by (auto simp: wipeCryptoSecrets_def split: option.splits)

lemma Get_Install: "Get q (Install p c s) = (if q = p then Some c else Get q s)"
  by (simp add: Get_def Install_def)

lemma Get_Drop: "Get q (Drop p s) = (if q = p then None else Get q s)"
  by (simp add: Get_def Drop_def)

lemma Has_Get: "Has p s \<longleftrightarrow> Get p s \<noteq> None"
  by (simp add: Has_def Get_def)

lemma Len_Install_le: "finite (dom (crypto s)) \<Longrightarrow> Len (Install p c s) \<le> Suc (Len s)"
  by (simp add: Len_def Install_def map_len_insert)

lemma dropWhile_sorted_filter:
  assumes "sorted (map When es)"
  shows "dropWhile (\<lambda>e. When e < t) es = filter (\<lambda>e. \<not> When e < t) es"
  using assms
proof (induction es)
  case (Cons e es)
  show ?case
  proof (cases "When e < t")
    case False
    with Cons.prems have "\<forall>x\<in>set es. \<not> When x < t" by auto
    with False show ?thesis by (simp add: filter_True)
  qed (use Cons in simp)
qed simp

lemma dropWhile_dropWhile:
  "t \<le> t' \<Longrightarrow> dropWhile (\<lambda>e. When e < t') (dropWhile (\<lambda>e. When e < t) es)
    = dropWhile (\<lambda>e. When e < t') es"
  by (induction es) auto

text \<open>The newest \<open>n\<close> elements of a list.\<close>

definition last_n :: "nat \<Rightarrow> 'a list \<Rightarrow> 'a list" where
  "last_n n xs = drop (length xs - n) xs"

lemma length_last_n [simp]: "length (last_n n xs) = min n (length xs)"
  by (simp add: last_n_def)

lemma last_n_snoc:
  "last_n (Suc n) (xs @ [x]) = (if length xs \<le> n then xs else tl (last_n (Suc n) xs)) @ [x]"
  by (auto simp: last_n_def Suc_diff_le Suc_diff_Suc tl_drop drop_Suc [symmetric] not_le)

section \<open>What the salvage ring holds\<close>

definition salvage_entry :: "instant \<times> bytes \<Rightarrow> SalvageEntry" where
  "salvage_entry send = \<lparr> Plaintext = snd send, When = fst send \<rparr>"

definition record_sends :: "cptr \<Rightarrow> (instant \<times> bytes) list \<Rightarrow> Store \<Rightarrow> Store" where
  "record_sends p sends s = fold (\<lambda>(t, b). RecordSalvage t (Some p) b) sends s"

lemma When_salvage_entry [simp]: "When (salvage_entry x) = fst x"
  by (simp add: salvage_entry_def)

lemma sorted_last_n: "sorted xs \<Longrightarrow> sorted (last_n n xs)"
  by (simp add: last_n_def sorted_wrt_drop)

lemma map_last_n: "map f (last_n n xs) = last_n n (map f xs)"
  by (simp add: last_n_def drop_map)

lemma salvage_record_sends:
  "Salvage (heap (record_sends p sends s) p)
    = fold (\<lambda>(t, b). salvage_push t b) sends (Salvage (heap s p))"
  unfolding record_sends_def
  by (induction sends arbitrary: s) (auto simp: RecordSalvage_def)

lemma salvage_push_last_n:
  assumes sorted: "sorted (map fst sends)"
  shows "salvage_push t b (filter (\<lambda>e. \<not> When e < t - SalvageMaxAge) (last_n 4 (map salvage_entry sends)))
    = filter (\<lambda>e. \<not> When e < t - SalvageMaxAge) (last_n 4 (map salvage_entry (sends @ [(t, b)])))"
    (is "salvage_push t b (filter ?new ?ring) = filter ?new ?ring'")
proof -
  let ?e = "\<lparr> Plaintext = b, When = t \<rparr>"
  have e: "salvage_entry (t, b) = ?e" "?new ?e"
    by (simp_all add: salvage_entry_def SalvageMaxAge_def)
  have srt: "sorted (map When ?ring)"
    using sorted_last_n [OF sorted] by (simp add: map_last_n comp_def)
  have trim: "dropWhile (\<lambda>e. When e < t - SalvageMaxAge) (filter ?new ?ring) = filter ?new ?ring"
    using dropWhile_sorted_filter [OF sorted_filter [OF srt], of "t - SalvageMaxAge" ?new] by simp
  have ring': "?ring' = (if length sends \<le> 3 then ?ring else tl ?ring) @ [?e]"
    using last_n_snoc [of 3 "map salvage_entry sends" ?e] e(1) by (auto simp: last_n_def)
  have push: "salvage_push t b (filter ?new ?ring)
      = (if 4 \<le> length (filter ?new ?ring) then tl (filter ?new ?ring) else filter ?new ?ring) @ [?e]"
    unfolding salvage_push_def Let_def trim by (simp add: SalvageMaxEntries_def)
  show ?thesis
  proof (cases "length sends \<le> 3")
    case True
    then have "length (filter ?new ?ring) < 4"
      using length_filter_le [of ?new ?ring] by simp
    with True push ring' e show ?thesis by simp
  next
    case False
    then have "length ?ring = 4" by simp
    then obtain x xs where ring: "?ring = x # xs" "length xs = 3" by (cases ?ring) auto
    show ?thesis
    proof (cases "?new x")
      case True
      with srt ring have "\<forall>y\<in>set xs. ?new y" by fastforce
      with True False ring push ring' e show ?thesis by (simp add: filter_True)
    next
      case old: False
      then have "length (filter ?new ?ring) < 4"
        using ring length_filter_le [of ?new xs] by simp
      with old False ring push ring' e show ?thesis by simp
    qed
  qed
qed

lemma filter_newer:
  "t \<le> t' \<Longrightarrow> filter (\<lambda>e. \<not> When e < t') (filter (\<lambda>e. \<not> When e < t) es)
    = filter (\<lambda>e. \<not> When e < t') es"
  by (auto intro: filter_cong)

lemma salvage_push_filter:
  assumes "sorted (map When es)" and "t' \<le> t - SalvageMaxAge"
  shows "salvage_push t b (filter (\<lambda>e. \<not> When e < t') es)
    = salvage_push t b (filter (\<lambda>e. \<not> When e < t - SalvageMaxAge) es)"
proof -
  have "dropWhile (\<lambda>e. When e < t - SalvageMaxAge) (filter (\<lambda>e. \<not> When e < u) es)
      = filter (\<lambda>e. \<not> When e < t - SalvageMaxAge) es" if "u \<le> t - SalvageMaxAge" for u
    using dropWhile_sorted_filter [OF sorted_filter [OF assms(1)]] filter_newer [OF that] by simp
  with assms(2) show ?thesis by (simp add: salvage_push_def)
qed

lemma salvage_ring_contents:
  assumes "sorted (map fst (sends @ [(t, b)]))"
  shows "fold (\<lambda>(t, b). salvage_push t b) (sends @ [(t, b)]) []
    = filter (\<lambda>e. \<not> When e < t - SalvageMaxAge) (last_n 4 (map salvage_entry (sends @ [(t, b)])))"
  using assms
proof (induction sends arbitrary: t b rule: rev_induct)
  case Nil
  then show ?case
    by (simp add: salvage_push_def last_n_def salvage_entry_def SalvageMaxAge_def SalvageMaxEntries_def)
next
  case (snoc x sends)
  obtain t0 b0 where x: "x = (t0, b0)" by force
  from snoc.prems have srt: "sorted (map fst (sends @ [(t0, b0)]))" and le: "t0 \<le> t"
    by (auto simp: x sorted_append)
  have ring: "sorted (map When (last_n 4 (map salvage_entry (sends @ [(t0, b0)]))))"
    using sorted_last_n [OF srt] by (simp add: map_last_n comp_def)
  show ?case
    using snoc.IH [OF srt] salvage_push_last_n [OF srt, of t b]
      salvage_push_filter [OF ring, of "t0 - SalvageMaxAge" t b] le
    by (simp add: x)
qed

section \<open>Properties\<close>

definition sample_store :: Store where
  "sample_store = \<lparr> crypto = [7 \<mapsto> 1], heap = (\<lambda>_. sample_crypto), localNodeID = 3,
    EncryptOK = 0, EncryptFail = 0 \<rparr>"

text \<open>
  The salvage ring keeps what a rekey has to replay and nothing else: after any
  sequence of sends in time order under one key, draining returns exactly the newest four
  sends that are at most five seconds old, oldest first, and leaves the ring empty.
\<close>

theorem salvage_drains_recent_sends:
  assumes "Salvage (heap s p) = []" and "sorted (map fst sends)"
    and "\<forall>x\<in>set sends. fst x \<le> now"
  shows "fst (DrainSalvage now (Some p) (record_sends p sends s))
      = filter (\<lambda>e. \<not> When e < now - SalvageMaxAge) (last_n 4 (map salvage_entry sends))
    \<and> Salvage (heap (snd (DrainSalvage now (Some p) (record_sends p sends s))) p) = []"
proof (cases sends rule: rev_cases)
  case Nil
  with assms show ?thesis by (simp add: DrainSalvage_def record_sends_def last_n_def)
next
  case (snoc xs x)
  obtain t b where x: "x = (t, b)" by force
  have "t \<le> now" using assms(3) snoc x by simp
  moreover have "Salvage (heap (record_sends p sends s) p)
      = filter (\<lambda>e. \<not> When e < t - SalvageMaxAge) (last_n 4 (map salvage_entry sends))"
    using salvage_ring_contents [of xs t b] assms(1,2) snoc x by (simp add: salvage_record_sends)
  ultimately show ?thesis
    using filter_newer [of "t - SalvageMaxAge" "now - SalvageMaxAge"] by (simp add: DrainSalvage_def)
qed

text \<open>
  When the in-window-replay gate fires: exactly when the key is the one still
  installed for the peer and either it is at least a minute old and has seen a replay, or
  it is at least one second old and has seen five replays in a row. A replaced key never
  tears down its successor.
\<close>

theorem ShouldDropOnReplay_iff:
  "ShouldDropOnReplay now peer (Some p) s \<longleftrightarrow>
    Get peer s = Some p \<and>
    (minute \<le> now - CreatedAt (heap s p) \<and> ReplayCount (heap s p) \<noteq> 0 \<or>
     second \<le> now - CreatedAt (heap s p) \<and> 5 \<le> ReplayCount (heap s p))"
  by (auto simp: ShouldDropOnReplay_def Let_def crypto_const_defs time_sub_less)

text \<open>
  The gate on AEAD failures has no fast path: it fires exactly when the key is the
  installed one, has failed five times in a row and is at least three seconds old.
\<close>

theorem ShouldDropOnDecryptFail_iff:
  "ShouldDropOnDecryptFail now peer (Some p) s \<longleftrightarrow>
    Get peer s = Some p \<and> 5 \<le> DecryptFailCount (heap s p) \<and>
    3 * second \<le> now - CreatedAt (heap s p)"
  by (auto simp: ShouldDropOnDecryptFail_def Let_def crypto_const_defs time_sub_less)

text \<open>
  Dropping a key that was replaced in the meantime does nothing: after a rekey has
  installed another key for the peer, \<^verbatim>\<open>CompareAndDrop\<close> with the old key reports
  \<^verbatim>\<open>false\<close> and leaves the store as it is.
\<close>

theorem CompareAndDrop_after_rekey:
  assumes "new \<noteq> old"
  shows "CompareAndDrop peer (Some old) (Install peer new s) = (False, Install peer new s)"
  using assms by (simp add: CompareAndDrop_def Install_def)

end
