(* ===== verification/Routing.thy ===== *)
theory Routing
  imports Pilot_Prelude
begin

text \<open>
  The routing layer: which path a frame to a peer takes (\<^verbatim>\<open>src/pkg/daemon/routing\<close>,
  files \<^verbatim>\<open>routing.go\<close>, \<^verbatim>\<open>relay.go\<close>, \<^verbatim>\<open>blackhole.go\<close>, \<^verbatim>\<open>writeframe.go\<close>,
  \<^verbatim>\<open>beacon.go\<close> and the reply parser of \<^verbatim>\<open>discover.go\<close>).

  The maps of the manager are \<open>node_id \<rightharpoonup> _\<close>. The socket is an argument \<open>send\<close> of the
  operations that transmit: it gives the number of bytes written or the error for a datagram
  and its destination. The operations return the datagrams handed to it. The message codes
  and the punch magic are constants of the protocol package outside \<^verbatim>\<open>src/\<close> and arrive in
  the record \<open>beacon_consts\<close>. Counters are \<open>int\<close>.
\<close>

section \<open>Addresses\<close>

record UDPAddr =
  IP :: bytes
  Port :: int

text \<open>\<^verbatim>\<open>net.IP.Equal\<close>: an IPv4 address and its IPv6-mapped form are the same address.\<close>

definition v4InV6Prefix :: bytes where
  "v4InV6Prefix = replicate 10 0 @ [255, 255]"

definition ip_equal :: "bytes \<Rightarrow> bytes \<Rightarrow> bool" where
  "ip_equal ip x =
    (if length ip = length x then ip = x
     else if length ip = 4 \<and> length x = 16 then take 12 x = v4InV6Prefix \<and> ip = drop 12 x
     else if length ip = 16 \<and> length x = 4 then take 12 ip = v4InV6Prefix \<and> drop 12 ip = x
     else False)"

record beacon_consts =
  BeaconMsgDiscover :: u8
  BeaconMsgDiscoverReply :: u8
  BeaconMsgRelay :: u8
  BeaconMsgPunchRequest :: u8
  TunnelMagicPunch :: bytes

section \<open>The manager\<close>

definition MaxRelayPeers :: nat where "MaxRelayPeers = 4096"
definition DirectBlackholeThreshold :: duration where "DirectBlackholeThreshold = 8 * second"
definition BlackholeMissesRequired :: int where "BlackholeMissesRequired = 3"
definition DirectClearsRequired :: int where "DirectClearsRequired = 3"
definition SendErrThreshold :: int where "SendErrThreshold = 3"

lemmas routing_consts =
  MaxRelayPeers_def DirectBlackholeThreshold_def BlackholeMissesRequired_def
  DirectClearsRequired_def SendErrThreshold_def

record SendOutcome =
  OutBytesSent :: nat
  WasRelay :: bool

record Manager =
  sock :: bool
  beaconAddr :: "UDPAddr option"
  relayPeers :: "node_id \<rightharpoonup> bool"
  relayPinned :: "node_id \<rightharpoonup> bool"
  lastDirectRecv :: "node_id \<rightharpoonup> instant"
  blackholeMissCount :: "node_id \<rightharpoonup> int"
  directClearCount :: "node_id \<rightharpoonup> int"
  sendErrCount :: "node_id \<rightharpoonup> int"
  lastOutboundSend :: "node_id \<rightharpoonup> instant"
  firstOutboundSend :: "node_id \<rightharpoonup> instant"
  localNodeIDFn :: "node_id option"
  forceRelay :: bool

definition SetForceRelay :: "bool \<Rightarrow> Manager \<Rightarrow> Manager" where
  "SetForceRelay v m = m\<lparr> forceRelay := v \<rparr>"

definition ForceRelay :: "Manager \<Rightarrow> bool" where
  "ForceRelay m = forceRelay m"

definition New :: Manager where
  "New = \<lparr> sock = False, beaconAddr = None, relayPeers = Map.empty, relayPinned = Map.empty,
    lastDirectRecv = Map.empty, blackholeMissCount = Map.empty, directClearCount = Map.empty,
    sendErrCount = Map.empty, lastOutboundSend = Map.empty, firstOutboundSend = Map.empty,
    localNodeIDFn = None, forceRelay = False \<rparr>"

definition SetSocket :: "bool \<Rightarrow> Manager \<Rightarrow> Manager" where
  "SetSocket s m = m\<lparr> sock := s \<rparr>"

definition SetLocalNodeIDFn :: "node_id option \<Rightarrow> Manager \<Rightarrow> Manager" where
  "SetLocalNodeIDFn f m = m\<lparr> localNodeIDFn := f \<rparr>"

text \<open>\<^verbatim>\<open>net.ResolveUDPAddr\<close> is the argument \<open>resolve\<close>; \<open>False\<close> is its error.\<close>

definition SetBeaconAddr :: "(string \<Rightarrow> UDPAddr option) \<Rightarrow> string \<Rightarrow> Manager \<Rightarrow> bool \<times> Manager" where
  "SetBeaconAddr resolve addr m =
    (case resolve addr of None \<Rightarrow> (False, m) | Some a \<Rightarrow> (True, m\<lparr> beaconAddr := Some a \<rparr>))"

definition SetBeaconAddrUDP :: "UDPAddr option \<Rightarrow> Manager \<Rightarrow> Manager" where
  "SetBeaconAddrUDP a m = m\<lparr> beaconAddr := a \<rparr>"

definition BeaconAddr :: "Manager \<Rightarrow> UDPAddr option" where
  "BeaconAddr m = beaconAddr m"

definition IsFromBeacon :: "UDPAddr option \<Rightarrow> Manager \<Rightarrow> bool" where
  "IsFromBeacon from m =
    (case (from, beaconAddr m) of
       (Some f, Some b) \<Rightarrow> ip_equal (IP f) (IP b) \<and> Port f = Port b
     | _ \<Rightarrow> False)"

definition localNodeIDOf :: "Manager \<Rightarrow> node_id" where
  "localNodeIDOf m = (case localNodeIDFn m of None \<Rightarrow> 0 | Some i \<Rightarrow> i)"

record CounterTarget =
  CtPktsSent :: "u64 option"
  CtBytesSent :: "u64 option"

definition recordSend :: "nat \<Rightarrow> CounterTarget \<Rightarrow> CounterTarget" where
  "recordSend n t = t\<lparr> CtPktsSent := map_option (\<lambda>k. k + 1) (CtPktsSent t),
    CtBytesSent := map_option (\<lambda>k. k + of_nat n) (CtBytesSent t) \<rparr>"

section \<open>Relay flags\<close>

definition SetRelayPeer :: "node_id \<Rightarrow> bool \<Rightarrow> Manager \<Rightarrow> Manager" where
  "SetRelayPeer nodeID relay m = m\<lparr> relayPeers := (relayPeers m)(nodeID \<mapsto> relay) \<rparr>"

definition SetRelayPeerPinned :: "node_id \<Rightarrow> bool \<Rightarrow> Manager \<Rightarrow> Manager" where
  "SetRelayPeerPinned nodeID relay m =
    (let m1 = m\<lparr> relayPeers := (relayPeers m)(nodeID \<mapsto> relay),
                 relayPinned := (relayPinned m)(nodeID \<mapsto> relay) \<rparr>
     in if \<not> relay then m1\<lparr> relayPinned := (relayPinned m1)(nodeID := None) \<rparr> else m1)"

definition UnpinRelayPeer :: "node_id \<Rightarrow> Manager \<Rightarrow> Manager" where
  "UnpinRelayPeer nodeID m = m\<lparr> relayPinned := (relayPinned m)(nodeID := None) \<rparr>"

definition IsRelayPeer :: "node_id \<Rightarrow> Manager \<Rightarrow> bool" where
  "IsRelayPeer nodeID m = map_get False (relayPeers m) nodeID"

definition IsRelayPinned :: "node_id \<Rightarrow> Manager \<Rightarrow> bool" where
  "IsRelayPinned nodeID m = map_get False (relayPinned m) nodeID"

text \<open>The slices of IDs come in map order, which is unspecified: they are sets here.\<close>

definition RelayPeerIDs :: "Manager \<Rightarrow> node_id set" where
  "RelayPeerIDs m = {i \<in> dom (relayPeers m). relayPeers m i = Some True}"

definition RelayPeerCount :: "Manager \<Rightarrow> nat" where
  "RelayPeerCount m = map_len (relayPeers m)"

definition AdmitRelayFromBeacon :: "node_id \<Rightarrow> Manager \<Rightarrow> bool \<times> Manager" where
  "AdmitRelayFromBeacon peer m =
    (if relayPeers m peer = None \<and> MaxRelayPeers \<le> map_len (relayPeers m) then (False, m)
     else (True, m\<lparr> relayPeers := (relayPeers m)(peer \<mapsto> True),
                    relayPinned := (relayPinned m)(peer \<mapsto> True) \<rparr>))"

definition MarkRelayActivatedIfHadCrypto ::
    "node_id \<Rightarrow> bool \<Rightarrow> Manager \<Rightarrow> (bool \<times> bool \<times> bool) \<times> Manager" where
  "MarkRelayActivatedIfHadCrypto src hadCrypto m =
    (let wasRelay = IsRelayPeer src m in
     if hadCrypto then
       if \<not> wasRelay \<and> MaxRelayPeers \<le> map_len (relayPeers m) then ((False, False, False), m)
       else ((True, \<not> wasRelay, True), m\<lparr> relayPeers := (relayPeers m)(src \<mapsto> True) \<rparr>)
     else ((True, False, False), m))"

definition ClearRelayOnDirect :: "node_id \<Rightarrow> UDPAddr option \<Rightarrow> Manager \<Rightarrow> bool \<times> Manager" where
  "ClearRelayOnDirect peer from m =
    (case from of None \<Rightarrow> (False, m)
     | Some f \<Rightarrow>
       if (case beaconAddr m of None \<Rightarrow> False
           | Some b \<Rightarrow> ip_equal (IP f) (IP b) \<and> Port f = Port b)
       then (False, m\<lparr> blackholeMissCount := (blackholeMissCount m)(peer \<mapsto> 0) \<rparr>)
       else
         let m1 = m\<lparr> blackholeMissCount := (blackholeMissCount m)(peer \<mapsto> 0) \<rparr> in
         if \<not> IsRelayPeer peer m1 then (False, m1)
         else if IsRelayPinned peer m1 then (False, m1)
         else
           let n = map_get 0 (directClearCount m1) peer + 1;
               m2 = m1\<lparr> directClearCount := (directClearCount m1)(peer \<mapsto> n) \<rparr> in
           if DirectClearsRequired \<le> n then
             (True, m2\<lparr> relayPeers := (relayPeers m2)(peer \<mapsto> False),
                         directClearCount := (directClearCount m2)(peer \<mapsto> 0) \<rparr>)
           else (False, m2))"

definition PeerStateEntries :: "Manager \<Rightarrow> nat" where
  "PeerStateEntries m =
    map_len (relayPeers m) + map_len (relayPinned m) + map_len (lastOutboundSend m) +
    map_len (firstOutboundSend m) + map_len (sendErrCount m) + map_len (lastDirectRecv m) +
    map_len (blackholeMissCount m) + map_len (directClearCount m)"

definition RoutingPeerIDs :: "Manager \<Rightarrow> node_id set" where
  "RoutingPeerIDs m =
    dom (lastOutboundSend m) \<union> dom (firstOutboundSend m) \<union> dom (lastDirectRecv m) \<union>
    dom (relayPeers m) \<union> dom (relayPinned m) \<union>
    dom (sendErrCount m) \<union> dom (blackholeMissCount m) \<union> dom (directClearCount m)"

definition RoutingRemovePeer :: "node_id \<Rightarrow> Manager \<Rightarrow> Manager" where
  "RoutingRemovePeer nodeID m = m\<lparr>
    relayPeers := (relayPeers m)(nodeID := None),
    relayPinned := (relayPinned m)(nodeID := None),
    lastOutboundSend := (lastOutboundSend m)(nodeID := None),
    firstOutboundSend := (firstOutboundSend m)(nodeID := None),
    sendErrCount := (sendErrCount m)(nodeID := None),
    lastDirectRecv := (lastDirectRecv m)(nodeID := None),
    blackholeMissCount := (blackholeMissCount m)(nodeID := None),
    directClearCount := (directClearCount m)(nodeID := None) \<rparr>"

section \<open>Silence and send errors\<close>

definition RecordDirectRecv :: "node_id \<Rightarrow> instant \<Rightarrow> Manager \<Rightarrow> Manager" where
  "RecordDirectRecv nodeID t m = m\<lparr>
    lastDirectRecv := (lastDirectRecv m)(nodeID \<mapsto> t),
    firstOutboundSend := (firstOutboundSend m)(nodeID := None) \<rparr>"

definition HasDirectRecv :: "node_id \<Rightarrow> Manager \<Rightarrow> bool" where
  "HasDirectRecv nodeID m = (lastDirectRecv m nodeID \<noteq> None)"

definition LastDirectRecv :: "node_id \<Rightarrow> Manager \<Rightarrow> instant" where
  "LastDirectRecv nodeID m = map_get 0 (lastDirectRecv m) nodeID"

definition RecordOutboundSend :: "node_id \<Rightarrow> instant \<Rightarrow> Manager \<Rightarrow> Manager" where
  "RecordOutboundSend nodeID t m =
    (let m1 = m\<lparr> lastOutboundSend := (lastOutboundSend m)(nodeID \<mapsto> t) \<rparr> in
     if firstOutboundSend m1 nodeID = None
     then m1\<lparr> firstOutboundSend := (firstOutboundSend m1)(nodeID \<mapsto> t) \<rparr> else m1)"

definition LastOutboundSend :: "node_id \<Rightarrow> Manager \<Rightarrow> instant option" where
  "LastOutboundSend nodeID m = lastOutboundSend m nodeID"

definition ClearSendErrCount :: "node_id \<Rightarrow> Manager \<Rightarrow> Manager" where
  "ClearSendErrCount nodeID m = m\<lparr> sendErrCount := (sendErrCount m)(nodeID := None) \<rparr>"

definition SendErrCount :: "node_id \<Rightarrow> Manager \<Rightarrow> int" where
  "SendErrCount nodeID m = map_get 0 (sendErrCount m) nodeID"

definition BlackholeMissCount :: "node_id \<Rightarrow> Manager \<Rightarrow> int" where
  "BlackholeMissCount nodeID m = map_get 0 (blackholeMissCount m) nodeID"

datatype send_error = ECONNREFUSED | EHOSTUNREACH | ENETUNREACH | OtherSendError

definition isICMPUnreachable :: "send_error \<Rightarrow> bool" where
  "isICMPUnreachable err = (err = ECONNREFUSED \<or> err = EHOSTUNREACH \<or> err = ENETUNREACH)"

definition HandleSendError :: "node_id \<Rightarrow> send_error \<Rightarrow> Manager \<Rightarrow> (bool \<times> int) \<times> Manager" where
  "HandleSendError nodeID err m =
    (if \<not> isICMPUnreachable err then ((False, 0), m)
     else
       let count = SendErrCount nodeID m + 1;
           m1 = m\<lparr> sendErrCount := (sendErrCount m)(nodeID \<mapsto> count) \<rparr> in
       if SendErrThreshold \<le> count \<and> \<not> IsRelayPeer nodeID m1 \<and> map_len (relayPeers m1) < MaxRelayPeers
       then ((True, count), m1\<lparr> relayPeers := (relayPeers m1)(nodeID \<mapsto> True),
              relayPinned := (relayPinned m1)(nodeID \<mapsto> True),
              sendErrCount := (sendErrCount m1)(nodeID \<mapsto> 0) \<rparr>)
       else ((False, count), m1))"

text \<open>
  \<^verbatim>\<open>MaybeFlipBlackhole\<close> has two critical sections. The first, under the read lock, decides
  from the flags and the clock (\<open>Inl\<close> is an early return); the second, under the write lock,
  counts a miss and may flip. Other operations can run in between.
\<close>

definition blackhole_observe ::
    "instant \<Rightarrow> node_id \<Rightarrow> Manager \<Rightarrow> (bool \<times> bool \<times> duration \<times> int) + duration" where
  "blackhole_observe now nodeID m =
    (if IsRelayPeer nodeID m then Inl (True, False, 0, 0)
     else if beaconAddr m = None then Inl (False, False, 0, 0)
     else
       case (lastDirectRecv m nodeID, firstOutboundSend m nodeID) of
         (None, None) \<Rightarrow> Inl (False, False, 0, 0)
       | (Some lastRecv, _) \<Rightarrow>
           if time_sub now lastRecv \<le> DirectBlackholeThreshold then Inl (False, False, 0, 0)
           else Inr (time_sub now lastRecv)
       | (None, Some firstSend) \<Rightarrow>
           if time_sub now firstSend \<le> DirectBlackholeThreshold then Inl (False, False, 0, 0)
           else Inr (time_sub now firstSend))"

definition blackhole_commit ::
    "node_id \<Rightarrow> duration \<Rightarrow> Manager \<Rightarrow> (bool \<times> bool \<times> duration \<times> int) \<times> Manager" where
  "blackhole_commit nodeID silentFor m =
    (if IsRelayPeer nodeID m then ((True, False, 0, 0), m)
     else
       let misses = BlackholeMissCount nodeID m + 1;
           m1 = m\<lparr> blackholeMissCount := (blackholeMissCount m)(nodeID \<mapsto> misses) \<rparr> in
       if BlackholeMissesRequired \<le> misses
       then ((True, True, silentFor, misses),
             m1\<lparr> relayPeers := (relayPeers m1)(nodeID \<mapsto> True),
                 relayPinned := (relayPinned m1)(nodeID \<mapsto> True),
                 blackholeMissCount := (blackholeMissCount m1)(nodeID \<mapsto> 0) \<rparr>)
       else ((False, False, silentFor, misses), m1))"

definition MaybeFlipBlackhole ::
    "instant \<Rightarrow> node_id \<Rightarrow> Manager \<Rightarrow> (bool \<times> bool \<times> duration \<times> int) \<times> Manager" where
  "MaybeFlipBlackhole now nodeID m =
    (case blackhole_observe now nodeID m of
       Inl r \<Rightarrow> (r, m)
     | Inr silentFor \<Rightarrow> blackhole_commit nodeID silentFor m)"

section \<open>Sending\<close>

type_synonym socket = "bytes \<Rightarrow> UDPAddr \<Rightarrow> send_error + nat"
type_synonym datagram = "bytes \<times> UDPAddr"

datatype write_error = ErrNoAddress | ErrSocketNotSet | ErrSend send_error

definition relay_msg :: "beacon_consts \<Rightarrow> node_id \<Rightarrow> node_id \<Rightarrow> bytes \<Rightarrow> bytes" where
  "relay_msg K src dst frame = BeaconMsgRelay K # put32 src @ put32 dst @ frame"

definition WriteFrame ::
    "beacon_consts \<Rightarrow> socket \<Rightarrow> instant \<Rightarrow> node_id \<Rightarrow> UDPAddr option \<Rightarrow> bytes \<Rightarrow> CounterTarget \<Rightarrow>
     Manager \<Rightarrow> (SendOutcome \<times> write_error option) \<times> datagram list \<times> CounterTarget \<times> Manager" where
  "WriteFrame K send now nodeID addr frame counters m0 =
    (case MaybeFlipBlackhole now nodeID m0 of ((flagged, flipped, silentFor, misses), m) \<Rightarrow>
     let shouldRelay = (if forceRelay m then True else flagged);
         none = \<lparr> OutBytesSent = 0, WasRelay = False \<rparr> in
     case (if shouldRelay then beaconAddr m else None) of
       Some bAddr \<Rightarrow>
         let msg = relay_msg K (localNodeIDOf m) nodeID frame in
         if \<not> sock m then ((none, Some ErrSocketNotSet), [], counters, m)
         else (case send msg bAddr of
             Inr n \<Rightarrow> ((\<lparr> OutBytesSent = n, WasRelay = True \<rparr>, None), [(msg, bAddr)],
                        recordSend n counters, RecordOutboundSend nodeID now m)
           | Inl err \<Rightarrow> ((\<lparr> OutBytesSent = 0, WasRelay = True \<rparr>, Some (ErrSend err)), [(msg, bAddr)],
                        counters, snd (HandleSendError nodeID err m)))
     | None \<Rightarrow>
         (case addr of None \<Rightarrow> ((none, Some ErrNoAddress), [], counters, m)
          | Some a \<Rightarrow>
            if \<not> sock m then ((none, Some ErrSocketNotSet), [], counters, m)
            else (case send frame a of
                Inr n \<Rightarrow> ((\<lparr> OutBytesSent = n, WasRelay = False \<rparr>, None), [(frame, a)],
                           recordSend n counters, RecordOutboundSend nodeID now m)
              | Inl err \<Rightarrow> ((none, Some (ErrSend err)), [(frame, a)],
                           counters, snd (HandleSendError nodeID err m)))))"

definition SendRelayFrame ::
    "beacon_consts \<Rightarrow> socket \<Rightarrow> node_id \<Rightarrow> bytes \<Rightarrow> Manager \<Rightarrow> write_error option \<times> datagram list" where
  "SendRelayFrame K send nodeID frame m =
    (case beaconAddr m of None \<Rightarrow> (Some ErrNoAddress, [])
     | Some bAddr \<Rightarrow>
       if \<not> sock m then (Some ErrSocketNotSet, [])
       else
         let msg = relay_msg K (localNodeIDOf m) nodeID frame in
         (case send msg bAddr of Inr n \<Rightarrow> None | Inl err \<Rightarrow> Some (ErrSend err), [(msg, bAddr)]))"

definition RegisterWithBeacon ::
    "beacon_consts \<Rightarrow> socket \<Rightarrow> Manager \<Rightarrow> write_error option \<times> datagram list" where
  "RegisterWithBeacon K send m =
    (case beaconAddr m of None \<Rightarrow> (None, [])
     | Some bAddr \<Rightarrow>
       if \<not> sock m then (None, [])
       else
         let msg = BeaconMsgDiscover K # put32 (localNodeIDOf m) in
         (case send msg bAddr of Inr n \<Rightarrow> None | Inl err \<Rightarrow> Some (ErrSend err), [(msg, bAddr)]))"

definition RequestHolePunch ::
    "beacon_consts \<Rightarrow> socket \<Rightarrow> node_id \<Rightarrow> Manager \<Rightarrow> write_error option \<times> datagram list" where
  "RequestHolePunch K send target m =
    (case beaconAddr m of None \<Rightarrow> (None, [])
     | Some bAddr \<Rightarrow>
       if \<not> sock m then (None, [])
       else
         let msg = BeaconMsgPunchRequest K # put32 (localNodeIDOf m) @ put32 target in
         (case send msg bAddr of Inr n \<Rightarrow> None | Inl err \<Rightarrow> Some (ErrSend err), [(msg, bAddr)]))"

text \<open>The datagrams of a punch command; the results of the three sends are ignored.\<close>

definition HandlePunchCommand :: "beacon_consts \<Rightarrow> bytes \<Rightarrow> Manager \<Rightarrow> datagram list" where
  "HandlePunchCommand K data m =
    (if length data < 1 then []
     else
       let ipLen = unat (data ! 0) in
       if ipLen \<noteq> 4 \<and> ipLen \<noteq> 16 then []
       else if length data < 1 + ipLen + 2 then []
       else
         let addr = \<lparr> IP = go_slice data 1 (1 + ipLen),
                      Port = uint (get16 (go_slice data (1 + ipLen) (1 + ipLen + 2))) \<rparr> in
         if \<not> sock m then []
         else replicate 3 (take 4 (TunnelMagicPunch K @ replicate 4 0), addr))"

section \<open>Discovery of the public endpoint\<close>

datatype discover_error =
  ErrResolveBeacon | ErrSendDiscover | ErrDiscoverReply | ErrInvalidReply | ErrBadIPLength nat | ErrTooShort

text \<open>
  \<^verbatim>\<open>DiscoverEndpoint\<close> talks to the beacon through a socket of its own: \<open>write\<close> says
  whether the datagram could be sent and \<open>reply\<close> is the datagram read before the deadline.
  The read buffer has 64 bytes; a longer datagram is cut.
\<close>

definition DiscoverEndpoint ::
    "beacon_consts \<Rightarrow> (string \<Rightarrow> UDPAddr option) \<Rightarrow> (bytes \<Rightarrow> UDPAddr \<Rightarrow> bool) \<Rightarrow> bytes option \<Rightarrow>
     string \<Rightarrow> node_id \<Rightarrow> discover_error + UDPAddr" where
  "DiscoverEndpoint K resolve write reply beacon nodeID =
    (case resolve beacon of None \<Rightarrow> Inl ErrResolveBeacon
     | Some bAddr \<Rightarrow>
       if \<not> write (BeaconMsgDiscover K # put32 nodeID) bAddr then Inl ErrSendDiscover
       else case reply of None \<Rightarrow> Inl ErrDiscoverReply
       | Some d \<Rightarrow>
         let n = min 64 (length d); buf = take 64 d @ replicate (64 - length d) 0 in
         if n < 4 \<or> buf ! 0 \<noteq> BeaconMsgDiscoverReply K then Inl ErrInvalidReply
         else
           let ipLen = unat (buf ! 1) in
           if ipLen \<noteq> 4 \<and> ipLen \<noteq> 16 then Inl (ErrBadIPLength ipLen)
           else if n < 2 + ipLen + 2 then Inl ErrTooShort
           else Inr \<lparr> IP = go_slice buf 2 (2 + ipLen),
                      Port = uint (get16 (go_slice buf (2 + ipLen) (2 + ipLen + 2))) \<rparr>)"

section \<open>Sequences of operations\<close>

text \<open>
  What the frames received from peers and the errors of the socket can make the manager do,
  and with it what the local sender adds.
\<close>

datatype peer_op =
    Admit node_id
  | RelayDeliver node_id bool
  | Decrypted node_id "UDPAddr option"
  | DirectRecv node_id instant
  | ClearErr node_id
  | SendFailed node_id send_error

fun peer_step :: "peer_op \<Rightarrow> Manager \<Rightarrow> Manager" where
  "peer_step (Admit i) m = snd (AdmitRelayFromBeacon i m)"
| "peer_step (RelayDeliver i had) m = snd (MarkRelayActivatedIfHadCrypto i had m)"
| "peer_step (Decrypted i from) m = snd (ClearRelayOnDirect i from m)"
| "peer_step (DirectRecv i t) m = RecordDirectRecv i t m"
| "peer_step (ClearErr i) m = ClearSendErrCount i m"
| "peer_step (SendFailed i err) m = snd (HandleSendError i err m)"

datatype route_op =
    FromPeer peer_op
  | Flip instant node_id
  | Write beacon_consts socket instant node_id "UDPAddr option" bytes CounterTarget

fun route_step :: "route_op \<Rightarrow> Manager \<Rightarrow> Manager" where
  "route_step (FromPeer x) m = peer_step x m"
| "route_step (Flip now i) m = snd (MaybeFlipBlackhole now i m)"
| "route_step (Write K send now i addr frame ct) m =
    snd (snd (snd (WriteFrame K send now i addr frame ct m)))"

definition pinned_relay :: "node_id \<Rightarrow> Manager \<Rightarrow> bool" where
  "pinned_relay i m \<longleftrightarrow> IsRelayPeer i m \<and> IsRelayPinned i m"

definition relay_bounded :: "Manager \<Rightarrow> bool" where
  "relay_bounded m \<longleftrightarrow> finite (dom (relayPeers m)) \<and> map_len (relayPeers m) \<le> MaxRelayPeers"

lemmas relay_flag_defs = IsRelayPeer_def IsRelayPinned_def

lemma map_get_upd: "map_get z (f(k \<mapsto> v)) j = (if j = k then v else map_get z f j)"
  by (simp add: map_get_def)

lemma map_get_del: "map_get z (f(k := None)) j = (if j = k then z else map_get z f j)"
  by (simp add: map_get_def)

lemmas map_get_fun_upd = map_get_upd map_get_del

subsection \<open>Flags of one operation\<close>

lemma RecordOutboundSend_frame [simp]:
  "relayPeers (RecordOutboundSend i t m) = relayPeers m"
  "relayPinned (RecordOutboundSend i t m) = relayPinned m"
  "beaconAddr (RecordOutboundSend i t m) = beaconAddr m"
  "sock (RecordOutboundSend i t m) = sock m"
  "forceRelay (RecordOutboundSend i t m) = forceRelay m"
  "lastDirectRecv (RecordOutboundSend i t m) = lastDirectRecv m"
  "blackholeMissCount (RecordOutboundSend i t m) = blackholeMissCount m"
  "localNodeIDFn (RecordOutboundSend i t m) = localNodeIDFn m"
  by (auto simp: RecordOutboundSend_def Let_def)

lemma MaybeFlipBlackhole_frame [simp]:
  "beaconAddr (snd (MaybeFlipBlackhole now i m)) = beaconAddr m"
  "sock (snd (MaybeFlipBlackhole now i m)) = sock m"
  "forceRelay (snd (MaybeFlipBlackhole now i m)) = forceRelay m"
  "lastDirectRecv (snd (MaybeFlipBlackhole now i m)) = lastDirectRecv m"
  "firstOutboundSend (snd (MaybeFlipBlackhole now i m)) = firstOutboundSend m"
  "localNodeIDFn (snd (MaybeFlipBlackhole now i m)) = localNodeIDFn m"
  by (auto simp: MaybeFlipBlackhole_def blackhole_commit_def Let_def split: sum.splits)

lemma HandleSendError_pinned: "pinned_relay i m \<Longrightarrow> pinned_relay i (snd (HandleSendError j err m))"
  by (auto simp: pinned_relay_def relay_flag_defs HandleSendError_def Let_def map_get_fun_upd)

lemma MaybeFlipBlackhole_pinned: "pinned_relay i m \<Longrightarrow> pinned_relay i (snd (MaybeFlipBlackhole now j m))"
  by (auto simp: pinned_relay_def relay_flag_defs MaybeFlipBlackhole_def blackhole_commit_def Let_def
      map_get_fun_upd split: sum.splits)

lemma RecordOutboundSend_pinned [simp]: "pinned_relay i (RecordOutboundSend j t m) = pinned_relay i m"
  by (simp add: pinned_relay_def relay_flag_defs)

lemma peer_step_pinned: "pinned_relay i m \<Longrightarrow> pinned_relay i (peer_step x m)"
  by (cases x)
    (auto simp: HandleSendError_def pinned_relay_def relay_flag_defs AdmitRelayFromBeacon_def
      MarkRelayActivatedIfHadCrypto_def ClearRelayOnDirect_def RecordDirectRecv_def ClearSendErrCount_def
      Let_def map_get_fun_upd split: option.splits)

text \<open>The state a write leaves: the one after the blackhole check, with the send recorded.\<close>

lemma WriteFrame_state:
  assumes "m1 = snd (MaybeFlipBlackhole now i m)"
  shows "snd (snd (snd (WriteFrame K send now i addr frame ct m))) \<in>
    {m1, RecordOutboundSend i now m1} \<union> range (\<lambda>err. snd (HandleSendError i err m1))"
  unfolding WriteFrame_def assms
  by (auto simp: Let_def split: prod.splits option.splits sum.splits)

lemma route_step_pinned: "pinned_relay i m \<Longrightarrow> pinned_relay i (route_step x m)"
proof (cases x)
  case (Write K send now j addr frame ct)
  assume "pinned_relay i m"
  then have "pinned_relay i (snd (MaybeFlipBlackhole now j m))" by (rule MaybeFlipBlackhole_pinned)
  then show ?thesis
    using WriteFrame_state [OF refl, of K send now j addr frame ct m]
    unfolding Write by (auto simp: HandleSendError_pinned)
qed (auto simp: peer_step_pinned MaybeFlipBlackhole_pinned)

interpretation pinned_ops: op_system route_step "pinned_relay i" for i
  by unfold_locales (rule route_step_pinned)

lemma map_len_insert_bounded:
  assumes "finite (dom f)" and "map_len f \<le> n" and "k \<in> dom f \<or> map_len f < n"
  shows "map_len (f(k \<mapsto> v)) \<le> n"
  using assms by (auto simp: map_len_insert)

lemma map_get_True_dom: "map_get False f k \<Longrightarrow> k \<in> dom f"
  by (auto simp: map_get_def split: option.splits)

lemma peer_step_bounded: "relay_bounded m \<Longrightarrow> relay_bounded (peer_step x m)"
  by (cases x)
    (auto simp: relay_bounded_def relay_flag_defs AdmitRelayFromBeacon_def MarkRelayActivatedIfHadCrypto_def
      ClearRelayOnDirect_def RecordDirectRecv_def ClearSendErrCount_def HandleSendError_def Let_def
      intro!: map_len_insert_bounded dest: map_get_True_dom split: option.splits)

interpretation peer_ops: op_system peer_step relay_bounded
  by unfold_locales (rule peer_step_bounded)

section \<open>A silent direct path\<close>

text \<open>
  \<open>silent_since t\<^sub>0\<close>: what the blackhole check measures the silence from. \<open>watching\<close> is a
  manager that still sends direct, with \<open>k\<close> misses counted.
\<close>

definition silence_start :: "node_id \<Rightarrow> Manager \<Rightarrow> instant option" where
  "silence_start i m =
    (case lastDirectRecv m i of Some t \<Rightarrow> Some t | None \<Rightarrow> firstOutboundSend m i)"

definition watching :: "node_id \<Rightarrow> instant \<Rightarrow> int \<Rightarrow> Manager \<Rightarrow> bool" where
  "watching i t0 k m \<longleftrightarrow> \<not> IsRelayPeer i m \<and> beaconAddr m \<noteq> None \<and> sock m \<and> \<not> forceRelay m \<and>
    silence_start i m = Some t0 \<and> BlackholeMissCount i m = k"

fun write_run ::
    "beacon_consts \<Rightarrow> socket \<Rightarrow> node_id \<Rightarrow> UDPAddr \<Rightarrow> CounterTarget \<Rightarrow> (instant \<times> bytes) list \<Rightarrow>
     Manager \<Rightarrow> datagram list" where
  "write_run K send i a ct [] m = []"
| "write_run K send i a ct ((now, frame) # ws) m =
    (case WriteFrame K send now i (Some a) frame ct m of
       (r, ds, ct', m') \<Rightarrow> ds @ write_run K send i a ct' ws m')"

lemma blackhole_observe_silent:
  assumes "watching i t0 k m" and "DirectBlackholeThreshold < now - t0"
  shows "\<exists>d. blackhole_observe now i m = Inr d"
  using assms
  by (auto simp: watching_def blackhole_observe_def silence_start_def DirectBlackholeThreshold_def time_simps
      split: option.splits)

lemma blackhole_observe_heard:
  assumes "watching i t0 k m" and "now - t0 \<le> DirectBlackholeThreshold"
  shows "blackhole_observe now i m = Inl (False, False, 0, 0)"
  using assms
  by (auto simp: watching_def blackhole_observe_def silence_start_def DirectBlackholeThreshold_def time_simps
      split: option.splits)

lemma RecordOutboundSend_silence_start:
  "silence_start i m = Some t0 \<Longrightarrow> silence_start i (RecordOutboundSend j t m) = Some t0"
  by (auto simp: silence_start_def RecordOutboundSend_def Let_def split: option.splits)

lemma RecordOutboundSend_watching:
  "watching i t0 k m \<Longrightarrow> watching i t0 k (RecordOutboundSend j t m)"
  by (auto simp: watching_def relay_flag_defs BlackholeMissCount_def RecordOutboundSend_silence_start)

lemma watching_miss:
  assumes "watching i t0 k m" and "DirectBlackholeThreshold < now - t0" and "k < 2"
  shows "\<not> fst (fst (MaybeFlipBlackhole now i m)) \<and> watching i t0 (k + 1) (snd (MaybeFlipBlackhole now i m))"
proof -
  obtain d where d: "blackhole_observe now i m = Inr d" using blackhole_observe_silent assms(1,2) by blast
  have flips: "\<not> BlackholeMissesRequired \<le> BlackholeMissCount i m + 1" "\<not> IsRelayPeer i m"
    using assms by (simp_all add: watching_def BlackholeMissesRequired_def)
  have "MaybeFlipBlackhole now i m = ((False, False, d, BlackholeMissCount i m + 1),
      m\<lparr> blackholeMissCount := (blackholeMissCount m)(i \<mapsto> BlackholeMissCount i m + 1) \<rparr>)"
    by (simp add: MaybeFlipBlackhole_def d blackhole_commit_def flips Let_def)
  with assms(1) show ?thesis
    by (simp add: watching_def relay_flag_defs BlackholeMissCount_def silence_start_def split: option.splits)
qed

lemma watching_flip:
  assumes "watching i t0 2 m" and "DirectBlackholeThreshold < now - t0"
  shows "fst (fst (MaybeFlipBlackhole now i m)) \<and> IsRelayPeer i (snd (MaybeFlipBlackhole now i m))"
  using blackhole_observe_silent [OF assms] assms(1)
  by (auto simp: MaybeFlipBlackhole_def blackhole_commit_def BlackholeMissesRequired_def watching_def
      relay_flag_defs BlackholeMissCount_def Let_def)

lemma WriteFrame_direct:
  assumes "MaybeFlipBlackhole now i m = ((False, r), m1)" and "\<not> forceRelay m" and "sock m"
    and "send frame a = Inr n"
  shows "\<exists>o' ct'. WriteFrame K send now i (Some a) frame ct m
    = (o', [(frame, a)], ct', RecordOutboundSend i now m1)"
proof -
  have "forceRelay m1 = forceRelay m" "sock m1 = sock m"
    using MaybeFlipBlackhole_frame [of now i m] assms(1) by simp_all
  with assms show ?thesis by (cases r) (auto simp: WriteFrame_def Let_def)
qed

lemma WriteFrame_relayed:
  assumes "MaybeFlipBlackhole now i m = ((flag, r), m1)" and "flag \<or> forceRelay m" and "sock m"
    and "beaconAddr m = Some b" and "send (relay_msg K (localNodeIDOf m) i frame) b = Inr n"
  shows "\<exists>o' ct'. WriteFrame K send now i addr frame ct m
    = (o', [(relay_msg K (localNodeIDOf m) i frame, b)], ct', RecordOutboundSend i now m1)"
proof -
  have "forceRelay m1 = forceRelay m" "sock m1 = sock m" "beaconAddr m1 = beaconAddr m"
      "localNodeIDOf m1 = localNodeIDOf m"
    using MaybeFlipBlackhole_frame [of now i m] assms(1) by (simp_all add: localNodeIDOf_def)
  with assms show ?thesis by (cases r) (auto simp: WriteFrame_def Let_def)
qed

lemma MaybeFlipBlackhole_relay:
  "IsRelayPeer i m \<Longrightarrow> MaybeFlipBlackhole now i m = ((True, False, 0, 0), m)"
  by (simp add: MaybeFlipBlackhole_def blackhole_observe_def)

lemma write_run_relayed:
  assumes "IsRelayPeer i m" and "sock m" and "beaconAddr m = Some b" and "\<And>d x. \<exists>n. send d x = Inr n"
  shows "write_run K send i a ct ws m = map (\<lambda>w. (relay_msg K (localNodeIDOf m) i (snd w), b)) ws"
  using assms(1-3)
proof (induction ws arbitrary: m ct)
  case (Cons w ws)
  obtain now frame where w: "w = (now, frame)" by force
  obtain n where "send (relay_msg K (localNodeIDOf m) i frame) b = Inr n" using assms(4) by blast
  from WriteFrame_relayed [where send = send, OF MaybeFlipBlackhole_relay [OF Cons.prems(1)] _ Cons.prems(2,3) this]
  obtain o' ct' where "WriteFrame K send now i (Some a) frame ct m
      = (o', [(relay_msg K (localNodeIDOf m) i frame, b)], ct', RecordOutboundSend i now m)" by blast
  moreover have "localNodeIDOf (RecordOutboundSend i now m) = localNodeIDOf m"
    by (simp add: localNodeIDOf_def)
  ultimately show ?case
    using Cons by (simp add: w relay_flag_defs)
qed simp

lemma write_run_watching:
  assumes "watching i t0 k m" and "0 \<le> k" "k \<le> 2" and "beaconAddr m = Some b"
    and "\<And>d x. \<exists>n. send d x = Inr n" and "\<forall>w\<in>set ws. DirectBlackholeThreshold < fst w - t0"
  shows "write_run K send i a ct ws m =
    map (\<lambda>w. (snd w, a)) (take (2 - nat k) ws) @
    map (\<lambda>w. (relay_msg K (localNodeIDOf m) i (snd w), b)) (drop (2 - nat k) ws)"
  using assms(1-4,6)
proof (induction ws arbitrary: k m ct)
  case (Cons w ws)
  obtain now frame where w: "w = (now, frame)" by force
  obtain flag r m1 where mf: "MaybeFlipBlackhole now i m = ((flag, r), m1)"
    by (metis prod.collapse)
  have keep: "beaconAddr m1 = Some b" "localNodeIDOf m1 = localNodeIDOf m" "sock m1" "sock m" "\<not> forceRelay m"
    using MaybeFlipBlackhole_frame [of now i m] mf Cons.prems(1,4) by (simp_all add: localNodeIDOf_def watching_def)
  have late: "DirectBlackholeThreshold < now - t0" using Cons.prems(5) by (simp add: w)
  let ?m2 = "RecordOutboundSend i now m1"
  have m2: "beaconAddr ?m2 = Some b" "localNodeIDOf ?m2 = localNodeIDOf m" "sock ?m2"
    using keep by (simp_all add: localNodeIDOf_def)
  show ?case
  proof (cases "k < 2")
    case True
    with watching_miss [OF Cons.prems(1) late] mf
    have st: "\<not> flag" "watching i t0 (k + 1) m1" by simp_all
    obtain n where n: "send frame a = Inr n" using assms(5) by blast
    have "MaybeFlipBlackhole now i m = ((False, r), m1)" using st(1) mf by simp
    from WriteFrame_direct [where send = send, OF this keep(5,4) n]
    obtain o' ct' where wf: "WriteFrame K send now i (Some a) frame ct m = (o', [(frame, a)], ct', ?m2)" by blast
    have "2 - nat k = Suc (2 - nat (k + 1))" using True Cons.prems(2) by simp
    moreover have "write_run K send i a ct' ws ?m2 =
        map (\<lambda>w. (snd w, a)) (take (2 - nat (k + 1)) ws) @
        map (\<lambda>w. (relay_msg K (localNodeIDOf ?m2) i (snd w), b)) (drop (2 - nat (k + 1)) ws)"
      using Cons.prems(2,5) True m2(1)
      by (intro Cons.IH RecordOutboundSend_watching [OF st(2)]) simp_all
    ultimately show ?thesis by (simp add: w wf m2(2))
  next
    case False
    with Cons.prems(3) have "k = 2" by simp
    with watching_flip [of i t0 m now] Cons.prems(1) late mf have st: "flag" "IsRelayPeer i m1" by simp_all
    obtain n where n: "send (relay_msg K (localNodeIDOf m) i frame) b = Inr n" using assms(5) by blast
    from WriteFrame_relayed [where send = send, OF mf _ keep(4) Cons.prems(4) n] st(1)
    obtain o' ct' where wf: "WriteFrame K send now i (Some a) frame ct m
        = (o', [(relay_msg K (localNodeIDOf m) i frame, b)], ct', ?m2)" by blast
    have "IsRelayPeer i ?m2" using st(2) by (simp add: relay_flag_defs)
    from write_run_relayed [where send = send, OF this m2(3,1) assms(5)]
    show ?thesis by (simp add: w wf m2(2) \<open>k = 2\<close>)
  qed
qed simp

text \<open>Neither peers nor writes change the beacon or the local identity.\<close>

definition same_beacon :: "Manager \<Rightarrow> Manager \<Rightarrow> bool" where
  "same_beacon m m' \<longleftrightarrow> beaconAddr m' = beaconAddr m \<and> localNodeIDFn m' = localNodeIDFn m"

lemma HandleSendError_same_beacon [simp]: "same_beacon m0 (snd (HandleSendError i err m)) = same_beacon m0 m"
  by (auto simp: same_beacon_def HandleSendError_def Let_def)

lemma MaybeFlipBlackhole_same_beacon [simp]:
  "same_beacon m0 (snd (MaybeFlipBlackhole now i m)) = same_beacon m0 m"
  by (simp add: same_beacon_def)

lemma peer_step_same_beacon: "same_beacon m0 m \<Longrightarrow> same_beacon m0 (peer_step x m)"
  by (cases x)
    (auto simp: same_beacon_def AdmitRelayFromBeacon_def MarkRelayActivatedIfHadCrypto_def HandleSendError_def
      ClearRelayOnDirect_def RecordDirectRecv_def ClearSendErrCount_def Let_def split: option.splits)

lemma route_step_same_beacon: "same_beacon m0 m \<Longrightarrow> same_beacon m0 (route_step x m)"
proof (cases x)
  case (Write K send now j addr frame ct)
  assume "same_beacon m0 m"
  then have "same_beacon m0 (snd (MaybeFlipBlackhole now j m))" by simp
  then show ?thesis
    using WriteFrame_state [OF refl, of K send now j addr frame ct m]
    unfolding Write by (auto simp: same_beacon_def [of m0 "RecordOutboundSend _ _ _"])
      (simp_all add: same_beacon_def)
qed (auto simp: peer_step_same_beacon)

interpretation beacon_ops: op_system route_step "same_beacon m" for m
  by unfold_locales (rule route_step_same_beacon)

lemma WriteFrame_only_relay:
  assumes "IsRelayPeer i m \<or> forceRelay m" and "beaconAddr m = Some b"
  shows "set (fst (snd (WriteFrame K send now i addr frame ct m))) \<subseteq>
    {(relay_msg K (localNodeIDOf m) i frame, b)}"
proof -
  obtain flag r m1 where mf: "MaybeFlipBlackhole now i m = ((flag, r), m1)"
    by (metis prod.collapse)
  have "beaconAddr m1 = Some b" "localNodeIDOf m1 = localNodeIDOf m" "forceRelay m1 = forceRelay m"
    using MaybeFlipBlackhole_frame [of now i m] mf assms(2) by (simp_all add: localNodeIDOf_def)
  moreover have "flag \<or> forceRelay m" using assms(1) mf MaybeFlipBlackhole_relay [of i m now] by auto
  ultimately show ?thesis
    using mf by (cases r) (auto simp: WriteFrame_def Let_def split: sum.splits if_splits)
qed

section \<open>Return to the direct path\<close>

definition direct_source :: "Manager \<Rightarrow> UDPAddr option \<Rightarrow> bool" where
  "direct_source m from \<longleftrightarrow> from \<noteq> None \<and> \<not> IsFromBeacon from m"

definition decrypt_run :: "node_id \<Rightarrow> UDPAddr option list \<Rightarrow> Manager \<Rightarrow> Manager" where
  "decrypt_run i froms m = fold (\<lambda>from m. snd (ClearRelayOnDirect i from m)) froms m"

definition clearing :: "node_id \<Rightarrow> int \<Rightarrow> Manager \<Rightarrow> bool" where
  "clearing i k m \<longleftrightarrow> IsRelayPeer i m \<and> \<not> IsRelayPinned i m \<and> map_get 0 (directClearCount m) i = k"

lemma direct_source_cong: "beaconAddr m' = beaconAddr m \<Longrightarrow> direct_source m' = direct_source m"
  by (rule ext) (simp add: direct_source_def IsFromBeacon_def)

lemma ClearRelayOnDirect_beacon [simp]:
  "beaconAddr (snd (ClearRelayOnDirect i from m)) = beaconAddr m"
  by (auto simp: ClearRelayOnDirect_def Let_def split: option.splits)

lemma ClearRelayOnDirect_step:
  assumes "clearing i k m"
  shows "\<not> direct_source m from \<Longrightarrow> clearing i k (snd (ClearRelayOnDirect i from m))"
    and "direct_source m from \<Longrightarrow> k + 1 < 3 \<Longrightarrow> clearing i (k + 1) (snd (ClearRelayOnDirect i from m))"
    and "direct_source m from \<Longrightarrow> 3 \<le> k + 1 \<Longrightarrow> \<not> IsRelayPeer i (snd (ClearRelayOnDirect i from m))"
  using assms
  by (auto simp: clearing_def direct_source_def IsFromBeacon_def ClearRelayOnDirect_def relay_flag_defs
      DirectClearsRequired_def Let_def split: option.splits)

lemma ClearRelayOnDirect_stays:
  "\<not> IsRelayPeer i m \<Longrightarrow> \<not> IsRelayPeer i (snd (ClearRelayOnDirect i from m))"
  by (auto simp: ClearRelayOnDirect_def relay_flag_defs Let_def split: option.splits)

lemma decrypt_run_direct: "\<not> IsRelayPeer i m \<Longrightarrow> \<not> IsRelayPeer i (decrypt_run i froms m)"
  unfolding decrypt_run_def by (induction froms arbitrary: m) (auto simp: ClearRelayOnDirect_stays)

lemma decrypt_run_clearing:
  assumes "clearing i k m" and "k < 3"
  shows "IsRelayPeer i (decrypt_run i froms m) \<longleftrightarrow> k + int (length (filter (direct_source m) froms)) < 3"
  using assms
proof (induction froms arbitrary: k m)
  case Nil
  then show ?case by (simp add: decrypt_run_def clearing_def)
next
  case (Cons f froms)
  let ?m = "snd (ClearRelayOnDirect i f m)"
  have run: "decrypt_run i (f # froms) m = decrypt_run i froms ?m" by (simp add: decrypt_run_def)
  have src: "direct_source ?m = direct_source m" by (rule direct_source_cong) simp
  show ?case
  proof (cases "direct_source m f \<and> 3 \<le> k + 1")
    case True
    then show ?thesis
      using ClearRelayOnDirect_step(3) [OF Cons.prems(1)] Cons.prems(2) by (simp add: run decrypt_run_direct)
  next
    case False
    then show ?thesis
      using Cons.IH [of k ?m] Cons.IH [of "k + 1" ?m] ClearRelayOnDirect_step(1,2) [OF Cons.prems(1)] Cons.prems(2)
      by (cases "direct_source m f") (auto simp: run src)
  qed
qed

section \<open>Removing a peer\<close>

lemma RoutingRemovePeer_ids: "RoutingPeerIDs (RoutingRemovePeer i m) = RoutingPeerIDs m - {i}"
  by (auto simp: RoutingPeerIDs_def RoutingRemovePeer_def)

section \<open>Endpoint messages\<close>

lemma go_slice_alt: "i \<le> j \<Longrightarrow> go_slice xs i j = drop i (take j xs)"
  by (simp add: go_slice_def drop_take)

text \<open>A received datagram read through the fixed buffer.\<close>

lemma go_slice_buffer:
  assumes "i \<le> j" and "j \<le> min n (length d)"
  shows "go_slice (take n d @ zs) i j = go_slice d i j"
  using assms by (simp add: go_slice_alt min_def split: if_splits)

lemma nth_buffer: "k < min n (length d) \<Longrightarrow> (take n d @ zs) ! k = d ! k"
  by (simp add: nth_append)

lemma split_endpoint:
  assumes "2 + k + 2 \<le> length d"
  shows "d = d ! 0 # d ! 1 # go_slice d 2 (2 + k) @ go_slice d (2 + k) (2 + k + 2) @ drop (2 + k + 2) d"
proof -
  obtain x y zs where d: "d = x # y # zs" using assms by (cases d rule: remdups_adj.cases) auto
  have "zs = take k zs @ take 2 (drop k zs) @ drop (k + 2) zs"
    by (metis add.commute append_take_drop_id drop_drop)
  then show ?thesis by (simp add: d go_slice_def)
qed

section \<open>Properties\<close>

definition sample_addr :: UDPAddr where "sample_addr = \<lparr> IP = [198, 51, 100, 7], Port = 4000 \<rparr>"

definition sample_beacon :: UDPAddr where "sample_beacon = \<lparr> IP = [203, 0, 113, 1], Port = 9001 \<rparr>"

definition sample_manager :: Manager where
  "sample_manager = New\<lparr> sock := True, beaconAddr := Some sample_beacon, localNodeIDFn := Some 1 \<rparr>"

definition sample_consts :: beacon_consts where
  "sample_consts = \<lparr> BeaconMsgDiscover = 1, BeaconMsgDiscoverReply = 2, BeaconMsgRelay = 5,
    BeaconMsgPunchRequest = 3, TunnelMagicPunch = [80, 73, 76, 80] \<rparr>"



text \<open>
  (C38) A pinned peer is reached through the beacon only. Whatever frames arrive from
  whatever addresses, whatever the socket reports and whatever is written to whom, a peer
  whose relay flag was pinned keeps it, and every datagram a later write to it produces is the
  relay message to the beacon.
\<close>

theorem pinned_peer_only_relayed:
  assumes "IsRelayPeer i m" and "IsRelayPinned i m" and "beaconAddr m = Some b"
  shows "IsRelayPeer i (fold route_step ops m) \<and>
    set (fst (snd (WriteFrame K send now i addr frame ct (fold route_step ops m))))
      \<subseteq> {(relay_msg K (localNodeIDOf m) i frame, b)}"
proof -
  let ?m = "fold route_step ops m"
  have relay: "IsRelayPeer i ?m"
    using pinned_ops.run_inv [of i m ops] assms(1,2) by (simp add: pinned_relay_def)
  have "same_beacon m ?m" using beacon_ops.run_inv [of m m ops] by (simp add: same_beacon_def)
  then have "beaconAddr ?m = Some b" "localNodeIDOf ?m = localNodeIDOf m"
    using assms(3) by (simp_all add: same_beacon_def localNodeIDOf_def)
  with relay WriteFrame_only_relay [of i ?m b K send now addr frame ct] show ?thesis by simp
qed

theorem pinned_peer_only_relayed_witness:
  "IsRelayPeer 7 (fold route_step (replicate 3 (FromPeer (Decrypted 7 (Some sample_addr))))
    (SetRelayPeerPinned 7 True sample_manager))"
  by (rule conjunct1 [OF pinned_peer_only_relayed [where b = sample_beacon]])
    (simp_all add: relay_flag_defs SetRelayPeerPinned_def sample_manager_def Let_def)

text \<open>
  Hysteresis of the return to the direct path. An unpinned relay peer stays relayed
  until three frames from an address other than the beacon's have been decrypted, and is direct
  from then on. Frames that come through the beacon in between neither help nor restart the
  count. (The comment on \<^verbatim>\<open>ClearRelayOnDirect\<close> asks for consecutive direct packets.)
\<close>

theorem relay_cleared_after_three_direct:
  assumes "IsRelayPeer i m" and "\<not> IsRelayPinned i m" and "map_get 0 (directClearCount m) i = 0"
  shows "IsRelayPeer i (decrypt_run i froms m) \<longleftrightarrow> length (filter (direct_source m) froms) < 3"
  using decrypt_run_clearing [of i 0 m froms] assms by (simp add: clearing_def)



text \<open>
  The endpoint a node learns is the one the beacon sent: with the beacon resolved and
  the request sent, discovery returns an address exactly when the reply is the reply code, an
  IP length of 4 or 16, that many bytes and a big-endian port (whatever follows), and the
  address is made of them. Every other reply is an error.
\<close>

theorem DiscoverEndpoint_iff:
  assumes "resolve beacon = Some b" and "write (BeaconMsgDiscover K # put32 nodeID) b"
  shows "DiscoverEndpoint K resolve write (Some d) beacon nodeID = Inr a \<longleftrightarrow>
    (\<exists>ip port rest. d = BeaconMsgDiscoverReply K # of_nat (length ip) # ip @ put16 port @ rest \<and>
      (length ip = 4 \<or> length ip = 16) \<and> a = \<lparr> IP = ip, Port = uint port \<rparr>)"
  (is "?lhs \<longleftrightarrow> ?rhs")
proof
  assume ?rhs
  then show ?lhs
    using assms by (auto simp: DiscoverEndpoint_def go_slice_def Let_def)
next
  let ?n = "min 64 (length d)" and ?buf = "take 64 d @ replicate (64 - length d) 0"
  let ?k = "unat (?buf ! 1)"
  assume ?lhs
  then have n: "4 \<le> ?n" "?buf ! 0 = BeaconMsgDiscoverReply K" "?k = 4 \<or> ?k = 16" "2 + ?k + 2 \<le> ?n"
    and a: "a = \<lparr> IP = go_slice ?buf 2 (2 + ?k), Port = uint (get16 (go_slice ?buf (2 + ?k) (2 + ?k + 2))) \<rparr>"
    using assms by (auto simp: DiscoverEndpoint_def Let_def not_less split: if_splits)
  have hd: "?buf ! 0 = d ! 0" "?buf ! 1 = d ! 1"
    using n(1) by - (rule nth_buffer, force)+
  define k where "k = unat (d ! 1)"
  have k: "2 + k + 2 \<le> ?n" "k = 4 \<or> k = 16" using n(3,4) hd by (simp_all add: k_def)
  then have "length (go_slice d 2 (2 + k)) = k" "length (go_slice d (2 + k) (2 + k + 2)) = 2"
    by (auto simp: length_go_slice)
  moreover have "a = \<lparr> IP = go_slice d 2 (2 + k), Port = uint (get16 (go_slice d (2 + k) (2 + k + 2))) \<rparr>"
    using a go_slice_buffer [of 2 "2 + k" 64 d] go_slice_buffer [of "2 + k" "2 + k + 2" 64 d] k(1)
    unfolding hd(2) k_def [symmetric] by (simp only: UDPAddr.simps min.bounded_iff) force
  moreover have "d = d ! 0 # d ! 1 # go_slice d 2 (2 + k) @ go_slice d (2 + k) (2 + k + 2) @ drop (2 + k + 2) d"
    using k(1) by (intro split_endpoint) simp
  moreover have "d ! 0 = BeaconMsgDiscoverReply K" "d ! 1 = of_nat k" using n(2) hd by (simp_all add: k_def)
  ultimately show ?rhs
    using k(2) u16_codec.enc_dec [of "go_slice d (2 + k) (2 + k + 2)"]
    by (rule_tac exI [of _ "go_slice d 2 (2 + k)"], rule_tac exI [of _ "get16 (go_slice d (2 + k) (2 + k + 2))"],
        rule_tac exI [of _ "drop (2 + k + 2) d"]) simp
qed

end
