(* ===== verification/Key_Exchange.thy ===== *)
theory Key_Exchange
  imports Key_Store Routing
begin

text \<open>
  The key exchange of \<^verbatim>\<open>src/pkg/daemon/keyexchange\<close> (\<^verbatim>\<open>keyexchange.go\<close>,
  \<^verbatim>\<open>handle.go\<close>, \<^verbatim>\<open>loop.go\<close>, \<^verbatim>\<open>bootstrap.go\<close>, \<^verbatim>\<open>frame.go\<close>, \<^verbatim>\<open>derive.go\<close>).

  The manager calls back into the daemon (sender, address lookup, event bus, post-install,
  retransmit and give-up hooks). The callbacks run inside the operations and change state, so
  the operations work on a pair of the manager and a world \<open>'w\<close>, and the callbacks are
  transformers of that pair, collected in a record \<open>kx_env\<close> with the clock, the random
  source, the registry lookup and the cryptographic primitives: X25519, HMAC-SHA256, Ed25519
  signing and verification. A callback that was never set is \<open>None\<close>. Log lines are left out.

  A \<^verbatim>\<open>*Crypto\<close> is a pointer into the heap of the key store; \<open>nextCrypto\<close> is the next
  address handed out. A nil slice is \<open>None\<close>.
\<close>

section \<open>State\<close>

definition RekeyRetransmitInterval :: duration where "RekeyRetransmitInterval = 4 * second"
definition MaxRekeyAttempts :: int where "MaxRekeyAttempts = 5"
definition KeyExchangeReplyStaleThreshold :: duration where "KeyExchangeReplyStaleThreshold = 6 * second"
definition KeyExchangeReplyMinInterval :: duration where "KeyExchangeReplyMinInterval = 1 * second"
definition rekeyGaveUpCooldown :: duration where "rekeyGaveUpCooldown = 5 * second"
definition DuplicateHandshakeDebounce :: duration where "DuplicateHandshakeDebounce = 250 * millisecond"
definition NegativePubKeyCacheTTL :: duration where "NegativePubKeyCacheTTL = 3 * second"
definition MaxNegPubKeyEntries :: nat where "MaxNegPubKeyEntries = 4096"
definition KeyRequestAfterSends :: int where "KeyRequestAfterSends = 1"
definition maxRetransmitsPerTick :: nat where "maxRetransmitsPerTick = 64"

lemmas kx_consts =
  RekeyRetransmitInterval_def MaxRekeyAttempts_def KeyExchangeReplyStaleThreshold_def
  KeyExchangeReplyMinInterval_def rekeyGaveUpCooldown_def DuplicateHandshakeDebounce_def
  NegativePubKeyCacheTTL_def MaxNegPubKeyEntries_def KeyRequestAfterSends_def maxRetransmitsPerTick_def

record PendingRekeyState =
  FirstSentAt :: instant
  LastSentAt :: instant
  Attempts :: int

record PostInstallEvent =
  EvPeerNodeID :: node_id
  EvFrom :: "UDPAddr option"
  EvFromRelay :: bool
  EvAuthenticated :: bool
  EvHadCrypto :: bool
  EvKeyChanged :: bool
  EvOldCrypto :: "cptr option"
  EvNewCrypto :: cptr
  EvPeerEd25519 :: "bytes option"

record KxManager =
  env :: Store
  nextCrypto :: cptr
  identity :: "bytes option"
  privKey :: "bytes option"
  pubKey :: "bytes option"
  kxLocalNodeIDFn :: "node_id option"
  peerPubKeys :: "node_id \<rightharpoonup> bytes option"
  negPubKeys :: "node_id \<rightharpoonup> instant"
  pendingRekey :: "node_id \<rightharpoonup> PendingRekeyState"
  lastInboundDecrypt :: "node_id \<rightharpoonup> instant"
  rekeyGaveUp :: "node_id \<rightharpoonup> instant"
  lastKeyExchangeReply :: "node_id \<rightharpoonup> instant"
  keyRequestDue :: "node_id \<rightharpoonup> unit"
  keyRequestsSent :: u64
  replyWhitelist :: "node_id set option"
  replyWhitelistAll :: bool

text \<open>
  The events published on the bus: a tunnel was established (authenticated, via relay,
  rekeyed, and the peer when it may be named), and the retransmit loop gave up on a peer.
\<close>

datatype kx_event = TunnelEstablished bool bool bool "node_id option" | RekeyGaveUpEvent node_id

record 'w kx_env =
  kx_now :: instant
  kx_rand :: "bytes option"
  kx_verifyFunc :: "(node_id \<Rightarrow> bytes option option) option"
  kx_x25519 :: "bytes \<Rightarrow> bytes \<Rightarrow> bytes option"
  kx_hmac :: "bytes \<Rightarrow> bytes \<Rightarrow> bytes"
  kx_sign :: "bytes \<Rightarrow> bytes \<Rightarrow> bytes"
  kx_verify :: "bytes \<Rightarrow> bytes \<Rightarrow> bytes \<Rightarrow> bool"
  kx_magicAuthEx :: bytes
  kx_magicKeyEx :: bytes
  kx_sender :: "(node_id \<Rightarrow> UDPAddr option \<Rightarrow> bytes \<Rightarrow> KxManager \<times> 'w \<Rightarrow> bool \<times> KxManager \<times> 'w) option"
  kx_addrLookup :: "(node_id \<Rightarrow> 'w \<Rightarrow> UDPAddr option) option"
  kx_publisher :: "(kx_event \<Rightarrow> 'w \<Rightarrow> 'w) option"
  kx_postInstall :: "(PostInstallEvent \<Rightarrow> KxManager \<times> 'w \<Rightarrow> KxManager \<times> 'w) option"
  kx_preRetx :: "(node_id \<Rightarrow> int \<Rightarrow> KxManager \<times> 'w \<Rightarrow> KxManager \<times> 'w) option"
  kx_onGaveUp :: "(node_id \<Rightarrow> KxManager \<times> 'w \<Rightarrow> KxManager \<times> 'w) option"
  kx_trustFn :: "(node_id \<Rightarrow> bool) option"

definition kx_New :: "Store \<Rightarrow> cptr \<Rightarrow> KxManager" where
  "kx_New store p = \<lparr> env = store, nextCrypto = p, identity = None, privKey = None, pubKey = None,
    kxLocalNodeIDFn = None, peerPubKeys = Map.empty, negPubKeys = Map.empty, pendingRekey = Map.empty,
    lastInboundDecrypt = Map.empty, rekeyGaveUp = Map.empty, lastKeyExchangeReply = Map.empty,
    keyRequestDue = Map.empty, keyRequestsSent = 0, replyWhitelist = None, replyWhitelistAll = False \<rparr>"

definition SetIdentity :: "bytes option \<Rightarrow> KxManager \<Rightarrow> KxManager" where
  "SetIdentity i m = m\<lparr> identity := i \<rparr>"

definition HasIdentity :: "KxManager \<Rightarrow> bool" where
  "HasIdentity m = (identity m \<noteq> None)"

definition SetX25519Keys :: "bytes option \<Rightarrow> bytes option \<Rightarrow> KxManager \<Rightarrow> KxManager" where
  "SetX25519Keys priv pub m = m\<lparr> privKey := priv, pubKey := pub \<rparr>"

definition kx_localNodeID :: "KxManager \<Rightarrow> node_id" where
  "kx_localNodeID m = (case kxLocalNodeIDFn m of None \<Rightarrow> 0 | Some i \<Rightarrow> i)"

definition publish :: "'w kx_env \<Rightarrow> kx_event \<Rightarrow> 'w \<Rightarrow> 'w" where
  "publish E ev w = (case kx_publisher E of None \<Rightarrow> w | Some p \<Rightarrow> p ev w)"

section \<open>Peer identities\<close>

definition recordNegPubKey :: "instant \<Rightarrow> node_id \<Rightarrow> KxManager \<Rightarrow> KxManager" where
  "recordNegPubKey now nodeID m =
    (if negPubKeys m nodeID = None \<and> MaxNegPubKeyEntries \<le> map_len (negPubKeys m) then
       let m1 = m\<lparr> negPubKeys := map_prune (\<lambda>at. NegativePubKeyCacheTTL \<le> time_sub now at) (negPubKeys m) \<rparr> in
       if MaxNegPubKeyEntries \<le> map_len (negPubKeys m1) then m1
       else m1\<lparr> negPubKeys := (negPubKeys m1)(nodeID \<mapsto> now) \<rparr>
     else m\<lparr> negPubKeys := (negPubKeys m)(nodeID \<mapsto> now) \<rparr>)"

text \<open>The result is \<open>None\<close> for an error; \<open>Some None\<close> is a nil key without an error.\<close>

definition GetPeerPubKey :: "'w kx_env \<Rightarrow> node_id \<Rightarrow> KxManager \<Rightarrow> bytes option option \<times> KxManager" where
  "GetPeerPubKey E nodeID m =
    (case peerPubKeys m nodeID of Some pk \<Rightarrow> (Some pk, m)
     | None \<Rightarrow>
       if (case negPubKeys m nodeID of None \<Rightarrow> False
           | Some negAt \<Rightarrow> time_sub (kx_now E) negAt < NegativePubKeyCacheTTL)
       then (None, m)
       else case kx_verifyFunc E of None \<Rightarrow> (None, m)
       | Some fn \<Rightarrow>
         (case fn nodeID of None \<Rightarrow> (None, recordNegPubKey (kx_now E) nodeID m)
          | Some pk \<Rightarrow> (Some pk, m\<lparr> peerPubKeys := (peerPubKeys m)(nodeID \<mapsto> pk),
                                  negPubKeys := (negPubKeys m)(nodeID := None) \<rparr>)))"

definition PeerPubKeyCached :: "node_id \<Rightarrow> KxManager \<Rightarrow> bytes option option" where
  "PeerPubKeyCached nodeID m = peerPubKeys m nodeID"

definition SetPeerPubKey :: "node_id \<Rightarrow> bytes \<Rightarrow> KxManager \<Rightarrow> KxManager" where
  "SetPeerPubKey nodeID pk m = m\<lparr> peerPubKeys := (peerPubKeys m)(nodeID \<mapsto> Some pk) \<rparr>"

definition InvalidatePeerPubKey :: "node_id \<Rightarrow> KxManager \<Rightarrow> KxManager" where
  "InvalidatePeerPubKey nodeID m = m\<lparr> peerPubKeys := (peerPubKeys m)(nodeID := None) \<rparr>"

definition HasPeerPubKey :: "node_id \<Rightarrow> KxManager \<Rightarrow> bool" where
  "HasPeerPubKey nodeID m = (peerPubKeys m nodeID \<noteq> None)"

section \<open>Pending exchanges\<close>

definition MarkPendingRekey :: "instant \<Rightarrow> node_id \<Rightarrow> KxManager \<Rightarrow> bool \<times> KxManager" where
  "MarkPendingRekey now peer m =
    (let mark = (\<lambda>m. let st = (case pendingRekey m peer of
                          None \<Rightarrow> \<lparr> FirstSentAt = now, LastSentAt = 0, Attempts = 0 \<rparr> | Some st \<Rightarrow> st) in
           m\<lparr> pendingRekey := (pendingRekey m)(peer \<mapsto> st\<lparr> LastSentAt := now, Attempts := Attempts st + 1 \<rparr>) \<rparr>) in
     case rekeyGaveUp m peer of
       Some gaveUpAt \<Rightarrow>
         if time_sub now gaveUpAt < rekeyGaveUpCooldown then (False, m)
         else (True, mark (m\<lparr> rekeyGaveUp := (rekeyGaveUp m)(peer := None) \<rparr>))
     | None \<Rightarrow> (True, mark m))"

definition ClearPendingRekey :: "node_id \<Rightarrow> KxManager \<Rightarrow> KxManager" where
  "ClearPendingRekey peer m = m\<lparr> pendingRekey := (pendingRekey m)(peer := None) \<rparr>"

definition ResetPendingRekeyAttempts :: "node_id \<Rightarrow> KxManager \<Rightarrow> KxManager" where
  "ResetPendingRekeyAttempts peer m =
    (case pendingRekey m peer of None \<Rightarrow> m
     | Some st \<Rightarrow> m\<lparr> pendingRekey := (pendingRekey m)(peer \<mapsto> st\<lparr> Attempts := 0, LastSentAt := 0 \<rparr>) \<rparr>)"

definition kx_ClearRekeyGaveUp :: "node_id \<Rightarrow> KxManager \<Rightarrow> KxManager" where
  "kx_ClearRekeyGaveUp peer m = m\<lparr> rekeyGaveUp := (rekeyGaveUp m)(peer := None) \<rparr>"

definition kx_PeerInRekeyGaveUp :: "instant \<Rightarrow> node_id \<Rightarrow> KxManager \<Rightarrow> bool" where
  "kx_PeerInRekeyGaveUp now peer m =
    (case rekeyGaveUp m peer of None \<Rightarrow> False | Some t \<Rightarrow> time_sub now t < rekeyGaveUpCooldown)"

definition PendingRekeyAttempts :: "node_id \<Rightarrow> KxManager \<Rightarrow> int" where
  "PendingRekeyAttempts peer m = (case pendingRekey m peer of None \<Rightarrow> 0 | Some st \<Rightarrow> Attempts st)"

definition PendingRekeyHas :: "node_id \<Rightarrow> KxManager \<Rightarrow> bool" where
  "PendingRekeyHas peer m = (pendingRekey m peer \<noteq> None)"

definition RecordInboundDecrypt :: "instant \<Rightarrow> node_id \<Rightarrow> KxManager \<Rightarrow> KxManager" where
  "RecordInboundDecrypt now peer m = m\<lparr> lastInboundDecrypt := (lastInboundDecrypt m)(peer \<mapsto> now) \<rparr>"

definition kx_LastInboundDecrypt :: "node_id \<Rightarrow> KxManager \<Rightarrow> instant option" where
  "kx_LastInboundDecrypt peer m = lastInboundDecrypt m peer"

definition InboundDecryptStale :: "instant \<Rightarrow> node_id \<Rightarrow> KxManager \<Rightarrow> bool" where
  "InboundDecryptStale now peer m =
    (case lastInboundDecrypt m peer of None \<Rightarrow> True
     | Some t \<Rightarrow> time_sub now t > KeyExchangeReplyStaleThreshold)"

definition MarkReplyKeyExchangeSent :: "instant \<Rightarrow> node_id \<Rightarrow> KxManager \<Rightarrow> bool \<times> KxManager" where
  "MarkReplyKeyExchangeSent now peer m =
    (let whitelisted =
           (if replyWhitelistAll m then True
            else case replyWhitelist m of None \<Rightarrow> False | Some wl \<Rightarrow> peer \<in> wl) in
     if \<not> whitelisted \<and>
        (case lastKeyExchangeReply m peer of None \<Rightarrow> False
         | Some lastAt \<Rightarrow> time_sub now lastAt < KeyExchangeReplyMinInterval)
     then (False, m)
     else (True, m\<lparr> lastKeyExchangeReply := (lastKeyExchangeReply m)(peer \<mapsto> now) \<rparr>))"

definition kx_SetReplyWhitelist :: "node_id list \<Rightarrow> KxManager \<Rightarrow> KxManager" where
  "kx_SetReplyWhitelist nodeIDs m = m\<lparr> replyWhitelist := Some {i \<in> set nodeIDs. i \<noteq> 0} \<rparr>"

definition kx_SetReplyWhitelistMatchAll :: "bool \<Rightarrow> KxManager \<Rightarrow> KxManager" where
  "kx_SetReplyWhitelistMatchAll on m = m\<lparr> replyWhitelistAll := on \<rparr>"

definition kx_PeerStateEntries :: "KxManager \<Rightarrow> nat" where
  "kx_PeerStateEntries m =
    map_len (peerPubKeys m) + map_len (negPubKeys m) + map_len (pendingRekey m) +
    map_len (lastInboundDecrypt m) + map_len (rekeyGaveUp m) + map_len (lastKeyExchangeReply m) +
    map_len (keyRequestDue m)"

definition kx_PeerIDs :: "KxManager \<Rightarrow> node_id set" where
  "kx_PeerIDs m = dom (peerPubKeys m) \<union> dom (negPubKeys m) \<union> dom (pendingRekey m) \<union>
    dom (lastInboundDecrypt m) \<union> dom (lastKeyExchangeReply m) \<union> dom (keyRequestDue m)"

definition kx_RemovePeer :: "node_id \<Rightarrow> KxManager \<Rightarrow> KxManager" where
  "kx_RemovePeer nodeID m = m\<lparr>
    peerPubKeys := (peerPubKeys m)(nodeID := None),
    negPubKeys := (negPubKeys m)(nodeID := None),
    pendingRekey := (pendingRekey m)(nodeID := None),
    lastInboundDecrypt := (lastInboundDecrypt m)(nodeID := None),
    lastKeyExchangeReply := (lastKeyExchangeReply m)(nodeID := None),
    keyRequestDue := (keyRequestDue m)(nodeID := None) \<rparr>"

definition MarkKeyRequestDue :: "node_id \<Rightarrow> KxManager \<Rightarrow> KxManager" where
  "MarkKeyRequestDue peer m =
    (if map_len (keyRequestDue m) < MaxNegPubKeyEntries
     then m\<lparr> keyRequestDue := (keyRequestDue m)(peer \<mapsto> ()) \<rparr> else m)"

definition takeKeyRequest :: "node_id \<Rightarrow> KxManager \<Rightarrow> bool \<times> KxManager" where
  "takeKeyRequest peer m =
    (if keyRequestDue m peer \<noteq> None then (True, m\<lparr> keyRequestDue := (keyRequestDue m)(peer := None) \<rparr>)
     else (case pendingRekey m peer of None \<Rightarrow> False | Some st \<Rightarrow> Attempts st \<ge> KeyRequestAfterSends, m))"

section \<open>Frames\<close>

text \<open>\<^verbatim>\<open>copy\<close> into a zeroed field of \<open>n\<close> bytes.\<close>

definition go_copy :: "nat \<Rightarrow> bytes \<Rightarrow> bytes" where
  "go_copy n bs = take n (bs @ replicate n 0)"

definition authChallenge :: "node_id \<Rightarrow> bytes \<Rightarrow> bytes" where
  "authChallenge nodeID x25519PubKey = [97, 117, 116, 104] @ put32 nodeID @ go_copy 32 x25519PubKey"

definition BuildAuthFrame :: "'w kx_env \<Rightarrow> KxManager \<Rightarrow> bytes option" where
  "BuildAuthFrame E m =
    (case pubKey m of None \<Rightarrow> None
     | Some pub \<Rightarrow>
       (case identity m of None \<Rightarrow> None
        | Some ed \<Rightarrow>
          let nodeID = kx_localNodeID m;
              signature = kx_sign E ed (authChallenge nodeID pub) in
          Some (go_copy 4 (kx_magicAuthEx E) @ put32 nodeID @ go_copy 32 pub @ go_copy 32 ed @
                go_copy 64 signature)))"

definition BuildUnauthFrame :: "'w kx_env \<Rightarrow> KxManager \<Rightarrow> bytes option" where
  "BuildUnauthFrame E m =
    (case pubKey m of None \<Rightarrow> None
     | Some pub \<Rightarrow> Some (go_copy 4 (kx_magicKeyEx E) @ put32 (kx_localNodeID m) @ go_copy 32 pub))"

text \<open>
  \<^verbatim>\<open>DeriveSecret\<close> allocates a \<^verbatim>\<open>Crypto\<close>. The AES key has the 32 bytes of an HMAC-SHA256
  output, so the cipher constructors cannot fail and have no branch here.
\<close>

definition HKDFInfo :: bytes where
  "HKDFInfo = map (\<lambda>c. of_nat (of_char c)) ''pilot-tunnel-v1''"

definition hkdf_key :: "'w kx_env \<Rightarrow> bytes \<Rightarrow> aead_key" where
  "hkdf_key E shared = (let prk = kx_hmac E [] shared in kx_hmac E prk (HKDFInfo @ [1]))"

definition fresh_crypto :: "instant \<Rightarrow> aead_key \<Rightarrow> bytes \<Rightarrow> bytes \<Rightarrow> Crypto" where
  "fresh_crypto now key prefix peerKey =
    \<lparr> AEAD = key, Nonce = 0, NoncePrefix = go_copy 4 prefix, MaxRecvNonce = 0,
      ReplayBitmap = replicate (ReplayWindowSize div 64) 0, Ready = True, Authenticated = False,
      PeerX25519Key = go_copy 32 peerKey, DecryptFailCount = 0, OutsideWindowCount = 0, ReplayCount = 0,
      CreatedAt = now, Salvage = [] \<rparr>"

definition DeriveSecret :: "'w kx_env \<Rightarrow> bytes \<Rightarrow> KxManager \<Rightarrow> cptr option \<times> KxManager" where
  "DeriveSecret E peerPub m =
    (case privKey m of None \<Rightarrow> (None, m)
     | Some priv \<Rightarrow>
       (case kx_x25519 E priv peerPub of None \<Rightarrow> (None, m)
        | Some shared \<Rightarrow>
          (case kx_rand E of None \<Rightarrow> (None, m)
           | Some prefix \<Rightarrow>
             let p = nextCrypto m in
             (Some p, m\<lparr> env := set_crypto p (fresh_crypto (kx_now E) (hkdf_key E shared) prefix peerPub) (env m),
                        nextCrypto := Suc p \<rparr>))))"

section \<open>Sending a key exchange\<close>

text \<open>The frame to send, and whether it is authenticated.\<close>

definition choose_frame :: "'w kx_env \<Rightarrow> KxManager \<Rightarrow> bytes \<Rightarrow> bytes \<times> bool" where
  "choose_frame E m unauthFrame =
    (case (if HasIdentity m then BuildAuthFrame E m else None) of
       None \<Rightarrow> (unauthFrame, False) | Some authFrame \<Rightarrow> (authFrame, True))"

text \<open>Whether the send carries a key request; consumes a due mark.\<close>

definition key_request :: "node_id \<Rightarrow> bool \<Rightarrow> KxManager \<Rightarrow> bool \<times> KxManager" where
  "key_request peer authed m = (if authed \<and> \<not> Has peer (env m) then takeKeyRequest peer m else (False, m))"

text \<open>The second frame; the result says whether it went out.\<close>

definition send_request ::
    "(KxManager \<times> 'w \<Rightarrow> bool \<times> KxManager \<times> 'w) \<Rightarrow> bool \<Rightarrow> KxManager \<times> 'w \<Rightarrow> bool \<times> KxManager \<times> 'w" where
  "send_request sendUnauth keyRequest mw =
    (if keyRequest then
       (case sendUnauth mw of
          (False, m, w) \<Rightarrow> (False, m, w)
        | (True, m, w) \<Rightarrow> (True, m\<lparr> keyRequestsSent := keyRequestsSent m + 1 \<rparr>, w))
     else (False, mw))"

definition SendKeyExchangeToNode :: "'w kx_env \<Rightarrow> node_id \<Rightarrow> KxManager \<times> 'w \<Rightarrow> bool \<times> KxManager \<times> 'w" where
  "SendKeyExchangeToNode E peer mw =
    (case mw of (m, w) \<Rightarrow>
     case kx_sender E of None \<Rightarrow> (False, m, w)
     | Some sender \<Rightarrow>
       let addr = (case kx_addrLookup E of None \<Rightarrow> None | Some lk \<Rightarrow> lk peer w) in
       case BuildUnauthFrame E m of None \<Rightarrow> (False, m, w)
       | Some unauthFrame \<Rightarrow>
         (case choose_frame E m unauthFrame of (frame, authed) \<Rightarrow>
          case key_request peer authed m of (keyRequest, m1) \<Rightarrow>
          case sender peer addr frame (m1, w) of
            (False, m2, w2) \<Rightarrow> (False, m2, w2)
          | (True, m2, w2) \<Rightarrow>
            (case send_request (sender peer addr unauthFrame) keyRequest (m2, w2) of
               (sent, m3, w3) \<Rightarrow> (sent, snd (MarkPendingRekey (kx_now E) peer m3), w3))))"

section \<open>Handling a key exchange\<close>

text \<open>
  The lookup of the sender's identity in \<^verbatim>\<open>HandleAuthFrame\<close>: the key of the registry, fetched
  again when the key in the frame differs from the cached one. \<open>None\<close> is a rejection.
\<close>

definition expected_key :: "'w kx_env \<Rightarrow> node_id \<Rightarrow> bytes \<Rightarrow> KxManager \<Rightarrow> bytes option \<times> KxManager" where
  "expected_key E peer ed m =
    (case GetPeerPubKey E peer m of
       (Some (Some expected), m1) \<Rightarrow>
         if ed = expected then (Some expected, m1)
         else (case GetPeerPubKey E peer (InvalidatePeerPubKey peer m1) of
                 (Some (Some expected2), m2) \<Rightarrow> (if ed = expected2 then Some expected2 else None, m2)
               | (_, m2) \<Rightarrow> (None, m2))
     | (_, m1) \<Rightarrow> (None, m1))"

text \<open>
  What both handlers compute about the installed key and the derived one: whether there was
  one, whether the peer's ephemeral key changed, and whether the frame is a duplicate within
  the debounce window.
\<close>

definition key_changed :: "cptr option \<Rightarrow> cptr \<Rightarrow> Store \<Rightarrow> bool" where
  "key_changed oldPC pc s =
    (case oldPC of None \<Rightarrow> False
     | Some old \<Rightarrow> PeerX25519Key (heap s old) \<noteq> PeerX25519Key (heap s pc))"

definition duplicate_frame :: "instant \<Rightarrow> cptr option \<Rightarrow> bool \<Rightarrow> Store \<Rightarrow> bool" where
  "duplicate_frame now oldPC keyChanged s =
    (case oldPC of None \<Rightarrow> False
     | Some old \<Rightarrow> \<not> keyChanged \<and> time_sub now (CreatedAt (heap s old)) < DuplicateHandshakeDebounce)"

text \<open>The bus event and the post-install hook, skipped for a duplicate.\<close>

definition announce_key :: "'w kx_env \<Rightarrow> PostInstallEvent \<Rightarrow> KxManager \<times> 'w \<Rightarrow> KxManager \<times> 'w" where
  "announce_key E ev mw =
    (case mw of (m, w) \<Rightarrow>
     let named = (case kx_trustFn E of None \<Rightarrow> True | Some f \<Rightarrow> f (EvPeerNodeID ev));
         w1 = publish E (TunnelEstablished (EvAuthenticated ev) (EvFromRelay ev) (EvKeyChanged ev)
                (if named then Some (EvPeerNodeID ev) else None)) w in
     case kx_postInstall E of None \<Rightarrow> (m, w1) | Some h \<Rightarrow> h ev (m, w1))"

text \<open>The key-table step: install the derived key unless the peer's ephemeral key is the same.\<close>

definition install_derived :: "node_id \<Rightarrow> cptr \<Rightarrow> Store \<Rightarrow> Store" where
  "install_derived peer pc s =
    (let oldPC = Get peer s in
     if oldPC = None \<or> key_changed oldPC pc s then Install peer pc s else s)"

text \<open>The reply of \<^verbatim>\<open>HandleAuthFrame\<close>.\<close>

definition auth_reply :: "'w kx_env \<Rightarrow> node_id \<Rightarrow> bool \<Rightarrow> KxManager \<times> 'w \<Rightarrow> KxManager \<times> 'w" where
  "auth_reply E peer fresh mw =
    (case mw of (m, w) \<Rightarrow>
     if fresh then
       (case SendKeyExchangeToNode E peer (m, w) of (_, m1, w1) \<Rightarrow> (ClearPendingRekey peer m1, w1))
     else if InboundDecryptStale (kx_now E) peer m then
       (case MarkReplyKeyExchangeSent (kx_now E) peer m of
          (True, m1) \<Rightarrow> (case SendKeyExchangeToNode E peer (m1, w) of
                          (_, m2, w2) \<Rightarrow> (ClearPendingRekey peer m2, w2))
        | (False, m1) \<Rightarrow> (ClearPendingRekey peer m1, w))
     else (ClearPendingRekey peer m, w))"

text \<open>What follows a verified frame, from the derived key on.\<close>

definition accept_auth ::
    "'w kx_env \<Rightarrow> node_id \<Rightarrow> bytes \<Rightarrow> UDPAddr option \<Rightarrow> bool \<Rightarrow> cptr \<Rightarrow> KxManager \<times> 'w \<Rightarrow> KxManager \<times> 'w" where
  "accept_auth E peer ed from fromRelay pc mw =
    (case mw of (m, w) \<Rightarrow>
     let s = set_crypto pc ((heap (env m) pc)\<lparr> Authenticated := True \<rparr>) (env m);
         oldPC = Get peer s;
         hadCrypto = (oldPC \<noteq> None);
         keyChanged = key_changed oldPC pc s;
         duplicate = duplicate_frame (kx_now E) oldPC keyChanged s;
         m1 = SetPeerPubKey peer ed (m\<lparr> env := install_derived peer pc s \<rparr>);
         mw2 = (if duplicate then (m1, w)
                else announce_key E
                  \<lparr> EvPeerNodeID = peer, EvFrom = from, EvFromRelay = fromRelay, EvAuthenticated = True,
                    EvHadCrypto = hadCrypto, EvKeyChanged = keyChanged, EvOldCrypto = oldPC,
                    EvNewCrypto = pc, EvPeerEd25519 = Some ed \<rparr> (m1, w)) in
     auth_reply E peer (\<not> hadCrypto \<or> keyChanged) mw2)"

definition HandleAuthFrame ::
    "'w kx_env \<Rightarrow> bytes \<Rightarrow> UDPAddr option \<Rightarrow> bool \<Rightarrow> KxManager \<times> 'w \<Rightarrow> bool \<times> KxManager \<times> 'w" where
  "HandleAuthFrame E data from fromRelay mw =
    (case mw of (m0, w0) \<Rightarrow>
     if length data < 4 + 32 + 32 + 64 then (False, m0, w0)
     else
       let peer = get32 (go_slice data 0 4); xkey = go_slice data 4 36; ed = go_slice data 36 68;
           signature = go_slice data 68 132 in
       if privKey m0 = None then (False, m0, w0)
       else case expected_key E peer ed m0 of
         (None, m1) \<Rightarrow> (False, m1, w0)
       | (Some expected, m1) \<Rightarrow>
         if \<not> kx_verify E expected (authChallenge peer xkey) signature then (False, m1, w0)
         else case DeriveSecret E xkey m1 of
           (None, m2) \<Rightarrow> (False, m2, w0)
         | (Some pc, m2) \<Rightarrow> (True, accept_auth E peer ed from fromRelay pc (m2, w0)))"

text \<open>The same for a frame without authentication.\<close>

definition accept_unauth ::
    "'w kx_env \<Rightarrow> node_id \<Rightarrow> UDPAddr option \<Rightarrow> bool \<Rightarrow> cptr \<Rightarrow> KxManager \<times> 'w \<Rightarrow> KxManager \<times> 'w" where
  "accept_unauth E peer from fromRelay pc mw =
    (case mw of (m, w) \<Rightarrow>
     let s = env m;
         oldPC = Get peer s;
         hadCrypto = (oldPC \<noteq> None);
         keyChanged = key_changed oldPC pc s;
         duplicate = duplicate_frame (kx_now E) oldPC keyChanged s;
         m1 = m\<lparr> env := install_derived peer pc s \<rparr>;
         (m2, w2) = (if duplicate then (m1, w)
                else announce_key E
                  \<lparr> EvPeerNodeID = peer, EvFrom = from, EvFromRelay = fromRelay, EvAuthenticated = False,
                    EvHadCrypto = hadCrypto, EvKeyChanged = keyChanged, EvOldCrypto = oldPC,
                    EvNewCrypto = pc, EvPeerEd25519 = None \<rparr> (m1, w));
         (m3, w3) = (if \<not> hadCrypto \<or> keyChanged then snd (SendKeyExchangeToNode E peer (m2, w2)) else (m2, w2)) in
     (ClearPendingRekey peer m3, w3))"

definition HandleUnauthFrame ::
    "'w kx_env \<Rightarrow> bytes \<Rightarrow> UDPAddr option \<Rightarrow> bool \<Rightarrow> KxManager \<times> 'w \<Rightarrow> bool \<times> KxManager \<times> 'w" where
  "HandleUnauthFrame E data from fromRelay mw =
    (case mw of (m0, w0) \<Rightarrow>
     if length data < 36 then (False, m0, w0)
     else
       let peer = get32 (go_slice data 0 4); xkey = go_slice data 4 36 in
       if privKey m0 = None then (False, m0, w0)
       else
         let hadCryptoPre = Has peer (env m0);
             cryptoSize = Len (env m0) in
         case (if HasIdentity m0 then
                 (case GetPeerPubKey E peer m0 of (r, m) \<Rightarrow> (r \<noteq> None \<and> r \<noteq> Some None, m))
               else (False, m0)) of
           (True, m1) \<Rightarrow> (False, snd (SendKeyExchangeToNode E peer (m1, w0)))
         | (False, m1) \<Rightarrow>
           if \<not> hadCryptoPre \<and> MaxCryptoPeers \<le> cryptoSize then (False, m1, w0)
           else (case DeriveSecret E xkey m1 of
               (None, m2) \<Rightarrow> (False, m2, w0)
             | (Some pc, m2) \<Rightarrow> (True, accept_unauth E peer from fromRelay pc (m2, w0))))"

section \<open>The retransmit loop\<close>

text \<open>
  One tick. The order in which the map is visited is the argument \<open>order\<close>, an enumeration
  of the pending peers.
\<close>

definition must_give_up :: "KxManager \<Rightarrow> node_id \<Rightarrow> bool" where
  "must_give_up m peer = (case pendingRekey m peer of None \<Rightarrow> False | Some st \<Rightarrow> Attempts st \<ge> MaxRekeyAttempts + 1)"

definition must_retry :: "instant \<Rightarrow> KxManager \<Rightarrow> node_id \<Rightarrow> bool" where
  "must_retry now m peer =
    (case pendingRekey m peer of None \<Rightarrow> False
     | Some st \<Rightarrow> \<not> Attempts st \<ge> MaxRekeyAttempts + 1 \<and> \<not> time_sub now (LastSentAt st) < RekeyRetransmitInterval)"

definition give_up :: "instant \<Rightarrow> node_id \<Rightarrow> KxManager \<Rightarrow> KxManager" where
  "give_up now peer m = m\<lparr> pendingRekey := (pendingRekey m)(peer := None),
                            rekeyGaveUp := (rekeyGaveUp m)(peer \<mapsto> now) \<rparr>"

definition retransmit :: "'w kx_env \<Rightarrow> node_id \<times> int \<Rightarrow> KxManager \<times> 'w \<Rightarrow> KxManager \<times> 'w" where
  "retransmit E r mw =
    (let mw1 = (case kx_preRetx E of None \<Rightarrow> mw | Some h \<Rightarrow> h (fst r) (snd r + 1) mw) in
     snd (SendKeyExchangeToNode E (fst r) mw1))"

text \<open>The critical section of the tick: who is given up, who is retried, and the new maps.\<close>

definition tick_decide :: "instant \<Rightarrow> node_id list \<Rightarrow> KxManager \<Rightarrow> node_id list \<times> (node_id \<times> int) list \<times> KxManager" where
  "tick_decide now order m =
    (let toGiveUp = filter (must_give_up m) order;
         toRetry = map (\<lambda>peer. (peer, PendingRekeyAttempts peer m)) (filter (must_retry now m) order);
         m1 = fold (give_up now) toGiveUp m in
     (toGiveUp, toRetry,
      m1\<lparr> rekeyGaveUp := map_prune (\<lambda>t. rekeyGaveUpCooldown \<le> time_sub now t) (rekeyGaveUp m1) \<rparr>))"

definition RekeyRetransmitTick :: "'w kx_env \<Rightarrow> node_id list \<Rightarrow> KxManager \<times> 'w \<Rightarrow> KxManager \<times> 'w" where
  "RekeyRetransmitTick E order mw =
    (case tick_decide (kx_now E) order (fst mw) of (toGiveUp, toRetry, m1) \<Rightarrow>
     let mw1 = (m1, snd mw);
         mw2 = (case kx_onGaveUp E of None \<Rightarrow> mw1 | Some h \<Rightarrow> fold h toGiveUp mw1);
         mw3 = fold (retransmit E) (take maxRetransmitsPerTick toRetry) mw2 in
     (fst mw3, fold (\<lambda>peer. publish E (RekeyGaveUpEvent peer)) toGiveUp (snd mw3)))"

section \<open>What the callbacks may do\<close>

text \<open>
  The part of a key object that identifies the session: everything but the send counter, the
  failure counters and the salvage ring.
\<close>

definition key_view :: "Crypto \<Rightarrow> aead_key \<times> bytes \<times> u64 \<times> u64 list \<times> bool \<times> bool \<times> bytes \<times> instant" where
  "key_view c = (AEAD c, NoncePrefix c, MaxRecvNonce c, ReplayBitmap c, Ready c, Authenticated c,
    PeerX25519Key c, CreatedAt c)"

definition same_keys :: "KxManager \<Rightarrow> KxManager \<Rightarrow> bool" where
  "same_keys m m' \<longleftrightarrow> crypto (env m') = crypto (env m) \<and> nextCrypto m \<le> nextCrypto m' \<and>
    (\<forall>p < nextCrypto m. key_view (heap (env m') p) = key_view (heap (env m) p)) \<and>
    peerPubKeys m' = peerPubKeys m \<and> negPubKeys m' = negPubKeys m \<and>
    identity m' = identity m \<and> privKey m' = privKey m \<and> pubKey m' = pubKey m \<and>
    kxLocalNodeIDFn m' = kxLocalNodeIDFn m"

lemma same_keys_refl [simp]: "same_keys m m"
  by (simp add: same_keys_def)

lemma same_keys_trans [trans]: "\<lbrakk> same_keys m m'; same_keys m' m'' \<rbrakk> \<Longrightarrow> same_keys m m''"
  by (auto simp: same_keys_def)

lemma same_keys_small [simp]:
  "same_keys m0 (ClearPendingRekey i m) = same_keys m0 m"
  "same_keys m0 (snd (MarkPendingRekey t i m)) = same_keys m0 m"
  "same_keys m0 (snd (takeKeyRequest i m)) = same_keys m0 m"
  "same_keys m0 (snd (MarkReplyKeyExchangeSent t i m)) = same_keys m0 m"
  "same_keys m0 (m\<lparr> keyRequestsSent := n \<rparr>) = same_keys m0 m"
  "same_keys m0 (m\<lparr> rekeyGaveUp := g \<rparr>) = same_keys m0 m"
  "same_keys m0 (give_up t i m) = same_keys m0 m"
  "same_keys m0 (RecordInboundDecrypt t i m) = same_keys m0 m"
  "same_keys m0 (kx_ClearRekeyGaveUp i m) = same_keys m0 m"
  "same_keys m0 (ResetPendingRekeyAttempts i m) = same_keys m0 m"
  "same_keys m0 (MarkKeyRequestDue i m) = same_keys m0 m"
  by (auto simp: same_keys_def ClearPendingRekey_def MarkPendingRekey_def takeKeyRequest_def
      MarkReplyKeyExchangeSent_def give_up_def RecordInboundDecrypt_def kx_ClearRekeyGaveUp_def
      ResetPendingRekeyAttempts_def MarkKeyRequestDue_def Let_def split: option.splits)

lemma fold_keeps:
  assumes "\<And>x s. same_keys (proj s) (proj (g x s))"
  shows "same_keys (proj s) (proj (fold g xs s))"
proof (induction xs arbitrary: s)
  case (Cons x xs)
  from assms [of s x] Cons [of "g x s"] show ?case by (auto intro: same_keys_trans)
qed simp

text \<open>
  The contract the key exchange needs from its callbacks: sending a frame and the hooks
  leave the key table, the keys in it and the identities alone. The tunnel proves it for its
  own callbacks.
\<close>

locale kx_wiring =
  fixes E :: "'w kx_env"
  assumes sender_keeps:
      "\<lbrakk> kx_sender E = Some f; f i a d (m, w) = (b, m', w') \<rbrakk> \<Longrightarrow> same_keys m m'"
    and postInstall_keeps:
      "\<lbrakk> kx_postInstall E = Some h; h ev (m, w) = (m', w') \<rbrakk> \<Longrightarrow> same_keys m m'"
    and preRetx_keeps:
      "\<lbrakk> kx_preRetx E = Some g; g i n (m, w) = (m', w') \<rbrakk> \<Longrightarrow> same_keys m m'"
    and onGaveUp_keeps:
      "\<lbrakk> kx_onGaveUp E = Some k; k i (m, w) = (m', w') \<rbrakk> \<Longrightarrow> same_keys m m'"
begin

lemma SendKeyExchangeToNode_keeps:
  assumes "SendKeyExchangeToNode E i (m, w) = (r, m', w')"
  shows "same_keys m m'"
proof (cases "kx_sender E = None \<or> BuildUnauthFrame E m = None")
  case True
  with assms show ?thesis by (auto simp: SendKeyExchangeToNode_def split: option.splits)
next
  case False
  then obtain f unauth where f: "kx_sender E = Some f" and u: "BuildUnauthFrame E m = Some unauth" by auto
  define addr where "addr = (case kx_addrLookup E of None \<Rightarrow> None | Some lk \<Rightarrow> lk i w)"
  obtain frame authed where ch: "choose_frame E m unauth = (frame, authed)" by force
  obtain kr m1 where kr: "key_request i authed m = (kr, m1)" by force
  obtain ok m2 w2 where s1: "f i addr frame (m1, w) = (ok, m2, w2)" by (metis prod_cases3)
  obtain ok3 m3 w3 where s2: "send_request (f i addr unauth) kr (m2, w2) = (ok3, m3, w3)" by (metis prod_cases3)
  have "m1 = m \<or> m1 = snd (takeKeyRequest i m)" using kr by (auto simp: key_request_def split: if_splits)
  then have "same_keys m m1" by auto
  also have "same_keys m1 m2" using sender_keeps [OF f s1] .
  finally have k2: "same_keys m m2" .
  have "same_keys m2 m3"
    using s2 sender_keeps [OF f] by (auto simp: send_request_def split: if_splits bool.splits prod.splits)
  with k2 have "same_keys m m3" by (rule same_keys_trans)
  moreover have "m' = (if ok then snd (MarkPendingRekey (kx_now E) i m3) else m2)"
    using assms by (cases ok) (auto simp: SendKeyExchangeToNode_def f u addr_def [symmetric] ch kr s1 s2)
  ultimately show ?thesis using k2 by simp
qed

lemma announce_key_keeps: "announce_key E ev (m, w) = (m', w') \<Longrightarrow> same_keys m m'"
  by (auto simp: announce_key_def Let_def split: option.splits intro: postInstall_keeps)

lemma retransmit_keeps: "same_keys (fst mw) (fst (retransmit E r mw))"
proof -
  obtain m w where mw: "mw = (m, w)" by force
  obtain m1 w1 where pre: "(case kx_preRetx E of None \<Rightarrow> mw | Some h \<Rightarrow> h (fst r) (snd r + 1) mw) = (m1, w1)" by force
  have "same_keys m m1"
    using pre by (auto simp: mw split: option.splits intro: preRetx_keeps)
  moreover obtain ok m2 w2 where "SendKeyExchangeToNode E (fst r) (m1, w1) = (ok, m2, w2)"
    by (metis prod_cases3)
  ultimately show ?thesis
    using SendKeyExchangeToNode_keeps [of "fst r" m1 w1 ok m2 w2] same_keys_trans [of m m1 m2]
    by (simp add: retransmit_def pre Let_def) (simp add: mw)
qed

lemma tick_decide_keeps: "tick_decide now order m = (toGiveUp, toRetry, m') \<Longrightarrow> same_keys m m'"
  using fold_keeps [of "\<lambda>s. s" "give_up now" m "filter (must_give_up m) order"]
  by (auto simp: tick_decide_def Let_def)

lemma RekeyRetransmitTick_keeps: "same_keys (fst mw) (fst (RekeyRetransmitTick E order mw))"
proof -
  obtain give retry m1 where d: "tick_decide (kx_now E) order (fst mw) = (give, retry, m1)"
    by (metis prod_cases3)
  define mw2 where "mw2 = (case kx_onGaveUp E of None \<Rightarrow> (m1, snd mw) | Some h \<Rightarrow> fold h give (m1, snd mw))"
  have "same_keys m1 (fst mw2)"
  proof (cases "kx_onGaveUp E")
    case (Some h)
    have "same_keys (fst mw) (fst (h x mw))" for x mw
      by (cases mw; cases "h x mw") (auto intro: onGaveUp_keeps [OF Some])
    then show ?thesis using fold_keeps [of fst h "(m1, snd mw)"] Some by (simp add: mw2_def)
  qed (simp add: mw2_def)
  with tick_decide_keeps [OF d] have "same_keys (fst mw) (fst mw2)" by (rule same_keys_trans)
  moreover have "same_keys (fst mw2) (fst (fold (retransmit E) (take maxRetransmitsPerTick retry) mw2))"
    by (rule fold_keeps [of fst, OF retransmit_keeps])
  ultimately have "same_keys (fst mw) (fst (fold (retransmit E) (take maxRetransmitsPerTick retry) mw2))"
    by (rule same_keys_trans)
  then show ?thesis by (simp add: RekeyRetransmitTick_def d Let_def mw2_def)
qed

end

section \<open>Looking up identities and deriving keys\<close>

text \<open>Lookups change the two identity caches only.\<close>

definition same_sessions :: "KxManager \<Rightarrow> KxManager \<Rightarrow> bool" where
  "same_sessions m m' \<longleftrightarrow> env m' = env m \<and> nextCrypto m' = nextCrypto m \<and>
    identity m' = identity m \<and> privKey m' = privKey m \<and> pubKey m' = pubKey m \<and>
    kxLocalNodeIDFn m' = kxLocalNodeIDFn m \<and> pendingRekey m' = pendingRekey m \<and>
    lastInboundDecrypt m' = lastInboundDecrypt m \<and> lastKeyExchangeReply m' = lastKeyExchangeReply m \<and>
    keyRequestDue m' = keyRequestDue m \<and> rekeyGaveUp m' = rekeyGaveUp m"

lemma same_sessions_refl [simp]: "same_sessions m m"
  by (simp add: same_sessions_def)

lemma same_sessions_trans: "\<lbrakk> same_sessions m m'; same_sessions m' m'' \<rbrakk> \<Longrightarrow> same_sessions m m''"
  by (auto simp: same_sessions_def)

lemma GetPeerPubKey_sessions: "same_sessions m (snd (GetPeerPubKey E i m))"
  by (auto simp: GetPeerPubKey_def recordNegPubKey_def same_sessions_def Let_def split: option.splits)

lemma InvalidatePeerPubKey_sessions: "same_sessions m (InvalidatePeerPubKey i m)"
  by (simp add: InvalidatePeerPubKey_def same_sessions_def)

text \<open>The keys the registry vouches for: cached or answered by the lookup.\<close>

definition vouched :: "'w kx_env \<Rightarrow> KxManager \<Rightarrow> node_id \<Rightarrow> bytes \<Rightarrow> bool" where
  "vouched E m i ed \<longleftrightarrow> peerPubKeys m i = Some (Some ed) \<or>
    (\<exists>fn. kx_verifyFunc E = Some fn \<and> fn i = Some (Some ed))"

lemma GetPeerPubKey_vouched: "fst (GetPeerPubKey E i m) = Some (Some ed) \<Longrightarrow> vouched E m i ed"
  by (auto simp: GetPeerPubKey_def vouched_def split: option.splits if_splits)

lemma GetPeerPubKey_cache:
  "peerPubKeys (snd (GetPeerPubKey E i m)) j = Some (Some ed) \<Longrightarrow> vouched E m j ed"
  by (auto simp: GetPeerPubKey_def vouched_def recordNegPubKey_def Let_def
      split: option.splits if_splits)

lemma Invalidate_vouched: "vouched E (InvalidatePeerPubKey i m) j ed \<Longrightarrow> vouched E m j ed"
  by (auto simp: vouched_def InvalidatePeerPubKey_def split: if_splits)

lemma vouched_step:
  assumes "\<And>j ed. peerPubKeys m' j = Some (Some ed) \<Longrightarrow> vouched E m j ed"
  shows "vouched E m' i ed \<Longrightarrow> vouched E m i ed"
  using assms by (auto simp: vouched_def)

lemma expected_key_props:
  assumes "expected_key E i ed m = (r, m')"
  shows "same_sessions m m'"
    and "r = Some pk \<Longrightarrow> pk = ed \<and> vouched E m i ed"
    and "peerPubKeys m' j = Some (Some ed') \<Longrightarrow> vouched E m j ed'"
proof -
  obtain r1 m1 where g1: "GetPeerPubKey E i m = (r1, m1)" by force
  let ?mi = "InvalidatePeerPubKey i m1"
  obtain r2 m2 where g2: "GetPeerPubKey E i ?mi = (r2, m2)" by force
  have s1: "same_sessions m m1" using GetPeerPubKey_sessions [of m E i] g1 by simp
  have s2: "same_sessions m m2"
    using s1 InvalidatePeerPubKey_sessions [of m1 i] GetPeerPubKey_sessions [of ?mi E i] g2
    by (auto intro: same_sessions_trans)
  have c1: "\<And>j e. peerPubKeys m1 j = Some (Some e) \<Longrightarrow> vouched E m j e"
    using GetPeerPubKey_cache [of E i m] g1 by simp
  have v1: "\<And>j e. vouched E ?mi j e \<Longrightarrow> vouched E m j e"
    using vouched_step [OF c1] Invalidate_vouched by blast
  have c2: "\<And>j e. peerPubKeys m2 j = Some (Some e) \<Longrightarrow> vouched E m j e"
    using GetPeerPubKey_cache [of E i ?mi] g2 v1 by auto
  have r1: "r1 = Some (Some e) \<Longrightarrow> vouched E m i e" for e
    using GetPeerPubKey_vouched [of E i m e] g1 by simp
  have r2: "r2 = Some (Some e) \<Longrightarrow> vouched E m i e" for e
    using GetPeerPubKey_vouched [of E i ?mi e] g2 v1 by simp
  show "same_sessions m m'"
    using assms g1 g2 s1 s2 by (auto simp: expected_key_def split: option.splits if_splits)
  show "r = Some pk \<Longrightarrow> pk = ed \<and> vouched E m i ed"
    using assms g1 g2 r1 r2 by (auto simp: expected_key_def split: option.splits if_splits)
  show "peerPubKeys m' j = Some (Some ed') \<Longrightarrow> vouched E m j ed'"
    using assms g1 g2 c1 c2 by (auto simp: expected_key_def split: option.splits if_splits)
qed

lemma DeriveSecret_Some:
  assumes "DeriveSecret E x m = (Some p, m')"
  obtains priv shared prefix where "privKey m = Some priv" "kx_x25519 E priv x = Some shared"
    "kx_rand E = Some prefix" "p = nextCrypto m"
    "m' = m\<lparr> env := set_crypto p (fresh_crypto (kx_now E) (hkdf_key E shared) prefix x) (env m),
             nextCrypto := Suc p \<rparr>"
  using assms by (auto simp: DeriveSecret_def Let_def split: option.splits)

lemma DeriveSecret_None: "DeriveSecret E x m = (None, m') \<Longrightarrow> m' = m"
  by (auto simp: DeriveSecret_def Let_def split: option.splits)

definition kx_wf :: "KxManager \<Rightarrow> bool" where
  "kx_wf m \<longleftrightarrow> (\<forall>i p. crypto (env m) i = Some p \<longrightarrow> p < nextCrypto m)"

lemma same_keys_wf: "\<lbrakk> same_keys m m'; kx_wf m \<rbrakk> \<Longrightarrow> kx_wf m'"
  by (fastforce simp: same_keys_def kx_wf_def)

lemma length_go_copy [simp]: "length (go_copy n bs) = n"
  by (simp add: go_copy_def)

lemma go_copy_id: "length bs = n \<Longrightarrow> go_copy n bs = bs"
  by (simp add: go_copy_def)

section \<open>The key table after a frame\<close>

definition must_install :: "KxManager \<Rightarrow> node_id \<Rightarrow> bytes \<Rightarrow> bool" where
  "must_install m peer xk =
    (case crypto (env m) peer of None \<Rightarrow> True | Some old \<Rightarrow> PeerX25519Key (heap (env m) old) \<noteq> xk)"

text \<open>
  \<open>installs m peer c m'\<close>: the object \<open>c\<close> was allocated and entered for the peer unless the
  peer's key is the one of the installed object; nothing else changed about the keys.
\<close>

definition own_keys :: "KxManager \<Rightarrow> bytes option \<times> bytes option \<times> bytes option \<times> node_id option" where
  "own_keys m = (identity m, privKey m, pubKey m, kxLocalNodeIDFn m)"

definition installs :: "KxManager \<Rightarrow> node_id \<Rightarrow> Crypto \<Rightarrow> KxManager \<Rightarrow> bool" where
  "installs m peer c m' \<longleftrightarrow>
    crypto (env m') = (if must_install m peer (PeerX25519Key c) then (crypto (env m))(peer \<mapsto> nextCrypto m)
                       else crypto (env m)) \<and>
    nextCrypto m < nextCrypto m' \<and> key_view (heap (env m') (nextCrypto m)) = key_view c \<and>
    (\<forall>p < nextCrypto m. key_view (heap (env m') p) = key_view (heap (env m) p)) \<and> own_keys m' = own_keys m"

lemma installs_then_same: "\<lbrakk> installs m peer c m1; same_keys m1 m' \<rbrakk> \<Longrightarrow> installs m peer c m'"
  by (auto simp: installs_def same_keys_def own_keys_def)

lemma install_derived_installs:
  assumes "kx_wf m" and "p = nextCrypto m"
    and "env m' = install_derived peer p (set_crypto p c (env m))" and "nextCrypto m' = Suc p"
    and "own_keys m' = own_keys m"
  shows "installs m peer c m'"
proof -
  have old: "heap (set_crypto p c (env m)) q = heap (env m) q" if "crypto (env m) peer = Some q" for q
    using assms(1,2) that by (intro set_crypto_simps(3)) (auto simp: kx_wf_def)
  have heap: "heap (install_derived peer q s) = heap s" for q s
    by (simp add: install_derived_def Install_def Let_def)
  have "crypto (env m') = (if must_install m peer (PeerX25519Key c) then (crypto (env m))(peer \<mapsto> nextCrypto m)
      else crypto (env m))"
    using old assms(2)
    by (auto simp: assms(3) install_derived_def key_changed_def must_install_def Get_def Install_def Let_def
        split: option.splits)
  then show ?thesis
    using assms(2,4,5) by (auto simp: installs_def assms(3) heap)
qed

lemma installs_wf: "\<lbrakk> kx_wf m; installs m peer c m' \<rbrakk> \<Longrightarrow> kx_wf m'"
  unfolding kx_wf_def installs_def by (force split: if_splits)

text \<open>The object a frame with ephemeral key \<open>x\<close> leads to.\<close>

definition derived :: "'w kx_env \<Rightarrow> KxManager \<Rightarrow> bytes \<Rightarrow> Crypto \<Rightarrow> bool" where
  "derived E m x c \<longleftrightarrow> (\<exists>priv shared prefix. privKey m = Some priv \<and> kx_x25519 E priv x = Some shared \<and>
    kx_rand E = Some prefix \<and> c = fresh_crypto (kx_now E) (hkdf_key E shared) prefix x)"

context kx_wiring
begin

lemma auth_reply_keeps: "same_keys (fst mw) (fst (auth_reply E peer fresh mw))"
proof -
  obtain m w where mw: "mw = (m, w)" by force
  obtain ok m1 where r: "MarkReplyKeyExchangeSent (kx_now E) peer m = (ok, m1)" by force
  have k1: "same_keys m m1" using same_keys_small(4) [of m "kx_now E" peer m] r by simp
  obtain a1 b1 c1 where s1: "SendKeyExchangeToNode E peer (m, w) = (a1, b1, c1)" by (metis prod_cases3)
  obtain a2 b2 c2 where s2: "SendKeyExchangeToNode E peer (m1, w) = (a2, b2, c2)" by (metis prod_cases3)
  have "same_keys m b1" "same_keys m b2"
    using SendKeyExchangeToNode_keeps s1 s2 k1 same_keys_trans by blast+
  then show ?thesis
    using k1 by (cases ok) (simp_all add: auth_reply_def mw s1 s2 r)
qed

lemma accept_auth_installs:
  assumes "kx_wf m" and "p = nextCrypto m" and "env m2 = set_crypto p c (env m)" and "nextCrypto m2 = Suc p"
    and "own_keys m2 = own_keys m"
  shows "installs m peer (c\<lparr> Authenticated := True \<rparr>) (fst (accept_auth E peer ed from fr p (m2, w)))"
    and "peerPubKeys (fst (accept_auth E peer ed from fr p (m2, w))) = (peerPubKeys m2)(peer \<mapsto> Some ed)"
proof -
  let ?c = "c\<lparr> Authenticated := True \<rparr>"
  define s where "s = set_crypto p ((heap (env m2) p)\<lparr> Authenticated := True \<rparr>) (env m2)"
  have s: "s = set_crypto p ?c (env m)" by (simp add: s_def assms(3)) (simp add: set_crypto_def)
  define m1 where "m1 = SetPeerPubKey peer ed (m2\<lparr> env := install_derived peer p s \<rparr>)"
  have inst: "installs m peer ?c m1"
    using assms by (intro install_derived_installs) (simp_all add: m1_def s SetPeerPubKey_def own_keys_def)
  have "\<exists>ev fresh dup. accept_auth E peer ed from fr p (m2, w) =
      auth_reply E peer fresh (if dup then (m1, w) else announce_key E ev (m1, w))"
    unfolding accept_auth_def Let_def prod.case m1_def s_def by (intro exI) (rule refl)
  then obtain ev fresh dup where acc: "accept_auth E peer ed from fr p (m2, w) =
      auth_reply E peer fresh (if dup then (m1, w) else announce_key E ev (m1, w))" by blast
  obtain m3 w3 where ann: "(if dup then (m1, w) else announce_key E ev (m1, w)) = (m3, w3)" by force
  have "same_keys m1 m3" using ann announce_key_keeps [of ev m1 w m3 w3] by (auto split: if_splits)
  then have keep: "same_keys m1 (fst (accept_auth E peer ed from fr p (m2, w)))"
    using auth_reply_keeps [of "(m3, w3)" peer fresh] unfolding acc ann by (auto intro: same_keys_trans)
  then show "installs m peer ?c (fst (accept_auth E peer ed from fr p (m2, w)))"
    by (rule installs_then_same [OF inst])
  show "peerPubKeys (fst (accept_auth E peer ed from fr p (m2, w))) = (peerPubKeys m2)(peer \<mapsto> Some ed)"
    using keep by (simp add: same_keys_def m1_def SetPeerPubKey_def)
qed

lemma accept_unauth_installs:
  assumes "kx_wf m" and "p = nextCrypto m" and "env m2 = set_crypto p c (env m)" and "nextCrypto m2 = Suc p"
    and "own_keys m2 = own_keys m"
  shows "installs m peer c (fst (accept_unauth E peer from fr p (m2, w)))"
    and "peerPubKeys (fst (accept_unauth E peer from fr p (m2, w))) = peerPubKeys m2"
proof -
  define m1 where "m1 = m2\<lparr> env := install_derived peer p (env m2) \<rparr>"
  have inst: "installs m peer c m1"
    using assms by (intro install_derived_installs) (simp_all add: m1_def own_keys_def)
  have "\<exists>ev fresh dup. accept_unauth E peer from fr p (m2, w) =
      (case if dup then (m1, w) else announce_key E ev (m1, w) of (m3, w3) \<Rightarrow>
       case if fresh then snd (SendKeyExchangeToNode E peer (m3, w3)) else (m3, w3) of
         (m4, w4) \<Rightarrow> (ClearPendingRekey peer m4, w4))"
    unfolding accept_unauth_def Let_def prod.case m1_def by (intro exI) (rule refl)
  then obtain ev fresh dup where acc: "accept_unauth E peer from fr p (m2, w) =
      (case if dup then (m1, w) else announce_key E ev (m1, w) of (m3, w3) \<Rightarrow>
       case if fresh then snd (SendKeyExchangeToNode E peer (m3, w3)) else (m3, w3) of
         (m4, w4) \<Rightarrow> (ClearPendingRekey peer m4, w4))" by blast
  obtain m3 w3 where ann: "(if dup then (m1, w) else announce_key E ev (m1, w)) = (m3, w3)" by force
  obtain r m4 w4 where s: "SendKeyExchangeToNode E peer (m3, w3) = (r, m4, w4)" by (metis prod_cases3)
  have "same_keys m1 m3" using ann announce_key_keeps [of ev m1 w m3 w3] by (auto split: if_splits)
  then have keep: "same_keys m1 (fst (accept_unauth E peer from fr p (m2, w)))"
    using SendKeyExchangeToNode_keeps [OF s] unfolding acc ann by (auto simp: s intro: same_keys_trans)
  then show "installs m peer c (fst (accept_unauth E peer from fr p (m2, w)))"
    by (rule installs_then_same [OF inst])
  show "peerPubKeys (fst (accept_unauth E peer from fr p (m2, w))) = peerPubKeys m2"
    using keep by (simp add: same_keys_def m1_def)
qed

text \<open>
  The two outcomes of an authenticated frame: rejected, with the keys untouched, or accepted
  with a vouched identity and a valid signature.
\<close>

lemma HandleAuthFrame_cases:
  assumes "HandleAuthFrame E data from fr (m, w) = (ok, m', w')" and wf: "kx_wf m"
  defines "peer \<equiv> get32 (go_slice data 0 4)" and "x \<equiv> go_slice data 4 36" and "ed \<equiv> go_slice data 36 68"
  shows "(\<forall>j e. peerPubKeys m' j = Some (Some e) \<longrightarrow> vouched E m j e) \<and>
    (if ok then
       132 \<le> length data \<and> vouched E m peer ed \<and>
       kx_verify E ed (authChallenge peer x) (go_slice data 68 132) \<and>
       peerPubKeys m' peer = Some (Some ed) \<and>
       (\<exists>c. derived E m x c \<and> installs m peer (c\<lparr> Authenticated := True \<rparr>) m')
     else env m' = env m \<and> nextCrypto m' = nextCrypto m \<and> own_keys m' = own_keys m)"
proof (cases "length data < 132 \<or> privKey m = None")
  case True
  then have "ok = False \<and> m' = m"
    using assms(1) by (auto simp: HandleAuthFrame_def Let_def split: if_splits)
  then show ?thesis by (simp add: vouched_def)
next
  case False
  obtain r m1 where ek: "expected_key E peer ed m = (r, m1)" by force
  note ekp = expected_key_props [OF ek]
  have s1: "env m1 = env m" "nextCrypto m1 = nextCrypto m" "privKey m1 = privKey m" "own_keys m1 = own_keys m"
    using ekp(1) by (simp_all add: same_sessions_def own_keys_def)
  show ?thesis
  proof (cases "r = None \<or> \<not> kx_verify E ed (authChallenge peer x) (go_slice data 68 132)")
    case True
    have "ok = False \<and> m' = m1"
      using True False assms(1) ek ekp(2) unfolding peer_def x_def ed_def
      by (auto simp: HandleAuthFrame_def Let_def split: option.splits if_splits)
    then show ?thesis using s1 ekp(3) by auto
  next
    case verified: False
    then have r: "r = Some ed" "vouched E m peer ed" using ekp(2) by auto
    obtain pc m2 where ds: "DeriveSecret E x m1 = (pc, m2)" by force
    have eq: "(ok, m', w') = (case pc of None \<Rightarrow> (False, m2, w)
        | Some p \<Rightarrow> (True, accept_auth E peer ed from fr p (m2, w)))"
      using False assms(1) ek ds r(1) verified unfolding peer_def x_def ed_def
      by (auto simp: HandleAuthFrame_def Let_def split: option.splits if_splits)
    show ?thesis
    proof (cases pc)
      case None
      with ds have "m2 = m1" by (intro DeriveSecret_None) simp
      with None show ?thesis using eq s1 ekp(3) by auto
    next
      case (Some p)
      from ds [unfolded Some] obtain priv shared prefix where d: "privKey m1 = Some priv"
          "kx_x25519 E priv x = Some shared" "kx_rand E = Some prefix" "p = nextCrypto m1"
          "m2 = m1\<lparr> env := set_crypto p (fresh_crypto (kx_now E) (hkdf_key E shared) prefix x) (env m1),
             nextCrypto := Suc p \<rparr>"
        by (rule DeriveSecret_Some)
      let ?c = "fresh_crypto (kx_now E) (hkdf_key E shared) prefix x"
      have "(m', w') = accept_auth E peer ed from fr p (m2, w)" using eq Some by simp
      then have m': "m' = fst (accept_auth E peer ed from fr p (m2, w))" by (metis fst_conv)
      have "installs m peer (?c\<lparr> Authenticated := True \<rparr>) m'"
          "peerPubKeys m' = (peerPubKeys m1)(peer \<mapsto> Some ed)"
        using accept_auth_installs [OF wf, of p m2 ?c peer ed "from" fr w] s1 d(4,5)
        by (simp_all add: m' own_keys_def)
      moreover have "derived E m x ?c" using d s1 by (auto simp: derived_def)
      ultimately show ?thesis
        using eq Some r(2) verified False ekp(3) by auto
    qed
  qed
qed

lemma HandleUnauthFrame_cases:
  assumes "HandleUnauthFrame E data from fr (m, w) = (ok, m', w')" and wf: "kx_wf m"
  defines "peer \<equiv> get32 (go_slice data 0 4)" and "x \<equiv> go_slice data 4 36"
  shows "(\<forall>j e. peerPubKeys m' j = Some (Some e) \<longrightarrow> vouched E m j e) \<and>
    (if ok then
       (HasIdentity m \<longrightarrow> fst (GetPeerPubKey E peer m) \<in> {None, Some None}) \<and>
       (\<exists>c. derived E m x c \<and> installs m peer c m')
     else \<exists>m1. env m1 = env m \<and> nextCrypto m1 = nextCrypto m \<and> same_keys m1 m')"
proof (cases "length data < 36 \<or> privKey m = None")
  case True
  then have "ok = False \<and> m' = m"
    using assms(1) by (auto simp: HandleUnauthFrame_def Let_def split: if_splits)
  then show ?thesis by (auto simp: vouched_def intro: exI [of _ m])
next
  case False
  obtain r g where g: "GetPeerPubKey E peer m = (r, g)" by force
  obtain known m1 where kn: "(if HasIdentity m then (r \<noteq> None \<and> r \<noteq> Some None, g) else (False, m)) = (known, m1)"
    by force
  have s1: "same_sessions m m1"
    using kn GetPeerPubKey_sessions [of m E peer] g by (auto split: if_splits)
  have c1: "peerPubKeys m1 j = Some (Some e) \<Longrightarrow> vouched E m j e" for j e
    using kn GetPeerPubKey_cache [of E peer m j e] g by (auto simp: vouched_def split: if_splits)
  have e1: "env m1 = env m" "nextCrypto m1 = nextCrypto m" "privKey m1 = privKey m" "own_keys m1 = own_keys m"
    using s1 by (simp_all add: same_sessions_def own_keys_def)
  obtain sr sm sw where sk: "SendKeyExchangeToNode E peer (m1, w) = (sr, sm, sw)" by (metis prod_cases3)
  have sk_keeps: "same_keys m1 sm" using SendKeyExchangeToNode_keeps [OF sk] .
  obtain pc m2 where ds: "DeriveSecret E x m1 = (pc, m2)" by force
  have eq: "(ok, m', w') =
      (if known then (False, sm, sw)
       else if \<not> Has peer (env m) \<and> MaxCryptoPeers \<le> Len (env m) then (False, m1, w)
       else case pc of None \<Rightarrow> (False, m2, w) | Some p \<Rightarrow> (True, accept_unauth E peer from fr p (m2, w)))"
    using False assms(1) g kn sk ds unfolding peer_def x_def
    by (auto simp: HandleUnauthFrame_def Let_def split: option.splits if_splits)
  show ?thesis
  proof (cases "known \<or> \<not> Has peer (env m) \<and> MaxCryptoPeers \<le> Len (env m) \<or> pc = None")
    case True
    have "pc = None \<Longrightarrow> m2 = m1" using ds by (intro DeriveSecret_None) simp
    with True have "\<not> ok \<and> same_keys m1 m'"
      using eq sk_keeps by (auto split: if_splits option.splits)
    moreover from this have "peerPubKeys m' = peerPubKeys m1" by (simp add: same_keys_def)
    ultimately show ?thesis using e1 c1 by auto
  next
    case go: False
    then obtain p where p: "pc = Some p" by auto
    from ds [unfolded p] obtain priv shared prefix where d: "privKey m1 = Some priv"
        "kx_x25519 E priv x = Some shared" "kx_rand E = Some prefix" "p = nextCrypto m1"
        "m2 = m1\<lparr> env := set_crypto p (fresh_crypto (kx_now E) (hkdf_key E shared) prefix x) (env m1),
           nextCrypto := Suc p \<rparr>"
      by (rule DeriveSecret_Some)
    let ?c = "fresh_crypto (kx_now E) (hkdf_key E shared) prefix x"
    have acc: "ok" "(m', w') = accept_unauth E peer from fr p (m2, w)" using eq go p by auto
    then have m': "m' = fst (accept_unauth E peer from fr p (m2, w))" by (metis fst_conv)
    have "installs m peer ?c m'" "peerPubKeys m' = peerPubKeys m1"
      using accept_unauth_installs [OF wf, of p m2 ?c peer "from" fr w] e1 d(4,5)
      by (simp_all add: m' own_keys_def)
    moreover have "derived E m x ?c" using d e1 by (auto simp: derived_def)
    moreover have "HasIdentity m \<longrightarrow> r \<in> {None, Some None}" using kn go by (auto split: if_splits)
    ultimately show ?thesis using acc(1) c1 g by auto
  qed
qed

end

section \<open>Histories\<close>

text \<open>
  What can happen to a manager over time: key-exchange frames, ticks of the retransmit loop,
  dropped or removed peers, and traffic, which moves counters but leaves the keys alone.
  \<open>ok\<close> restricts the environments.
\<close>

inductive kx_history :: "('w kx_env \<Rightarrow> bool) \<Rightarrow> KxManager \<Rightarrow> KxManager \<Rightarrow> bool" for ok and m0 where
  start: "kx_history ok m0 m0"
| auth: "\<lbrakk> kx_history ok m0 m; ok E; HandleAuthFrame E data from fr (m, w) = (r, m', w') \<rbrakk>
    \<Longrightarrow> kx_history ok m0 m'"
| unauth: "\<lbrakk> kx_history ok m0 m; ok E; HandleUnauthFrame E data from fr (m, w) = (r, m', w') \<rbrakk>
    \<Longrightarrow> kx_history ok m0 m'"
| tick: "\<lbrakk> kx_history ok m0 m; ok E \<rbrakk> \<Longrightarrow> kx_history ok m0 (fst (RekeyRetransmitTick E order (m, w)))"
| send: "\<lbrakk> kx_history ok m0 m; ok E; SendKeyExchangeToNode E i (m, w) = (r, m', w') \<rbrakk> \<Longrightarrow> kx_history ok m0 m'"
| traffic: "\<lbrakk> kx_history ok m0 m; same_keys m m' \<rbrakk> \<Longrightarrow> kx_history ok m0 m'"
| dropped: "kx_history ok m0 m \<Longrightarrow> kx_history ok m0 (m\<lparr> env := Drop i (env m) \<rparr>)"
| removed: "kx_history ok m0 m \<Longrightarrow> kx_history ok m0 (kx_RemovePeer i m)"

text \<open>
  \<open>V\<close> collects the identities the registry ever vouched for. The invariant: the cache
  holds only those, and the ephemeral key of every authenticated session was signed by one.
\<close>

definition signed_by :: "(bytes \<Rightarrow> bytes \<Rightarrow> bytes \<Rightarrow> bool) \<Rightarrow> (node_id \<Rightarrow> bytes set) \<Rightarrow> node_id \<Rightarrow> bytes \<Rightarrow> bool" where
  "signed_by verify V i x \<longleftrightarrow> (\<exists>ed signature. ed \<in> V i \<and> verify ed (authChallenge i x) signature)"

definition auth_inv :: "(bytes \<Rightarrow> bytes \<Rightarrow> bytes \<Rightarrow> bool) \<Rightarrow> (node_id \<Rightarrow> bytes set) \<Rightarrow> KxManager \<Rightarrow> bool" where
  "auth_inv verify V m \<longleftrightarrow> kx_wf m \<and>
    (\<forall>i ed. peerPubKeys m i = Some (Some ed) \<longrightarrow> ed \<in> V i) \<and>
    (\<forall>i p. crypto (env m) i = Some p \<and> Authenticated (heap (env m) p) \<longrightarrow>
       signed_by verify V i (PeerX25519Key (heap (env m) p)))"

definition registry_ok :: "(bytes \<Rightarrow> bytes \<Rightarrow> bytes \<Rightarrow> bool) \<Rightarrow> (node_id \<Rightarrow> bytes set) \<Rightarrow> 'w kx_env \<Rightarrow> bool" where
  "registry_ok verify V E \<longleftrightarrow> kx_wiring E \<and> kx_verify E = verify \<and>
    (\<forall>fn i ed. kx_verifyFunc E = Some fn \<and> fn i = Some (Some ed) \<longrightarrow> ed \<in> V i)"

lemma vouched_in:
  "\<lbrakk> registry_ok verify V E; auth_inv verify V m; vouched E m i ed \<rbrakk> \<Longrightarrow> ed \<in> V i"
  by (auto simp: registry_ok_def auth_inv_def vouched_def)

lemma auth_inv_same_keys:
  assumes "auth_inv verify V m" and "same_keys m m'"
  shows "auth_inv verify V m'"
proof -
  have "key_view (heap (env m') p) = key_view (heap (env m) p)" if "crypto (env m) i = Some p" for i p
    using assms that by (auto simp: auth_inv_def same_keys_def kx_wf_def)
  with assms show ?thesis
    using same_keys_wf [OF assms(2)] by (fastforce simp: auth_inv_def same_keys_def key_view_def)
qed

lemma auth_inv_installs:
  assumes inv: "auth_inv verify V m" and inst: "installs m peer c m'"
    and cache: "\<And>i ed. peerPubKeys m' i = Some (Some ed) \<Longrightarrow> ed \<in> V i"
    and signed: "Authenticated c \<Longrightarrow> signed_by verify V peer (PeerX25519Key c)"
  shows "auth_inv verify V m'"
proof -
  have wf: "kx_wf m" using inv by (simp add: auth_inv_def)
  have view: "key_view (heap (env m') p) = (if p = nextCrypto m then key_view c else key_view (heap (env m) p))"
    if "p \<le> nextCrypto m" for p
    using inst that by (auto simp: installs_def)
  have "signed_by verify V i (PeerX25519Key (heap (env m') p))"
    if "crypto (env m') i = Some p" "Authenticated (heap (env m') p)" for i p
  proof (cases "p = nextCrypto m")
    case True
    then have "i = peer"
      using that inst wf by (fastforce simp: installs_def kx_wf_def split: if_splits)
    moreover have "Authenticated c" "PeerX25519Key (heap (env m') p) = PeerX25519Key c"
      using view [of p] True that by (auto simp: key_view_def)
    ultimately show ?thesis using signed by simp
  next
    case False
    then have old: "crypto (env m) i = Some p" using that inst by (auto simp: installs_def split: if_splits)
    then have "p < nextCrypto m" using wf by (auto simp: kx_wf_def)
    then show ?thesis using view [of p] that(2) old inv False by (auto simp: auth_inv_def key_view_def)
  qed
  with cache installs_wf [OF wf inst] show ?thesis by (auto simp: auth_inv_def)
qed

lemma auth_inv_env:
  "\<lbrakk> auth_inv verify V m; env m1 = env m; nextCrypto m1 = nextCrypto m;
     \<And>i ed. peerPubKeys m1 i = Some (Some ed) \<Longrightarrow> ed \<in> V i \<rbrakk> \<Longrightarrow> auth_inv verify V m1"
  by (auto simp: auth_inv_def kx_wf_def)

lemma auth_inv_Drop: "auth_inv verify V m \<Longrightarrow> auth_inv verify V (m\<lparr> env := Drop i (env m) \<rparr>)"
  by (auto simp: auth_inv_def kx_wf_def Drop_def wipeCryptoSecrets_def set_crypto_def split: option.splits if_splits)

lemma auth_inv_RemovePeer: "auth_inv verify V m \<Longrightarrow> auth_inv verify V (kx_RemovePeer i m)"
  by (auto simp: auth_inv_def kx_wf_def kx_RemovePeer_def)

lemma auth_inv_auth:
  assumes "registry_ok verify V E" and inv: "auth_inv verify V m"
    and "HandleAuthFrame E data from fr (m, w) = (r, m', w')"
  shows "auth_inv verify V m'"
proof -
  have wired: "kx_wiring E" and ver: "kx_verify E = verify" using assms(1) by (simp_all add: registry_ok_def)
  note cs = kx_wiring.HandleAuthFrame_cases [OF wired assms(3)]
  have wf: "kx_wf m" using inv by (simp add: auth_inv_def)
  have cache: "\<And>i ed. peerPubKeys m' i = Some (Some ed) \<Longrightarrow> ed \<in> V i"
    using cs wf vouched_in [OF assms(1) inv] by blast
  show ?thesis
  proof (cases r)
    case True
    let ?peer = "get32 (go_slice data 0 4)" and ?x = "go_slice data 4 36" and ?ed = "go_slice data 36 68"
    from cs wf True have len: "132 \<le> length data" and v: "vouched E m ?peer ?ed"
      and sig: "verify ?ed (authChallenge ?peer ?x) (go_slice data 68 132)"
      and "\<exists>c. derived E m ?x c \<and> installs m ?peer (c\<lparr> Authenticated := True \<rparr>) m'"
      by (simp_all add: ver)
    then obtain c where c: "derived E m ?x c" "installs m ?peer (c\<lparr> Authenticated := True \<rparr>) m'" by blast
    have "length ?x = 32" using len by (simp add: length_go_slice)
    then have "PeerX25519Key (c\<lparr> Authenticated := True \<rparr>) = ?x"
      using c(1) by (auto simp: derived_def fresh_crypto_def go_copy_id)
    then have "signed_by verify V ?peer (PeerX25519Key (c\<lparr> Authenticated := True \<rparr>))"
      using v sig vouched_in [OF assms(1) inv] by (auto simp: signed_by_def)
    then show ?thesis by (intro auth_inv_installs [OF inv c(2)] cache) auto
  next
    case False
    then show ?thesis using cs wf by (intro auth_inv_env [OF inv _ _ cache]) auto
  qed
qed

lemma auth_inv_unauth:
  assumes "registry_ok verify V E" and inv: "auth_inv verify V m"
    and "HandleUnauthFrame E data from fr (m, w) = (r, m', w')"
  shows "auth_inv verify V m'"
proof -
  have wired: "kx_wiring E" using assms(1) by (simp add: registry_ok_def)
  note cs = kx_wiring.HandleUnauthFrame_cases [OF wired assms(3)]
  have wf: "kx_wf m" using inv by (simp add: auth_inv_def)
  have cache: "\<And>i ed. peerPubKeys m' i = Some (Some ed) \<Longrightarrow> ed \<in> V i"
    using cs wf vouched_in [OF assms(1) inv] by blast
  show ?thesis
  proof (cases r)
    case True
    with cs wf obtain c where c: "derived E m (go_slice data 4 36) c"
        "installs m (get32 (go_slice data 0 4)) c m'" by auto
    then have "\<not> Authenticated c" by (auto simp: derived_def fresh_crypto_def)
    then show ?thesis by (intro auth_inv_installs [OF inv c(2)] cache) auto
  next
    case False
    with cs wf obtain m1 where m1: "env m1 = env m" "nextCrypto m1 = nextCrypto m" "same_keys m1 m'" by auto
    then have "auth_inv verify V m1"
      using cache by (intro auth_inv_env [OF inv]) (auto simp: same_keys_def)
    then show ?thesis using m1(3) by (rule auth_inv_same_keys)
  qed
qed

lemma history_auth_inv:
  assumes "kx_history (registry_ok verify V) m0 m" and "auth_inv verify V m0"
  shows "auth_inv verify V m"
  using assms
proof (induction rule: kx_history.induct)
  case (tick m E order w)
  then show ?case
    using kx_wiring.RekeyRetransmitTick_keeps [of E "(m, w)" order]
    by (auto simp: registry_ok_def intro: auth_inv_same_keys)
next
  case (send m E i w r m' w')
  then show ?case
    using kx_wiring.SendKeyExchangeToNode_keeps [of E i m w r m' w']
    by (auto simp: registry_ok_def intro: auth_inv_same_keys)
qed (auto intro: auth_inv_auth auth_inv_unauth auth_inv_same_keys auth_inv_Drop auth_inv_RemovePeer)

section \<open>A frame and its receiver\<close>

definition auth_frame :: "'w kx_env \<Rightarrow> KxManager \<Rightarrow> bytes \<Rightarrow> bytes \<Rightarrow> bytes" where
  "auth_frame E m pub ed = put32 (kx_localNodeID m) @ pub @ ed @ kx_sign E ed (authChallenge (kx_localNodeID m) pub)"

lemma BuildAuthFrame_body:
  assumes "pubKey m = Some pub" "length pub = 32" "identity m = Some ed" "length ed = 32"
    and "length (kx_sign E ed (authChallenge (kx_localNodeID m) pub)) = 64"
  shows "map_option (drop 4) (BuildAuthFrame E m) = Some (auth_frame E m pub ed)"
  using assms by (simp add: BuildAuthFrame_def auth_frame_def go_copy_id Let_def)

lemma auth_frame_slices:
  assumes "length pub = 32" "length ed = 32"
    and "length (kx_sign E ed (authChallenge (kx_localNodeID m) pub)) = 64"
  shows "length (auth_frame E m pub ed) = 132"
    and "get32 (go_slice (auth_frame E m pub ed) 0 4) = kx_localNodeID m"
    and "go_slice (auth_frame E m pub ed) 4 36 = pub" and "go_slice (auth_frame E m pub ed) 36 68 = ed"
    and "go_slice (auth_frame E m pub ed) 68 132 = kx_sign E ed (authChallenge (kx_localNodeID m) pub)"
  using assms by (simp_all add: auth_frame_def go_slice_def)

lemma HandleAuthFrame_accepts:
  assumes "132 \<le> length data" and "privKey m = Some priv"
    and "fst (GetPeerPubKey E (get32 (go_slice data 0 4)) m) = Some (Some (go_slice data 36 68))"
    and "kx_verify E (go_slice data 36 68) (authChallenge (get32 (go_slice data 0 4)) (go_slice data 4 36))
      (go_slice data 68 132)"
    and "kx_x25519 E priv (go_slice data 4 36) = Some shared" and "kx_rand E = Some prefix"
  shows "fst (HandleAuthFrame E data from fr (m, w))"
proof -
  obtain m1 where g: "GetPeerPubKey E (get32 (go_slice data 0 4)) m = (Some (Some (go_slice data 36 68)), m1)"
    using assms(3) by (metis prod.collapse)
  then have "same_sessions m m1" using GetPeerPubKey_sessions [of m E "get32 (go_slice data 0 4)"] by simp
  then have "privKey m1 = Some priv" using assms(2) by (simp add: same_sessions_def)
  then show ?thesis
    using assms g by (simp add: HandleAuthFrame_def expected_key_def DeriveSecret_def Let_def)
qed

text \<open>The session of a peer, as far as both ends have to agree on it.\<close>

definition session :: "node_id \<Rightarrow> KxManager \<Rightarrow> (aead_key \<times> bool \<times> bool) option" where
  "session i m = (case Get i (env m) of None \<Rightarrow> None
     | Some p \<Rightarrow> Some (AEAD (heap (env m) p), Ready (heap (env m) p), Authenticated (heap (env m) p)))"

lemma installs_session:
  assumes "kx_wf m" and "installs m peer c m'" and "must_install m peer (PeerX25519Key c)"
  shows "session peer m' = Some (AEAD c, Ready c, Authenticated c)"
  using assms by (auto simp: session_def installs_def Get_def key_view_def)

lemma auth_frame_session:
  assumes wired: "kx_wiring E" and wf: "kx_wf m" and "Get (kx_localNodeID a) (env m) = None"
    and frame: "length pub = 32" "length ed = 32" "length (kx_sign E' ed (authChallenge (kx_localNodeID a) pub)) = 64"
    and "privKey m = Some priv" and "fst (GetPeerPubKey E (kx_localNodeID a) m) = Some (Some ed)"
    and "kx_verify E ed (authChallenge (kx_localNodeID a) pub) (kx_sign E' ed (authChallenge (kx_localNodeID a) pub))"
    and "kx_x25519 E priv pub = Some shared" and "kx_rand E = Some prefix"
  shows "session (kx_localNodeID a) (fst (snd (HandleAuthFrame E (auth_frame E' a pub ed) from fr (m, w))))
    = Some (hkdf_key E shared, True, True)"
proof -
  note sl = auth_frame_slices [OF frame]
  obtain ok m' w' where h: "HandleAuthFrame E (auth_frame E' a pub ed) from fr (m, w) = (ok, m', w')"
    by (metis prod_cases3)
  have "fst (HandleAuthFrame E (auth_frame E' a pub ed) from fr (m, w))"
    using assms sl by (intro HandleAuthFrame_accepts) simp_all
  then have "ok" by (simp add: h)
  then obtain c where c: "derived E m pub c" "installs m (kx_localNodeID a) (c\<lparr> Authenticated := True \<rparr>) m'"
    using kx_wiring.HandleAuthFrame_cases [OF wired h wf] by (auto simp: sl)
  have "must_install m (kx_localNodeID a) xk" for xk using assms(3) by (simp add: must_install_def Get_def)
  then show ?thesis
    using installs_session [OF wf c(2)] c(1) assms by (auto simp: h derived_def fresh_crypto_def)
qed

section \<open>Reply throttling\<close>

fun reply_run :: "node_id \<Rightarrow> instant list \<Rightarrow> KxManager \<Rightarrow> instant list" where
  "reply_run i [] m = []"
| "reply_run i (t # ts) m =
    (case MarkReplyKeyExchangeSent t i m of (ok, m') \<Rightarrow> (if ok then [t] else []) @ reply_run i ts m')"

definition whitelisted :: "node_id \<Rightarrow> KxManager \<Rightarrow> bool" where
  "whitelisted i m \<longleftrightarrow> replyWhitelistAll m \<or> (\<exists>wl. replyWhitelist m = Some wl \<and> i \<in> wl)"

lemma MarkReply_cases:
  assumes "\<not> whitelisted i m" and "MarkReplyKeyExchangeSent t i m = (ok, m')"
  shows "ok \<longleftrightarrow> (\<forall>l. lastKeyExchangeReply m i = Some l \<longrightarrow> second \<le> t - l)"
    and "\<not> whitelisted i m'" and "lastKeyExchangeReply m' i = (if ok then Some t else lastKeyExchangeReply m i)"
  using assms
  by (auto simp: MarkReplyKeyExchangeSent_def whitelisted_def KeyExchangeReplyMinInterval_def time_simps not_less
      Let_def split: option.splits if_splits)

lemma reply_run_spaced:
  assumes "\<not> whitelisted i m"
  shows "(\<forall>t\<in>set (reply_run i ts m). \<forall>l. lastKeyExchangeReply m i = Some l \<longrightarrow> second \<le> t - l) \<and>
    sorted_wrt (\<lambda>t t'. second \<le> t' - t) (reply_run i ts m)"
  using assms
proof (induction ts arbitrary: m)
  case (Cons t ts)
  obtain ok m' where r: "MarkReplyKeyExchangeSent t i m = (ok, m')" by force
  note c = MarkReply_cases [OF Cons.prems r]
  from Cons.IH [OF c(2)] c(1,3) show ?case by (fastforce simp: r)
qed simp

section \<open>Giving up\<close>

text \<open>
  An environment in which nobody answers: frames go out, and the callbacks do not touch the
  manager.
\<close>

definition quiet :: "'w kx_env \<Rightarrow> bool" where
  "quiet E \<longleftrightarrow> (\<exists>f. kx_sender E = Some f \<and> (\<forall>i a d m w. \<exists>w'. f i a d (m, w) = (True, m, w'))) \<and>
    (\<forall>h i n mw. kx_preRetx E = Some h \<longrightarrow> fst (h i n mw) = fst mw) \<and>
    (\<forall>h i mw. kx_onGaveUp E = Some h \<longrightarrow> fst (h i mw) = fst mw)"

text \<open>The part of the manager that decides about the retransmissions to a peer.\<close>

definition retx_state :: "node_id \<Rightarrow> KxManager \<Rightarrow> PendingRekeyState option \<times> instant option" where
  "retx_state i m = (pendingRekey m i, rekeyGaveUp m i)"

lemma takeKeyRequest_retx [simp]:
  "retx_state j (snd (takeKeyRequest i m)) = retx_state j m" "pubKey (snd (takeKeyRequest i m)) = pubKey m"
  by (auto simp: takeKeyRequest_def retx_state_def)

lemma MarkPendingRekey_frame:
  "pubKey (snd (MarkPendingRekey t i m)) = pubKey m"
  "j \<noteq> i \<Longrightarrow> retx_state j (snd (MarkPendingRekey t i m)) = retx_state j m"
  by (auto simp: MarkPendingRekey_def retx_state_def Let_def split: option.splits)

lemma SendKeyExchange_quiet:
  assumes "quiet E" and "pubKey m \<noteq> None"
  obtains m1 where "fst (snd (SendKeyExchangeToNode E i (m, w))) = snd (MarkPendingRekey (kx_now E) i m1)"
    and "\<And>j. retx_state j m1 = retx_state j m" and "pubKey m1 = pubKey m"
proof -
  obtain f where f: "kx_sender E = Some f" "\<And>i a d m w. \<exists>w'. f i a d (m, w) = (True, m, w')"
    using assms(1) by (auto simp: quiet_def)
  obtain unauth where u: "BuildUnauthFrame E m = Some unauth"
    using assms(2) by (auto simp: BuildUnauthFrame_def)
  define addr where "addr = (case kx_addrLookup E of None \<Rightarrow> None | Some lk \<Rightarrow> lk i w)"
  obtain frame authed where ch: "choose_frame E m unauth = (frame, authed)" by force
  obtain kr m1 where kr: "key_request i authed m = (kr, m1)" by force
  have "m1 = m \<or> m1 = snd (takeKeyRequest i m)" using kr by (auto simp: key_request_def split: if_splits)
  then have m1: "retx_state j m1 = retx_state j m" "pubKey m1 = pubKey m" for j by auto
  obtain w1 where s1: "f i addr frame (m1, w) = (True, m1, w1)" using f(2) by blast
  obtain w2 where s2: "f i addr unauth (m1, w1) = (True, m1, w2)" using f(2) by blast
  let ?m1 = "if kr then m1\<lparr> keyRequestsSent := keyRequestsSent m1 + 1 \<rparr> else m1"
  have "fst (snd (send_request (f i addr unauth) kr (m1, w1))) = ?m1" by (simp add: send_request_def s2)
  then have "fst (snd (SendKeyExchangeToNode E i (m, w))) = snd (MarkPendingRekey (kx_now E) i ?m1)"
    by (simp add: SendKeyExchangeToNode_def f(1) u addr_def [symmetric] ch kr s1 split_beta)
  then show thesis using that [of ?m1] m1 by (auto simp: retx_state_def)
qed

lemma retransmit_quiet:
  assumes "quiet E" and "pubKey (fst mw) \<noteq> None"
  shows "pubKey (fst (retransmit E r mw)) \<noteq> None"
    and "j \<noteq> fst r \<Longrightarrow> retx_state j (fst (retransmit E r mw)) = retx_state j (fst mw)"
    and "retx_state (fst r) (fst mw) = (Some st, None) \<Longrightarrow>
      retx_state (fst r) (fst (retransmit E r mw))
        = (Some (st\<lparr> LastSentAt := kx_now E, Attempts := Attempts st + 1 \<rparr>), None)"
proof -
  obtain m w where pre: "(case kx_preRetx E of None \<Rightarrow> mw | Some h \<Rightarrow> h (fst r) (snd r + 1) mw) = (m, w)" by force
  have "fst (case kx_preRetx E of None \<Rightarrow> mw | Some h \<Rightarrow> h (fst r) (snd r + 1) mw) = fst mw"
    using assms(1) by (cases "kx_preRetx E"; cases mw) (simp_all add: quiet_def)
  then have m: "m = fst mw" by (simp add: pre)
  then have "pubKey m \<noteq> None" using assms(2) by simp
  then obtain m1 where m1: "fst (snd (SendKeyExchangeToNode E (fst r) (m, w)))
        = snd (MarkPendingRekey (kx_now E) (fst r) m1)"
      "\<And>j. retx_state j m1 = retx_state j m" "pubKey m1 = pubKey m"
    using SendKeyExchange_quiet [OF assms(1), of m "fst r" w] by blast
  have eq: "fst (retransmit E r mw) = snd (MarkPendingRekey (kx_now E) (fst r) m1)"
    by (simp add: retransmit_def pre Let_def m1(1))
  show "pubKey (fst (retransmit E r mw)) \<noteq> None"
    using m1(3) m assms(2) by (simp add: eq MarkPendingRekey_frame)
  show "j \<noteq> fst r \<Longrightarrow> retx_state j (fst (retransmit E r mw)) = retx_state j (fst mw)"
    using m1(2) m by (simp add: eq MarkPendingRekey_frame)
  show "retx_state (fst r) (fst mw) = (Some st, None) \<Longrightarrow>
      retx_state (fst r) (fst (retransmit E r mw))
        = (Some (st\<lparr> LastSentAt := kx_now E, Attempts := Attempts st + 1 \<rparr>), None)"
    using m1(2) [of "fst r"] m by (simp add: eq MarkPendingRekey_def retx_state_def Let_def)
qed

lemma fold_retransmit_pub:
  assumes "quiet E"
  shows "pubKey (fst mw) \<noteq> None \<Longrightarrow> pubKey (fst (fold (retransmit E) rs mw)) \<noteq> None"
proof (induction rs arbitrary: mw)
  case (Cons r rs)
  from Cons.IH [OF retransmit_quiet(1) [OF assms Cons.prems]] show ?case by simp
qed simp

lemma fold_retransmit_other:
  assumes "quiet E" and "pubKey (fst mw) \<noteq> None" and "i \<notin> fst ` set rs"
  shows "retx_state i (fst (fold (retransmit E) rs mw)) = retx_state i (fst mw) \<and>
    pubKey (fst (fold (retransmit E) rs mw)) \<noteq> None"
  using assms(2,3)
proof (induction rs arbitrary: mw)
  case (Cons r rs)
  then show ?case
    using retransmit_quiet(1) [OF assms(1) Cons.prems(1), of r] retransmit_quiet(2) [OF assms(1) Cons.prems(1), of i r]
      Cons.IH [of "retransmit E r mw"] by auto
qed simp

lemma fold_retransmit_once:
  assumes "quiet E" and "pubKey (fst mw) \<noteq> None" and "distinct (map fst rs)" and "i \<in> fst ` set rs"
    and "retx_state i (fst mw) = (Some st, None)"
  shows "retx_state i (fst (fold (retransmit E) rs mw))
      = (Some (st\<lparr> LastSentAt := kx_now E, Attempts := Attempts st + 1 \<rparr>), None)"
  using assms(2-5)
proof (induction rs arbitrary: mw)
  case (Cons r rs)
  note step = retransmit_quiet [OF assms(1) Cons.prems(1), where r = r]
  show ?case
  proof (cases "i = fst r")
    case True
    with Cons.prems have "i \<notin> fst ` set rs" by auto
    with fold_retransmit_other [OF assms(1) step(1), of i rs] step(3) [of st] Cons.prems(4) True
    show ?thesis by simp
  next
    case False
    then show ?thesis using Cons.IH [OF step(1)] step(2) [of i] Cons.prems by auto
  qed
qed simp

lemma fold_give_up:
  "retx_state i (fold (give_up now) xs m) = (if i \<in> set xs then (None, Some now) else retx_state i m)"
  "pubKey (fold (give_up now) xs m) = pubKey m"
  by (induction xs arbitrary: m) (auto simp: give_up_def retx_state_def)

lemma tick_decide_state:
  assumes "tick_decide now order m = (g, rt, m1)"
  shows "g = filter (must_give_up m) order" and "map fst rt = filter (must_retry now m) order"
    and "pubKey m1 = pubKey m"
    and "must_give_up m i \<Longrightarrow> i \<in> set order \<Longrightarrow> retx_state i m1 = (None, Some now)"
    and "\<not> must_give_up m i \<Longrightarrow> rekeyGaveUp m i = None \<Longrightarrow> retx_state i m1 = retx_state i m"
  using assms fold_give_up(1) [of i now "filter (must_give_up m) order" m] fold_give_up(2)
  by (auto simp: tick_decide_def retx_state_def map_prune_def rekeyGaveUpCooldown_def time_sub_def comp_def Let_def
      split: option.splits if_splits)

text \<open>One tick for a peer that is pending and not in its cooldown.\<close>

lemma tick_pending:
  assumes "quiet E" and "pubKey (fst mw) \<noteq> None" and "distinct order" and "length order \<le> 64" and "i \<in> set order"
    and "retx_state i (fst mw) = (Some st, None)"
  shows "pubKey (fst (RekeyRetransmitTick E order mw)) \<noteq> None"
    and "6 \<le> Attempts st \<Longrightarrow> retx_state i (fst (RekeyRetransmitTick E order mw)) = (None, Some (kx_now E))"
    and "\<lbrakk> Attempts st < 6; 4 * second \<le> kx_now E - LastSentAt st \<rbrakk> \<Longrightarrow>
      retx_state i (fst (RekeyRetransmitTick E order mw))
        = (Some (st\<lparr> LastSentAt := kx_now E, Attempts := Attempts st + 1 \<rparr>), None)"
proof -
  obtain g rt m1 where d: "tick_decide (kx_now E) order (fst mw) = (g, rt, m1)" by (metis prod_cases3)
  note ds = tick_decide_state [OF d]
  have "length rt = length (map fst rt)" by simp
  also have "\<dots> \<le> length order" by (simp add: ds(2))
  finally have cap: "take maxRetransmitsPerTick rt = rt" using assms(4) by (simp add: maxRetransmitsPerTick_def)
  define mw2 where "mw2 = (case kx_onGaveUp E of None \<Rightarrow> (m1, snd mw) | Some h \<Rightarrow> fold h g (m1, snd mw))"
  have "fst (fold h xs mw') = fst mw'" if "kx_onGaveUp E = Some h" for h xs mw'
    using that assms(1) by (induction xs arbitrary: mw') (auto simp: quiet_def)
  then have mw2: "fst mw2 = m1" by (auto simp: mw2_def split: option.splits)
  have tick: "fst (RekeyRetransmitTick E order mw) = fst (fold (retransmit E) rt mw2)"
    by (simp add: RekeyRetransmitTick_def d Let_def mw2_def cap)
  have pub: "pubKey (fst mw2) \<noteq> None" using ds(3) mw2 assms(2) by simp
  show "pubKey (fst (RekeyRetransmitTick E order mw)) \<noteq> None"
    unfolding tick by (rule fold_retransmit_pub [OF assms(1) pub])
  have give: "must_give_up (fst mw) i \<longleftrightarrow> 6 \<le> Attempts st"
      "must_retry (kx_now E) (fst mw) i \<longleftrightarrow> Attempts st < 6 \<and> 4 * second \<le> kx_now E - LastSentAt st"
    using assms(6) by (auto simp: retx_state_def must_give_up_def must_retry_def kx_consts time_simps)
  have rts: "set (map fst rt) = {x \<in> set order. must_retry (kx_now E) (fst mw) x}" "distinct (map fst rt)"
    using assms(3) by (simp_all add: ds(2))
  show "6 \<le> Attempts st \<Longrightarrow> retx_state i (fst (RekeyRetransmitTick E order mw)) = (None, Some (kx_now E))"
    using fold_retransmit_other [OF assms(1) pub, of i rt] ds(4) [of i] give rts(1) assms(5)
    by (auto simp: tick mw2)
  show "\<lbrakk> Attempts st < 6; 4 * second \<le> kx_now E - LastSentAt st \<rbrakk> \<Longrightarrow>
      retx_state i (fst (RekeyRetransmitTick E order mw))
        = (Some (st\<lparr> LastSentAt := kx_now E, Attempts := Attempts st + 1 \<rparr>), None)"
    unfolding tick
    using fold_retransmit_once [OF assms(1) pub rts(2), of i st] ds(5) [of i] give rts(1) assms(5,6)
    by (auto simp: mw2 retx_state_def)
qed

definition tick_run :: "'w kx_env \<Rightarrow> (instant \<times> node_id list) list \<Rightarrow> KxManager \<times> 'w \<Rightarrow> KxManager \<times> 'w" where
  "tick_run E ticks mw = fold (\<lambda>(t, order). RekeyRetransmitTick (E\<lparr> kx_now := t \<rparr>) order) ticks mw"

lemma quiet_at [simp]: "quiet (E\<lparr> kx_now := t \<rparr>) = quiet E"
  by (simp add: quiet_def)

lemma tick_run_attempts:
  assumes "quiet E" and "pubKey (fst mw) \<noteq> None" and "retx_state i (fst mw) = (Some st, None)"
    and "\<forall>(t, order)\<in>set ticks. distinct order \<and> length order \<le> 64 \<and> i \<in> set order"
    and "sorted_wrt (\<lambda>t t'. 4 * second \<le> t' - t) (LastSentAt st # map fst ticks)"
    and "Attempts st + int (length ticks) \<le> 6"
  shows "pubKey (fst (tick_run E ticks mw)) \<noteq> None \<and>
    retx_state i (fst (tick_run E ticks mw)) =
      (Some (st\<lparr> LastSentAt := last (LastSentAt st # map fst ticks), Attempts := Attempts st + int (length ticks) \<rparr>), None)"
  using assms(2-6)
proof (induction ticks arbitrary: mw st)
  case Nil
  then show ?case by (simp add: tick_run_def)
next
  case (Cons tk ticks)
  obtain t order where tk: "tk = (t, order)" by force
  let ?E = "E\<lparr> kx_now := t \<rparr>" and ?st = "st\<lparr> LastSentAt := t, Attempts := Attempts st + 1 \<rparr>"
  let ?mw = "RekeyRetransmitTick ?E order mw"
  have q: "quiet ?E" using assms(1) by simp
  have ok: "distinct order" "length order \<le> 64" "i \<in> set order" using Cons.prems(3) by (simp_all add: tk)
  note tp = tick_pending [OF q Cons.prems(1) ok Cons.prems(2)]
  have "retx_state i (fst ?mw) = (Some ?st, None)"
    using tp(3) Cons.prems(4,5) by (simp add: tk)
  then show ?case
    using Cons.IH [of ?mw ?st] tp(1) Cons.prems(3-5) by (simp add: tk tick_run_def)
qed

section \<open>A concrete environment\<close>

text \<open>
  Primitives simple enough to compute with, that satisfy the laws assumed below: public key
  and private key are the same bytes and the shared secret is their sum.
\<close>

definition toy_ed :: "node_id \<Rightarrow> bytes" where "toy_ed i = put32 i @ replicate 28 0"

definition toy_sign :: "bytes \<Rightarrow> bytes \<Rightarrow> bytes" where "toy_sign ed ch = go_copy 64 (ed @ ch)"

definition toy_env :: "instant \<Rightarrow> unit kx_env" where
  "toy_env t = \<lparr> kx_now = t, kx_rand = Some [1, 2, 3, 4], kx_verifyFunc = Some (\<lambda>i. Some (Some (toy_ed i))),
    kx_x25519 = (\<lambda>a b. Some (map2 (+) a b)), kx_hmac = (\<lambda>k d. go_copy 32 (k @ d)),
    kx_sign = toy_sign, kx_verify = (\<lambda>ed ch sg. sg = toy_sign ed ch),
    kx_magicAuthEx = [80, 73, 76, 65], kx_magicKeyEx = [80, 73, 76, 75],
    kx_sender = Some (\<lambda>i a d (m, w). (True, m, w)), kx_addrLookup = None, kx_publisher = None,
    kx_postInstall = None, kx_preRetx = None, kx_onGaveUp = None, kx_trustFn = None \<rparr>"

definition toy_manager :: "node_id \<Rightarrow> u8 \<Rightarrow> KxManager" where
  "toy_manager i k = (kx_New (NewStore (\<lambda>_. fresh_crypto 0 [] [] [])) 0)\<lparr> identity := Some (toy_ed i),
    privKey := Some (replicate 32 k), pubKey := Some (replicate 32 k), kxLocalNodeIDFn := Some i \<rparr>"

lemma toy_env_fields [simp]:
  "kx_now (toy_env t) = t" "kx_rand (toy_env t) = Some [1, 2, 3, 4]"
  "kx_verifyFunc (toy_env t) = Some (\<lambda>i. Some (Some (toy_ed i)))"
  "kx_x25519 (toy_env t) = (\<lambda>a b. Some (map2 (+) a b))" "kx_hmac (toy_env t) = (\<lambda>k d. go_copy 32 (k @ d))"
  "kx_sign (toy_env t) = toy_sign" "kx_verify (toy_env t) = (\<lambda>ed ch sg. sg = toy_sign ed ch)"
  "kx_sender (toy_env t) = Some (\<lambda>i a d (m, w). (True, m, w))" "kx_addrLookup (toy_env t) = None"
  "kx_postInstall (toy_env t) = None" "kx_preRetx (toy_env t) = None" "kx_onGaveUp (toy_env t) = None"
  by (simp_all add: toy_env_def)

lemma toy_manager_fields [simp]:
  "env (toy_manager i k) = NewStore (\<lambda>_. fresh_crypto 0 [] [] [])" "nextCrypto (toy_manager i k) = 0"
  "identity (toy_manager i k) = Some (toy_ed i)" "privKey (toy_manager i k) = Some (replicate 32 k)"
  "pubKey (toy_manager i k) = Some (replicate 32 k)" "kx_localNodeID (toy_manager i k) = i"
  "peerPubKeys (toy_manager i k) = Map.empty" "negPubKeys (toy_manager i k) = Map.empty"
  "pendingRekey (toy_manager i k) = Map.empty" "rekeyGaveUp (toy_manager i k) = Map.empty"
  "lastKeyExchangeReply (toy_manager i k) = Map.empty" "replyWhitelist (toy_manager i k) = None"
  "replyWhitelistAll (toy_manager i k) = False"
  by (simp_all add: toy_manager_def kx_New_def kx_localNodeID_def)

lemma toy_lengths [simp]: "length (toy_ed i) = 32" "length (toy_sign ed ch) = 64"
  by (simp_all add: toy_ed_def toy_sign_def)

lemma toy_wiring: "kx_wiring (toy_env t)"
  by unfold_locales auto

lemma toy_wf: "kx_wf (toy_manager i k)"
  by (simp add: kx_wf_def NewStore_def)

lemma toy_lookup: "fst (GetPeerPubKey (toy_env t) j (toy_manager i k)) = Some (Some (toy_ed j))"
  by (simp add: GetPeerPubKey_def)

lemma toy_registry: "registry_ok (\<lambda>ed ch sg. sg = toy_sign ed ch) (\<lambda>i. {toy_ed i}) (toy_env t)"
  unfolding registry_ok_def
proof (intro conjI allI impI toy_wiring toy_env_fields)
  fix fn i ed
  assume "kx_verifyFunc (toy_env t) = Some fn \<and> fn i = Some (Some ed)"
  then have "Some (\<lambda>j. Some (Some (toy_ed j))) = Some fn" and r: "fn i = Some (Some ed)"
    unfolding toy_env_fields by (rule conjunct1, rule conjunct2)
  from fun_cong [OF option.inject [THEN iffD1, OF this(1)], of i] r show "ed \<in> {toy_ed i}" by simp
qed

section \<open>Properties\<close>

text \<open>
  (C33) Two nodes that exchange authenticated frames end up with the same key. Node \<open>a\<close>
  sends its frame, \<open>b\<close> handles it and sends its own, \<open>a\<close> handles that. If each can look up the
  other's identity, signatures verify, and both sides of the Diffie-Hellman exchange give the
  same secret, each has a ready, authenticated session for the other with the same AEAD key.
\<close>

theorem handshake_agrees:
  assumes wired: "kx_wiring Ea" "kx_wiring Eb" and wf: "kx_wf a" "kx_wf b"
    and new: "Get (kx_localNodeID b) (env a) = None" "Get (kx_localNodeID a) (env b) = None"
    and keys: "pubKey a = Some pa" "length pa = 32" "privKey a = Some ka" "identity a = Some ea" "length ea = 32"
      "pubKey b = Some pb" "length pb = 32" "privKey b = Some kb" "identity b = Some eb" "length eb = 32"
    and lookup: "fst (GetPeerPubKey Ea (kx_localNodeID b) a) = Some (Some eb)"
      "fst (GetPeerPubKey Eb (kx_localNodeID a) b) = Some (Some ea)"
    and sig: "\<And>ed ch. length (kx_sign Ea ed ch) = 64" "\<And>ed ch. length (kx_sign Eb ed ch) = 64"
      "\<And>ed ch. kx_verify Eb ed ch (kx_sign Ea ed ch)" "\<And>ed ch. kx_verify Ea ed ch (kx_sign Eb ed ch)"
    and dh: "kx_x25519 Ea ka pb = Some shared" "kx_x25519 Eb kb pa = Some shared"
    and rest: "kx_rand Ea = Some ra" "kx_rand Eb = Some rb" "kx_hmac Ea = kx_hmac Eb"
    and run: "BuildAuthFrame Ea a = Some fa" "HandleAuthFrame Eb (drop 4 fa) from fr (b, w) = (ok, b', w')"
      "BuildAuthFrame Eb b' = Some fb" "HandleAuthFrame Ea (drop 4 fb) from' fr' (a, v) = (ok', a', v')"
  shows "session (kx_localNodeID b) a' = Some (hkdf_key Ea shared, True, True) \<and>
    session (kx_localNodeID a) b' = Some (hkdf_key Ea shared, True, True)"
proof -
  have fa: "drop 4 fa = auth_frame Ea a pa ea"
    using BuildAuthFrame_body [OF keys(1,2,4,5), of Ea] sig(1) run(1) by simp
  have key: "hkdf_key Eb shared = hkdf_key Ea shared" by (simp add: hkdf_key_def rest(3))
  have sb: "session (kx_localNodeID a) b' = Some (hkdf_key Ea shared, True, True)"
    using auth_frame_session [OF wired(2) wf(2) new(2) keys(2,5) sig(1) keys(8) lookup(2) sig(3) dh(2) rest(2),
        of "from" fr w] run(2) fa key by simp
  have "own_keys b' = own_keys b"
    using kx_wiring.HandleAuthFrame_cases [OF wired(2) run(2) wf(2)] by (auto simp: installs_def split: if_splits)
  then have "identity b' = identity b \<and> pubKey b' = pubKey b \<and> kx_localNodeID b' = kx_localNodeID b"
    by (simp add: own_keys_def kx_localNodeID_def)
  then have "drop 4 fb = auth_frame Eb b pb eb"
    using BuildAuthFrame_body [of b' pb eb Eb] keys sig(2) run(3) by (simp add: auth_frame_def)
  then have "session (kx_localNodeID b) a' = Some (hkdf_key Ea shared, True, True)"
    using auth_frame_session [OF wired(1) wf(1) new(1) keys(7,10) sig(2) keys(3) lookup(1) sig(4) dh(1) rest(1),
        of "from'" fr' v] run(4) by simp
  with sb show ?thesis by simp
qed

lemma toy_frames:
  "BuildAuthFrame (toy_env t) (toy_manager i k) \<noteq> None"
  "map_option (drop 4) (BuildAuthFrame (toy_env t) (toy_manager i k))
    = Some (auth_frame (toy_env t) (toy_manager i k) (replicate 32 k) (toy_ed i))"
  by (rule BuildAuthFrame_body [of _ "replicate 32 k" "toy_ed i"] | simp add: BuildAuthFrame_def Let_def)+

theorem handshake_agrees_witness:
  "\<exists>key a' b'. session 2 a' = Some (key, True, True) \<and> session 1 b' = Some (key, True, True)"
proof -
  let ?E = "toy_env 0" and ?a = "toy_manager 1 5" and ?b = "toy_manager 2 9"
  obtain fa where fa: "BuildAuthFrame ?E ?a = Some fa" using toy_frames(1) by blast
  obtain ok b' w' where hb: "HandleAuthFrame ?E (drop 4 fa) None False (?b, ()) = (ok, b', w')"
    by (metis prod_cases3)
  have "own_keys b' = own_keys ?b"
    using kx_wiring.HandleAuthFrame_cases [OF toy_wiring hb toy_wf] by (auto simp: installs_def split: if_splits)
  then obtain fb where fb: "BuildAuthFrame ?E b' = Some fb"
    by (simp add: BuildAuthFrame_def own_keys_def Let_def)
  obtain ok' a' v' where ha: "HandleAuthFrame ?E (drop 4 fb) None False (?a, ()) = (ok', a', v')"
    by (metis prod_cases3)
  have "session (kx_localNodeID ?b) a' = Some (hkdf_key ?E (map2 (+) (replicate 32 5) (replicate 32 9)), True, True) \<and>
    session (kx_localNodeID ?a) b' = Some (hkdf_key ?E (map2 (+) (replicate 32 5) (replicate 32 9)), True, True)"
    by (rule handshake_agrees [OF toy_wiring toy_wiring toy_wf toy_wf _ _ _ _ _ _ _ _ _ _ _ _ _ _ _ _ _ _ _ _ _ _ _ fa hb fb ha,
          where pa = "replicate 32 5" and ka = "replicate 32 5" and pb = "replicate 32 9" and kb = "replicate 32 9"
            and ea = "toy_ed 1" and eb = "toy_ed 2"])
      (simp_all add: toy_lookup Get_def NewStore_def)
  then show ?thesis by auto
qed

text \<open>
  (C34) No session counts as authenticated without the peer's signature. Over every history of
  key-exchange frames from anybody, retransmissions, traffic and removals, starting without
  keys, the ephemeral key of every authenticated session was signed, for that very node ID, by
  an identity the registry vouched for.
\<close>

theorem authenticated_sessions_signed:
  assumes "kx_history (registry_ok verify V) m0 m" and "crypto (env m0) = Map.empty" and "peerPubKeys m0 = Map.empty"
    and "Get i (env m) = Some p" and "Authenticated (heap (env m) p)"
  shows "\<exists>ed signature. ed \<in> V i \<and> verify ed (authChallenge i (PeerX25519Key (heap (env m) p))) signature"
proof -
  have "auth_inv verify V m0" using assms(2,3) by (simp add: auth_inv_def kx_wf_def)
  from history_auth_inv [OF assms(1) this] assms(4,5) show ?thesis
    by (auto simp: auth_inv_def signed_by_def Get_def)
qed

theorem authenticated_sessions_signed_witness:
  "\<exists>(m :: KxManager) p ed signature. Get 1 (env m) = Some p \<and> Authenticated (heap (env m) p) \<and>
    ed \<in> {toy_ed 1} \<and> signature = toy_sign ed (authChallenge 1 (PeerX25519Key (heap (env m) p)))"
proof -
  let ?E = "toy_env 0" and ?a = "toy_manager 1 5" and ?b = "toy_manager 2 9"
  let ?frame = "auth_frame ?E ?a (replicate 32 5) (toy_ed 1)"
  obtain ok m w where h: "HandleAuthFrame ?E ?frame None False (?b, ()) = (ok, m, w)" by (metis prod_cases3)
  have "session (kx_localNodeID ?a) (fst (snd (HandleAuthFrame ?E ?frame None False (?b, ())))) =
      Some (hkdf_key ?E (map2 (+) (replicate 32 9) (replicate 32 5)), True, True)"
    by (rule auth_frame_session [OF toy_wiring toy_wf, where priv = "replicate 32 9"])
      (simp_all add: toy_lookup Get_def NewStore_def)
  then have "session 1 m = Some (hkdf_key ?E (map2 (+) (replicate 32 9) (replicate 32 5)), True, True)"
    by (simp add: h)
  then obtain p where p: "Get 1 (env m) = Some p" "Authenticated (heap (env m) p)"
    by (auto simp: session_def split: option.splits)
  have "kx_history (registry_ok (\<lambda>ed ch sg. sg = toy_sign ed ch) (\<lambda>i. {toy_ed i}) :: unit kx_env \<Rightarrow> bool) ?b m"
    by (rule kx_history.auth [OF _ _ h]) (rule kx_history.start, rule toy_registry)
  from authenticated_sessions_signed [OF this _ _ p]
  have "\<exists>ed signature. ed \<in> {toy_ed 1} \<and> signature = toy_sign ed (authChallenge 1 (PeerX25519Key (heap (env m) p)))"
    by (simp add: NewStore_def)
  with p show ?thesis by blast
qed



text \<open>
  A node with an identity refuses unauthenticated key exchanges from every peer whose
  identity it can look up: it answers with its own authenticated frame and leaves the key
  table and all session keys as they were.
\<close>

theorem unauth_refused_for_known_peer:
  assumes "kx_wiring E" and "kx_wf m" and "HasIdentity m"
    and "fst (GetPeerPubKey E (get32 (go_slice data 0 4)) m) = Some (Some ed)"
    and "HandleUnauthFrame E data from fr (m, w) = (ok, m', w')"
  shows "\<not> ok \<and> crypto (env m') = crypto (env m) \<and>
    (\<forall>p < nextCrypto m. key_view (heap (env m') p) = key_view (heap (env m) p))"
  using kx_wiring.HandleUnauthFrame_cases [OF assms(1,5,2)] assms(3,4)
  by (cases ok) (auto simp: same_keys_def)



text \<open>
  The recovery replies to one peer are throttled: unless the peer is whitelisted, any two
  replies the gate lets through are at least a second apart, whatever the arrival times.
\<close>

theorem replies_one_second_apart:
  assumes "\<not> whitelisted i m"
  shows "sorted_wrt (\<lambda>t t'. t' - t \<ge> second) (reply_run i ts m)"
  using reply_run_spaced [OF assms] by simp



end
