(* ===== verification/Kx_Limit.thy ===== *)
theory Kx_Limit
  imports Routing
begin

text \<open>
  The two limiters of key-exchange frames of \<^verbatim>\<open>src/pkg/daemon/tunnel.go\<close>: one token bucket
  per source address for frames that arrive directly, one per source node for frames a beacon
  relays. Both bound the frames that reach the signature check and the scalar multiplication.

  The refill is \<^verbatim>\<open>int(elapsed.Seconds() * float64(limit))\<close>. The model has the exact
  quotient: below one second the only elapsed times at a boundary are the fifths of a second, at
  which the double product is exactly 1 to 4, and from one second on the bucket is full anyway.

  The map of the source limiter is keyed by \<^verbatim>\<open>addr.IP.String()\<close>, which is the same for an
  IPv4 address and its IPv6-mapped form; \<open>ip_string\<close> is that normal form as bytes.
\<close>

section \<open>The limiters\<close>

definition perSourceKxLimit :: int where "perSourceKxLimit = 5"
definition maxPerSrcKxEntries :: nat where "maxPerSrcKxEntries = 4096"
definition perRelaySrcKxLimit :: int where "perRelaySrcKxLimit = 5"
definition maxRelayKxEntries :: nat where "maxRelayKxEntries = 4096"
definition relayKxPruneAge :: duration where "relayKxPruneAge = 10 * second"

lemmas limit_consts =
  perSourceKxLimit_def maxPerSrcKxEntries_def perRelaySrcKxLimit_def maxRelayKxEntries_def relayKxPruneAge_def

record srcKxBucket =
  tokens :: int
  lastFill :: instant

text \<open>The refill and the take of a bucket that exists, the same code in both limiters.\<close>

definition bucket_refill :: "int \<Rightarrow> instant \<Rightarrow> srcKxBucket \<Rightarrow> srcKxBucket" where
  "bucket_refill limit now b =
    (let elapsed = time_sub now (lastFill b) in
     if elapsed > 0 then
       let refill = elapsed * limit div second in
       if refill > 0 then b\<lparr> tokens := min limit (tokens b + refill), lastFill := now \<rparr> else b
     else b)"

definition bucket_take :: "srcKxBucket \<Rightarrow> bool \<times> srcKxBucket" where
  "bucket_take b = (if tokens b > 0 then (True, b\<lparr> tokens := tokens b - 1 \<rparr>) else (False, b))"

definition ip_string :: "bytes \<Rightarrow> bytes" where
  "ip_string ip = (if length ip = 16 \<and> take 12 ip = v4InV6Prefix then drop 12 ip else ip)"

definition pruneKxRateLimLocked :: "instant \<Rightarrow> (bytes \<rightharpoonup> srcKxBucket) \<Rightarrow> bytes \<rightharpoonup> srcKxBucket" where
  "pruneKxRateLimLocked now lim = map_prune (\<lambda>b. relayKxPruneAge \<le> time_sub now (lastFill b)) lim"

definition pruneRelayKxLocked :: "instant \<Rightarrow> (node_id \<rightharpoonup> srcKxBucket) \<Rightarrow> node_id \<rightharpoonup> srcKxBucket" where
  "pruneRelayKxLocked now lim = map_prune (\<lambda>b. relayKxPruneAge \<le> time_sub now (lastFill b)) lim"

definition allowKxFromSource ::
    "instant \<Rightarrow> UDPAddr option \<Rightarrow> (bytes \<rightharpoonup> srcKxBucket) \<Rightarrow> bool \<times> (bytes \<rightharpoonup> srcKxBucket)" where
  "allowKxFromSource now addr lim =
    (case addr of None \<Rightarrow> (True, lim)
     | Some a \<Rightarrow>
       let key = ip_string (IP a) in
       case lim key of
         None \<Rightarrow>
           let lim1 = (if maxPerSrcKxEntries \<le> map_len lim then pruneKxRateLimLocked now lim else lim) in
           if maxPerSrcKxEntries \<le> map_len lim1 then (False, lim1)
           else (True, lim1(key \<mapsto> \<lparr> tokens = perSourceKxLimit - 1, lastFill = now \<rparr>))
       | Some b \<Rightarrow>
           (case bucket_take (bucket_refill perSourceKxLimit now b) of (ok, b') \<Rightarrow> (ok, lim(key \<mapsto> b'))))"

definition allowKxFromRelaySrc ::
    "instant \<Rightarrow> node_id \<Rightarrow> (node_id \<rightharpoonup> srcKxBucket) \<Rightarrow> bool \<times> (node_id \<rightharpoonup> srcKxBucket)" where
  "allowKxFromRelaySrc now srcNodeID lim =
    (case lim srcNodeID of
       None \<Rightarrow>
         let lim1 = (if maxRelayKxEntries \<le> map_len lim then pruneRelayKxLocked now lim else lim) in
         if maxRelayKxEntries \<le> map_len lim1 then (False, lim1)
         else (True, lim1(srcNodeID \<mapsto> \<lparr> tokens = perRelaySrcKxLimit - 1, lastFill = now \<rparr>))
     | Some b \<Rightarrow>
         (case bucket_take (bucket_refill perRelaySrcKxLimit now b) of (ok, b') \<Rightarrow> (ok, lim(srcNodeID \<mapsto> b'))))"

section \<open>What a limiter promises\<close>

text \<open>
  A limiter keeps for every key a budget. The budget grows with the clock at a fixed rate,
  every accepted frame takes one unit of it, and no call raises a budget. The number of frames
  accepted for a key is then bounded by its budget and the time that passes, whatever the
  other keys do.
\<close>

locale rate_limiter =
  fixes allow :: "instant \<Rightarrow> 'a \<Rightarrow> 's \<Rightarrow> bool \<times> 's"
    and key :: "'a \<Rightarrow> 'k"
    and good :: "instant \<Rightarrow> 's \<Rightarrow> bool"
    and budget :: "'k \<Rightarrow> instant \<Rightarrow> 's \<Rightarrow> int"
    and rate unit :: int
  assumes good_later: "\<lbrakk> good now s; now \<le> now' \<rbrakk> \<Longrightarrow> good now' s"
    and good_allow: "\<lbrakk> good now s; allow now x s = (ok, s') \<rbrakk> \<Longrightarrow> good now s'"
    and budget_nonneg: "good now s \<Longrightarrow> 0 \<le> budget k now s"
    and budget_later: "now \<le> now' \<Longrightarrow> budget k now' s \<le> budget k now s + rate * (now' - now)"
    and allow_pays: "\<lbrakk> good now s; allow now x s = (ok, s') \<rbrakk> \<Longrightarrow>
      budget (key x) now s' + (if ok then unit else 0) \<le> budget (key x) now s"
    and allow_other: "\<lbrakk> good now s; allow now x s = (ok, s'); k \<noteq> key x \<rbrakk> \<Longrightarrow>
      budget k now s' \<le> budget k now s"
begin

text \<open>The number of frames accepted for a key in a run of timed calls.\<close>

fun accepted :: "'k \<Rightarrow> (instant \<times> 'a) list \<Rightarrow> 's \<Rightarrow> nat" where
  "accepted k [] s = 0"
| "accepted k ((now, x) # calls) s =
    (case allow now x s of (ok, s') \<Rightarrow> (if ok \<and> key x = k then 1 else 0) + accepted k calls s')"

lemma accepted_bounded:
  assumes "good t0 s" and "sorted (t0 # map fst calls)" and "\<forall>t\<in>fst ` set calls. t \<le> t1" and "t0 \<le> t1"
  shows "unit * int (accepted k calls s) \<le> budget k t0 s + rate * (t1 - t0)"
  using assms
proof (induction calls arbitrary: t0 s)
  case Nil
  then show ?case using budget_nonneg [of t1 s k] budget_later [of t0 t1 k s] good_later [of t0 s t1] by simp
next
  case (Cons call calls)
  obtain now x where call: "call = (now, x)" by force
  obtain ok s' where al: "allow now x s = (ok, s')" by force
  have le: "t0 \<le> now" "now \<le> t1" using Cons.prems call by auto
  have g: "good now s" using good_later [OF Cons.prems(1) le(1)] .
  have "unit * int (accepted k calls s') \<le> budget k now s' + rate * (t1 - now)"
    using Cons.IH [OF good_allow [OF g al]] Cons.prems call le by auto
  moreover have "budget k now s' + (if ok \<and> key x = k then unit else 0) \<le> budget k now s"
    using allow_pays [OF g al] allow_other [OF g al, of k] by (cases "key x = k") auto
  moreover have "budget k now s + rate * (t1 - now) \<le> budget k t0 s + rate * (t1 - t0)"
    using budget_later [OF le(1), of k s] by (simp add: algebra_simps)
  ultimately show ?case by (auto simp: call al algebra_simps)
qed

end

section \<open>Both limiters keep the promise\<close>

definition bucket_budget :: "instant \<Rightarrow> srcKxBucket option \<Rightarrow> int" where
  "bucket_budget now ob =
    (case ob of None \<Rightarrow> 5 * second | Some b \<Rightarrow> tokens b * second + 5 * (now - lastFill b))"

definition buckets_good :: "instant \<Rightarrow> ('k \<rightharpoonup> srcKxBucket) \<Rightarrow> bool" where
  "buckets_good now lim \<longleftrightarrow> (\<forall>k b. lim k = Some b \<longrightarrow> 0 \<le> tokens b \<and> lastFill b \<le> now)"

lemma buckets_good_later: "\<lbrakk> buckets_good now lim; now \<le> now' \<rbrakk> \<Longrightarrow> buckets_good now' lim"
  by (fastforce simp: buckets_good_def)

lemma bucket_budget_nonneg: "buckets_good now lim \<Longrightarrow> 0 \<le> bucket_budget now (lim k)"
  by (auto simp: buckets_good_def bucket_budget_def split: option.splits)

lemma bucket_budget_later: "now \<le> now' \<Longrightarrow> bucket_budget now' ob \<le> bucket_budget now ob + 5 * (now' - now)"
  by (auto simp: bucket_budget_def split: option.splits)

lemma bucket_refill_budget:
  assumes "0 \<le> tokens b" and "lastFill b \<le> now"
  shows "0 \<le> tokens (bucket_refill 5 now b)" and "lastFill (bucket_refill 5 now b) \<le> now"
    and "bucket_budget now (Some (bucket_refill 5 now b)) \<le> bucket_budget now (Some b)"
proof -
  let ?e = "time_sub now (lastFill b)"
  have e: "?e \<le> now - lastFill b" using assms(2) by (auto simp: time_sub_def)
  have "?e * 5 div second * second \<le> ?e * 5"
    by (simp add: minus_mod_eq_div_mult [symmetric])
  then have "min 5 (tokens b + ?e * 5 div second) * second \<le> tokens b * second + ?e * 5"
    by (auto simp: min_def algebra_simps)
  then show "bucket_budget now (Some (bucket_refill 5 now b)) \<le> bucket_budget now (Some b)"
    using e by (auto simp: bucket_refill_def Let_def bucket_budget_def)
  show "0 \<le> tokens (bucket_refill 5 now b)" "lastFill (bucket_refill 5 now b) \<le> now"
    using assms by (auto simp: bucket_refill_def Let_def)
qed

lemma bucket_take_budget:
  assumes "bucket_take b = (ok, b')" and "0 \<le> tokens b"
  shows "0 \<le> tokens b'" and "lastFill b' = lastFill b"
    and "bucket_budget now (Some b') + (if ok then second else 0) \<le> bucket_budget now (Some b)"
  using assms by (auto simp: bucket_take_def bucket_budget_def split: if_splits)

lemma prune_good: "buckets_good now lim \<Longrightarrow> buckets_good now (map_prune P lim)"
  by (auto simp: buckets_good_def map_prune_def split: option.splits if_splits)

lemma prune_budget:
  assumes "buckets_good now lim"
  shows "bucket_budget now (map_prune (\<lambda>b. relayKxPruneAge \<le> time_sub now (lastFill b)) lim k)
    \<le> bucket_budget now (lim k)"
proof (cases "lim k")
  case (Some b)
  have "relayKxPruneAge \<le> time_sub now (lastFill b) \<longleftrightarrow> relayKxPruneAge \<le> now - lastFill b"
    by (rule time_sub_ge) (simp_all add: relayKxPruneAge_def)
  moreover have "0 \<le> tokens b" using assms Some by (auto simp: buckets_good_def)
  ultimately show ?thesis
    by (auto simp: Some map_prune_def bucket_budget_def relayKxPruneAge_def)
qed (simp add: map_prune_def)

text \<open>
  The common body of the two functions, over an arbitrary key type; the limiters are its
  instances.
\<close>

definition limiter_step ::
    "nat \<Rightarrow> instant \<Rightarrow> 'k \<Rightarrow> ('k \<rightharpoonup> srcKxBucket) \<Rightarrow> bool \<times> ('k \<rightharpoonup> srcKxBucket)" where
  "limiter_step cap now key lim =
    (case lim key of
       None \<Rightarrow>
         let lim1 = (if cap \<le> map_len lim then map_prune (\<lambda>b. relayKxPruneAge \<le> time_sub now (lastFill b)) lim else lim) in
         if cap \<le> map_len lim1 then (False, lim1)
         else (True, lim1(key \<mapsto> \<lparr> tokens = 4, lastFill = now \<rparr>))
     | Some b \<Rightarrow> (case bucket_take (bucket_refill 5 now b) of (ok, b') \<Rightarrow> (ok, lim(key \<mapsto> b'))))"

lemma allowKxFromSource_step:
  "allowKxFromSource now (Some a) lim = limiter_step maxPerSrcKxEntries now (ip_string (IP a)) lim"
  by (simp add: allowKxFromSource_def limiter_step_def pruneKxRateLimLocked_def perSourceKxLimit_def Let_def split: option.split)

lemma allowKxFromRelaySrc_step:
  "allowKxFromRelaySrc now i lim = limiter_step maxRelayKxEntries now i lim"
  by (simp add: allowKxFromRelaySrc_def limiter_step_def pruneRelayKxLocked_def perRelaySrcKxLimit_def Let_def split: option.split)

lemma limiter_step_other:
  assumes "buckets_good now lim" and "limiter_step cap now k' lim = (ok, lim')" and "k \<noteq> k'"
  shows "bucket_budget now (lim' k) \<le> bucket_budget now (lim k)"
  using assms prune_budget [OF assms(1), of k]
  by (auto simp: limiter_step_def Let_def split: option.splits if_splits prod.splits)

lemma limiter_step_good:
  assumes "buckets_good now lim" and "limiter_step cap now k lim = (ok, lim')"
  shows "buckets_good now lim'"
proof (cases "lim k")
  case None
  then show ?thesis
    using assms prune_good [OF assms(1)]
    by (auto simp: limiter_step_def Let_def buckets_good_def split: if_splits)
next
  case (Some b)
  obtain ok' b' where t: "bucket_take (bucket_refill 5 now b) = (ok', b')" by force
  have b: "0 \<le> tokens b" "lastFill b \<le> now" using assms Some by (auto simp: buckets_good_def)
  have "lim' = lim(k \<mapsto> b')" using assms(2) Some t by (simp add: limiter_step_def)
  then show ?thesis
    using assms(1) bucket_take_budget [OF t] bucket_refill_budget [OF b] by (auto simp: buckets_good_def)
qed

lemma limiter_step_pays:
  assumes "buckets_good now lim" and "limiter_step cap now k lim = (ok, lim')"
  shows "bucket_budget now (lim' k) + (if ok then second else 0) \<le> bucket_budget now (lim k)"
proof (cases "lim k")
  case None
  then show ?thesis
    using assms prune_budget [OF assms(1), of k]
    by (auto simp: limiter_step_def Let_def bucket_budget_def map_prune_def split: if_splits)
next
  case (Some b)
  obtain ok' b' where t: "bucket_take (bucket_refill 5 now b) = (ok', b')" by force
  have b: "0 \<le> tokens b" "lastFill b \<le> now" using assms Some by (auto simp: buckets_good_def)
  have "lim' k = Some b'" "ok = ok'" using assms(2) Some t by (auto simp: limiter_step_def)
  then show ?thesis
    using Some bucket_take_budget(3) [OF t bucket_refill_budget(1) [OF b], of now] bucket_refill_budget(3) [OF b]
    by auto
qed

lemmas limiter_laws =
  buckets_good_later limiter_step_good bucket_budget_nonneg bucket_budget_later limiter_step_pays limiter_step_other

interpretation source_limit: rate_limiter "\<lambda>now a. allowKxFromSource now (Some a)" "\<lambda>a. ip_string (IP a)"
  buckets_good "\<lambda>k now lim. bucket_budget now (lim k)" 5 second
  by (unfold_locales; (unfold allowKxFromSource_step)?; (rule limiter_laws; assumption))

interpretation relay_limit: rate_limiter allowKxFromRelaySrc "\<lambda>i. i"
  buckets_good "\<lambda>k now lim. bucket_budget now (lim k)" 5 second
  by (unfold_locales; (unfold allowKxFromRelaySrc_step)?; (rule limiter_laws; assumption))

section \<open>The bound\<close>

text \<open>The frames the limiters let through in a run of arrivals.\<close>

fun source_admits :: "bytes \<Rightarrow> (instant \<times> UDPAddr) list \<Rightarrow> (bytes \<rightharpoonup> srcKxBucket) \<Rightarrow> nat" where
  "source_admits k [] lim = 0"
| "source_admits k ((now, a) # arrivals) lim =
    (case allowKxFromSource now (Some a) lim of (ok, lim') \<Rightarrow>
       (if ok \<and> ip_string (IP a) = k then 1 else 0) + source_admits k arrivals lim')"

fun relay_admits :: "node_id \<Rightarrow> (instant \<times> node_id) list \<Rightarrow> (node_id \<rightharpoonup> srcKxBucket) \<Rightarrow> nat" where
  "relay_admits k [] lim = 0"
| "relay_admits k ((now, i) # arrivals) lim =
    (case allowKxFromRelaySrc now i lim of (ok, lim') \<Rightarrow>
       (if ok \<and> i = k then 1 else 0) + relay_admits k arrivals lim')"

lemma source_admits_accepted: "source_admits k arrivals lim = source_limit.accepted k arrivals lim"
  by (induction k arrivals lim rule: source_admits.induct) (auto split: prod.splits)

lemma relay_admits_accepted: "relay_admits k arrivals lim = relay_limit.accepted k arrivals lim"
  by (induction k arrivals lim rule: relay_admits.induct) (auto split: prod.splits)

text \<open>
  (C16) Key-exchange work is rate limited. However many frames arrive from however many other
  sources, between two instants at most five frames per second, and five more, of one source
  address (of one relayed node) pass the limiter, from its empty state on.
\<close>

theorem kx_frames_rate_limited:
  assumes "sorted (t0 # map fst arrivals)" and "\<forall>t\<in>fst ` set arrivals. t \<le> t1" and "t0 \<le> t1"
    and "sorted (t0 # map fst relayed)" and "\<forall>t\<in>fst ` set relayed. t \<le> t1"
  shows "second * int (source_admits ip arrivals Map.empty) \<le> 5 * second + 5 * (t1 - t0) \<and>
    second * int (relay_admits i relayed Map.empty) \<le> 5 * second + 5 * (t1 - t0)"
  using source_limit.accepted_bounded [of t0 Map.empty arrivals t1 ip]
    relay_limit.accepted_bounded [of t0 Map.empty relayed t1 i] assms
  by (simp add: source_admits_accepted relay_admits_accepted buckets_good_def bucket_budget_def)

text \<open>Nine frames of one address in 400 milliseconds: at most seven pass.\<close>

theorem kx_frames_rate_limited_witness:
  "second * int (source_admits [192, 0, 2, 1] (map (\<lambda>k. (50 * k * millisecond, sample_addr\<lparr> IP := [192, 0, 2, 1] \<rparr>))
      [0, 1, 2, 3, 4, 5, 6, 7, 8]) Map.empty) \<le> 7 * second"
  using kx_frames_rate_limited [of 0 "map (\<lambda>k. (50 * k * millisecond, sample_addr\<lparr> IP := [192, 0, 2, 1] \<rparr>))
      [0, 1, 2, 3, 4, 5, 6, 7, 8]" "400 * millisecond" "[]" "[192, 0, 2, 1]" 0]
  by simp

end
