(* ===== verification/Envelope.thy ===== *)
theory Envelope
  imports Key_Store
begin

text \<open>
  The AEAD framing layer of \<^verbatim>\<open>src/pkg/daemon/envelope/envelope.go\<close>. The cipher
  (\<^verbatim>\<open>cipher.AEAD\<close>: \<open>seal\<close> and \<open>unseal\<close>, on a key, a nonce, a text and the
  additional data) and the frame magic \<^verbatim>\<open>TunnelMagicSecure\<close> are arguments. The nonce size
  is the 12 bytes of GCM, which \<^verbatim>\<open>DecryptFrame\<close> fixes as well.
\<close>

type_synonym seal_fun = "aead_key \<Rightarrow> bytes \<Rightarrow> bytes \<Rightarrow> bytes \<Rightarrow> bytes"
type_synonym open_fun = "aead_key \<Rightarrow> bytes \<Rightarrow> bytes \<Rightarrow> bytes \<Rightarrow> bytes option"

datatype env_error =
  ErrNoKey | ErrNotReady | ErrReplay | ErrOutsideWindow | ErrAEAD | ErrTooShort

record DecryptResult =
  ResPlaintext :: bytes
  PeerNodeID :: node_id
  Counter :: u64
  Err :: "env_error option"
  ResMaxRecvNonce :: u64

definition EncryptWith :: "seal_fun \<Rightarrow> bytes \<Rightarrow> cptr \<Rightarrow> bytes \<Rightarrow> Store \<Rightarrow> bytes \<times> Store" where
  "EncryptWith seal magic p plaintext s =
    (let c = heap s p;
         counter = Nonce c + 1;
         nonce = NoncePrefix c @ put64 counter;
         s1 = set_crypto p (c\<lparr> Nonce := counter \<rparr>) s;
         local = LocalNodeID s1;
         aad = put32 local;
         ciphertext = seal (AEAD c) nonce plaintext aad;
         s2 = s1\<lparr> EncryptOK := EncryptOK s1 + 1 \<rparr>
     in (magic @ put32 local @ nonce @ ciphertext, s2))"

definition EncryptFrame ::
    "seal_fun \<Rightarrow> bytes \<Rightarrow> node_id \<Rightarrow> bytes \<Rightarrow> Store \<Rightarrow> (env_error + bytes) \<times> Store" where
  "EncryptFrame seal magic dst plaintext s =
    (case Get dst s of
       None \<Rightarrow> (Inl ErrNoKey, s)
     | Some p \<Rightarrow>
        if \<not> Ready (heap s p) then (Inl ErrNotReady, s)
        else case EncryptWith seal magic p plaintext s of (frame, s') \<Rightarrow> (Inr frame, s'))"

definition rejectResult ::
    "cptr \<Rightarrow> node_id \<Rightarrow> u64 \<Rightarrow> u64 \<Rightarrow> Store \<Rightarrow> DecryptResult \<times> Store" where
  "rejectResult p peerNodeID recvCounter maxN s =
    (let c = heap s p;
         res = (\<lambda>e. \<lparr> ResPlaintext = [], PeerNodeID = peerNodeID, Counter = recvCounter,
                     Err = Some e, ResMaxRecvNonce = maxN \<rparr>)
     in if recvCounter < maxN \<and> maxN - recvCounter \<ge> of_nat ReplayWindowSize
        then (res ErrOutsideWindow,
              set_crypto p (c\<lparr> OutsideWindowCount := OutsideWindowCount c + 1 \<rparr>) s)
        else (res ErrReplay, set_crypto p (c\<lparr> ReplayCount := ReplayCount c + 1 \<rparr>) s))"

text \<open>
  \<^verbatim>\<open>DecryptFrame\<close> takes the replay lock four times. Its two halves are separate
  definitions, so that another frame may be handled in between: the pre-check and the AEAD,
  and the commit of an authenticated frame that passed the pre-check.
\<close>

definition commit_frame ::
    "cptr \<Rightarrow> node_id \<Rightarrow> u64 \<Rightarrow> bytes \<Rightarrow> Store \<Rightarrow> DecryptResult \<times> Store" where
  "commit_frame p peerNodeID recvCounter plaintext s =
    (case CheckAndRecordNonce recvCounter (heap s p) of (committed, c1) \<Rightarrow>
      let s1 = set_crypto p c1 s; maxN = MaxRecvNonce c1 in
      if \<not> committed then rejectResult p peerNodeID recvCounter maxN s1
      else (\<lparr> ResPlaintext = plaintext, PeerNodeID = peerNodeID, Counter = recvCounter,
              Err = None, ResMaxRecvNonce = maxN \<rparr>,
            set_crypto p (c1\<lparr> DecryptFailCount := 0, OutsideWindowCount := 0, ReplayCount := 0 \<rparr>) s1))"

definition frame_peer :: "bytes \<Rightarrow> node_id" where
  "frame_peer data = get32 (go_slice data 0 4)"

definition frame_counter :: "bytes \<Rightarrow> u64" where
  "frame_counter data = get64 (drop (12 - 8) (go_slice data 4 16))"

definition open_frame :: "open_fun \<Rightarrow> bytes \<Rightarrow> Crypto \<Rightarrow> bytes option" where
  "open_frame unseal data c =
    unseal (AEAD c) (go_slice data 4 16) (drop 16 data) (put32 (frame_peer data))"

definition DecryptFrame :: "open_fun \<Rightarrow> bytes \<Rightarrow> Store \<Rightarrow> DecryptResult \<times> Store" where
  "DecryptFrame unseal data s =
    (if length data < 4 + 12 + 16 then
       (\<lparr> ResPlaintext = [], PeerNodeID = 0, Counter = 0, Err = Some ErrTooShort, ResMaxRecvNonce = 0 \<rparr>, s)
     else let peerNodeID = frame_peer data;
              nokey = \<lparr> ResPlaintext = [], PeerNodeID = peerNodeID, Counter = 0,
                        Err = Some ErrNoKey, ResMaxRecvNonce = 0 \<rparr> in
       case Get peerNodeID s of
         None \<Rightarrow> (nokey, s)
       | Some p \<Rightarrow>
          let c = heap s p in
          if \<not> Ready c then (nokey, s)
          else let recvCounter = frame_counter data;
                   accept = WouldAcceptNonce recvCounter c;
                   maxN = MaxRecvNonce c in
            case open_frame unseal data c of
              None \<Rightarrow>
                (\<lparr> ResPlaintext = [], PeerNodeID = peerNodeID, Counter = recvCounter,
                   Err = Some ErrAEAD, ResMaxRecvNonce = maxN \<rparr>,
                 set_crypto p (c\<lparr> DecryptFailCount := DecryptFailCount c + 1 \<rparr>)
                   (s\<lparr> EncryptFail := EncryptFail s + 1 \<rparr>))
            | Some plaintext \<Rightarrow>
                if \<not> accept then rejectResult p peerNodeID recvCounter maxN s
                else commit_frame p peerNodeID recvCounter plaintext s)"

section \<open>Frames\<close>

text \<open>The layout of a frame after its magic, as \<^verbatim>\<open>DecryptFrame\<close> reads it.\<close>

lemma frame_fields:
  assumes "length prefix = 4"
  shows "frame_peer (put32 peer @ (prefix @ put64 n) @ ct) = peer"
    and "frame_counter (put32 peer @ (prefix @ put64 n) @ ct) = n"
    and "go_slice (put32 peer @ (prefix @ put64 n) @ ct) 4 16 = prefix @ put64 n"
    and "drop 16 (put32 peer @ (prefix @ put64 n) @ ct) = ct"
  using assms by (simp_all add: frame_peer_def frame_counter_def go_slice_def)

lemma EncryptWith_frame:
  "fst (EncryptWith seal magic p plaintext s) =
    magic @ put32 (localNodeID s) @ (NoncePrefix (heap s p) @ put64 (Nonce (heap s p) + 1)) @
    seal (AEAD (heap s p)) (NoncePrefix (heap s p) @ put64 (Nonce (heap s p) + 1)) plaintext
      (put32 (localNodeID s))"
  by (simp add: EncryptWith_def Let_def LocalNodeID_def)

lemma EncryptWith_state:
  "heap (snd (EncryptWith seal magic p plaintext s)) p = (heap s p)\<lparr> Nonce := Nonce (heap s p) + 1 \<rparr>"
  "q \<noteq> p \<Longrightarrow> heap (snd (EncryptWith seal magic p plaintext s)) q = heap s q"
  "crypto (snd (EncryptWith seal magic p plaintext s)) = crypto s"
  "localNodeID (snd (EncryptWith seal magic p plaintext s)) = localNodeID s"
  by (simp_all add: EncryptWith_def Let_def)

section \<open>Replay protection of frames\<close>

text \<open>
  What a frame is to the replay filter: the peer it names and its counter. The relation
  extends the window's to the whole store, one window per installed key.
\<close>

definition frame_key :: "bytes \<Rightarrow> node_id \<times> u64" where
  "frame_key data = (frame_peer data, frame_counter data)"

definition store_rel :: "Store \<Rightarrow> (node_id \<times> u64) set \<Rightarrow> bool" where
  "store_rel s S \<longleftrightarrow> inj_on (crypto s) (dom (crypto s)) \<and>
    (\<forall>peer p. crypto s peer = Some p \<longrightarrow> seen_rel (heap s p) {n. (peer, n) \<in> S})"

definition deliver :: "open_fun \<Rightarrow> bytes \<Rightarrow> Store \<Rightarrow> bool \<times> Store" where
  "deliver unseal data s = (case DecryptFrame unseal data s of (r, s') \<Rightarrow> (Err r = None, s'))"

lemma deliver_simps:
  "fst (deliver unseal data s) \<longleftrightarrow> Err (fst (DecryptFrame unseal data s)) = None"
  "snd (deliver unseal data s) = snd (DecryptFrame unseal data s)"
  by (simp_all add: deliver_def split_beta)

lemma seen_rel_counters [simp]:
  "seen_rel (c\<lparr> DecryptFailCount := x \<rparr>) S = seen_rel c S"
  "seen_rel (c\<lparr> OutsideWindowCount := x \<rparr>) S = seen_rel c S"
  "seen_rel (c\<lparr> ReplayCount := x \<rparr>) S = seen_rel c S"
  by (simp_all add: seen_rel_def window_rel_def)

lemma store_rel_update:
  assumes "store_rel s S" and "crypto s peer = Some p"
    and "seen_rel c {n. (peer, n) \<in> T}" and "\<And>q n. q \<noteq> peer \<Longrightarrow> (q, n) \<in> T \<longleftrightarrow> (q, n) \<in> S"
  shows "store_rel (set_crypto p c s) T"
  unfolding store_rel_def
proof (intro conjI allI impI)
  show "inj_on (crypto (set_crypto p c s)) (dom (crypto (set_crypto p c s)))"
    using assms(1) by (simp add: store_rel_def)
  fix q r assume qr: "crypto (set_crypto p c s) q = Some r"
  show "seen_rel (heap (set_crypto p c s) r) {n. (q, n) \<in> T}"
  proof (cases "q = peer")
    case True
    with qr assms(2,3) show ?thesis by simp
  next
    case False
    with qr assms(1,2) have "r \<noteq> p"
      by (auto simp: store_rel_def inj_on_def dom_def)
    with qr False assms(1,4) show ?thesis by (simp add: store_rel_def)
  qed
qed

text \<open>The outcomes of \<^verbatim>\<open>DecryptFrame\<close>, one lemma per path past the header checks.\<close>

definition frame_ready :: "bytes \<Rightarrow> Store \<Rightarrow> cptr \<Rightarrow> bool" where
  "frame_ready data s p \<longleftrightarrow>
    32 \<le> length data \<and> Get (frame_peer data) s = Some p \<and> Ready (heap s p)"

lemma DecryptFrame_unready:
  assumes "\<And>p. \<not> frame_ready data s p"
  shows "snd (DecryptFrame unseal data s) = s"
    and "Err (fst (DecryptFrame unseal data s)) = Some (if length data < 32 then ErrTooShort else ErrNoKey)"
  using assms by (auto simp: DecryptFrame_def frame_ready_def Let_def split: option.splits)

lemma DecryptFrame_forged:
  assumes "frame_ready data s p" and "open_frame unseal data (heap s p) = None"
  shows "DecryptFrame unseal data s =
    (\<lparr> ResPlaintext = [], PeerNodeID = frame_peer data, Counter = frame_counter data,
       Err = Some ErrAEAD, ResMaxRecvNonce = MaxRecvNonce (heap s p) \<rparr>,
     set_crypto p ((heap s p)\<lparr> DecryptFailCount := DecryptFailCount (heap s p) + 1 \<rparr>)
       (s\<lparr> EncryptFail := EncryptFail s + 1 \<rparr>))"
  using assms by (simp add: DecryptFrame_def frame_ready_def Let_def)

lemma DecryptFrame_refused:
  assumes "frame_ready data s p" and "open_frame unseal data (heap s p) = Some pt"
    and "\<not> WouldAcceptNonce (frame_counter data) (heap s p)"
  shows "DecryptFrame unseal data s =
    rejectResult p (frame_peer data) (frame_counter data) (MaxRecvNonce (heap s p)) s"
  using assms by (simp add: DecryptFrame_def frame_ready_def Let_def)

lemma DecryptFrame_accepted:
  assumes "frame_ready data s p" and "open_frame unseal data (heap s p) = Some pt"
    and "WouldAcceptNonce (frame_counter data) (heap s p)"
  defines "c1 \<equiv> snd (CheckAndRecordNonce (frame_counter data) (heap s p))"
  shows "DecryptFrame unseal data s =
    (\<lparr> ResPlaintext = pt, PeerNodeID = frame_peer data, Counter = frame_counter data,
       Err = None, ResMaxRecvNonce = MaxRecvNonce c1 \<rparr>,
     set_crypto p (c1\<lparr> DecryptFailCount := 0, OutsideWindowCount := 0, ReplayCount := 0 \<rparr>) s)"
  using assms WouldAcceptNonce_verdict [of "frame_counter data" "heap s p"]
  by (simp add: DecryptFrame_def frame_ready_def commit_frame_def split_beta Let_def set_crypto_def)

lemma rejectResult_simps:
  "Err (fst (rejectResult p peer n m s)) \<noteq> None"
  "snd (rejectResult p peer n m s) =
    set_crypto p (if n < m \<and> m - n \<ge> of_nat ReplayWindowSize
      then (heap s p)\<lparr> OutsideWindowCount := OutsideWindowCount (heap s p) + 1 \<rparr>
      else (heap s p)\<lparr> ReplayCount := ReplayCount (heap s p) + 1 \<rparr>) s"
  by (simp_all add: rejectResult_def Let_def)

lemma DecryptFrame_success_iff:
  "Err (fst (DecryptFrame unseal data s)) = None \<longleftrightarrow>
    (\<exists>p pt. frame_ready data s p \<and> open_frame unseal data (heap s p) = Some pt \<and>
      WouldAcceptNonce (frame_counter data) (heap s p))"
proof (cases "\<exists>p. frame_ready data s p")
  case True
  then obtain p where p: "frame_ready data s p" by blast
  have uniq: "q = p" if "frame_ready data s q" for q using p that by (simp add: frame_ready_def)
  show ?thesis
  proof (cases "open_frame unseal data (heap s p)")
    case None
    then show ?thesis using DecryptFrame_forged [OF p None] uniq by auto
  next
    case (Some pt)
    show ?thesis
    proof (cases "WouldAcceptNonce (frame_counter data) (heap s p)")
      case True
      then show ?thesis using DecryptFrame_accepted [OF p Some True] p Some by auto
    next
      case False
      then show ?thesis
        using DecryptFrame_refused [OF p Some False] uniq
        by (auto simp: rejectResult_simps simp del: not_None_eq)
    qed
  qed
qed (auto simp: DecryptFrame_unready(2))

lemma seen_rel_store: "store_rel s S \<Longrightarrow> frame_ready data s p \<Longrightarrow>
    seen_rel (heap s p) {n. (frame_peer data, n) \<in> S}"
  by (simp add: store_rel_def frame_ready_def Get_def)

lemma store_rel_EncryptFail: "store_rel (s\<lparr> EncryptFail := x \<rparr>) S = store_rel s S"
  by (simp add: store_rel_def)

lemma store_rel_same:
  assumes "store_rel s S" and "frame_ready data s p"
    and "seen_rel c {n. (frame_peer data, n) \<in> S}"
  shows "store_rel (set_crypto p c s) S"
  using assms by (intro store_rel_update [of s S "frame_peer data"]) (auto simp: frame_ready_def Get_def)

interpretation frame_filter: replay_filter "deliver unseal" frame_key store_rel
    "\<lambda>data. frame_counter data \<noteq> 0" for unseal
proof
  fix s S and data
  assume rel: "store_rel s S" and nz: "frame_counter data \<noteq> 0"
  let ?n = "frame_counter data"
  have seen: "seen_rel (heap s p) {n. (frame_peer data, n) \<in> S}" if "frame_ready data s p" for p
    using seen_rel_store [OF rel that] .
  { assume key: "frame_key data \<in> S"
    have "\<not> WouldAcceptNonce ?n (heap s p)" if "frame_ready data s p" for p
      using nonce_filter.refuse_seen [OF seen [OF that], of ?n] key nz
      by (simp add: frame_key_def WouldAcceptNonce_verdict)
    then show "\<not> fst (deliver unseal data s)"
      by (auto simp: deliver_def split_beta DecryptFrame_success_iff) }
  { assume "fst (deliver unseal data s)"
    then obtain p pt where p: "frame_ready data s p" "open_frame unseal data (heap s p) = Some pt"
        "WouldAcceptNonce ?n (heap s p)"
      by (auto simp: deliver_def split_beta DecryptFrame_success_iff)
    have "seen_rel (snd (CheckAndRecordNonce ?n (heap s p)))
        (insert ?n {n. (frame_peer data, n) \<in> S})"
      using nonce_filter.accept_rel [OF seen [OF p(1)], of ?n] nz p(3)
      by (simp add: WouldAcceptNonce_verdict)
    moreover have "{n. (frame_peer data, n) \<in> insert (frame_key data) S}
        = insert ?n {n. (frame_peer data, n) \<in> S}"
      by (auto simp: frame_key_def)
    ultimately show "store_rel (snd (deliver unseal data s)) (insert (frame_key data) S)"
      using DecryptFrame_accepted [OF p] p(1)
        store_rel_update [OF rel, of "frame_peer data" p _ "insert (frame_key data) S"]
      by (auto simp: deliver_def split_beta frame_ready_def Get_def frame_key_def) }
  { assume bad: "\<not> fst (deliver unseal data s)"
    show "store_rel (snd (deliver unseal data s)) S"
    proof (cases "\<exists>p. frame_ready data s p")
      case True
      then obtain p where p: "frame_ready data s p" by blast
      note keep = store_rel_same [OF rel p]
      show ?thesis
      proof (cases "open_frame unseal data (heap s p)")
        case None
        have "store_rel (s\<lparr> EncryptFail := EncryptFail s + 1 \<rparr>) S" "frame_ready data (s\<lparr> EncryptFail := EncryptFail s + 1 \<rparr>) p"
          using rel p by (simp_all add: store_rel_EncryptFail frame_ready_def Get_def)
        then show ?thesis
          using DecryptFrame_forged [OF p None] store_rel_same seen [OF p]
          by (simp add: deliver_def)
      next
        case (Some pt)
        with bad p have "\<not> WouldAcceptNonce ?n (heap s p)"
          by (auto simp: deliver_def split_beta DecryptFrame_success_iff)
        then show ?thesis
          using DecryptFrame_refused [OF p Some] rejectResult_simps(2) keep seen [OF p]
          by (auto simp: deliver_def split_beta)
      qed
    qed (use rel in \<open>auto simp: deliver_def split_beta DecryptFrame_unready(1)\<close>) }
qed

fun delivered :: "open_fun \<Rightarrow> bytes list \<Rightarrow> Store \<Rightarrow> (node_id \<times> u64) list" where
  "delivered unseal [] s = []"
| "delivered unseal (d # ds) s =
    (case DecryptFrame unseal d s of (r, s') \<Rightarrow>
      (if Err r = None then [(PeerNodeID r, Counter r)] else []) @ delivered unseal ds s')"

lemma DecryptFrame_success_fields:
  assumes "Err (fst (DecryptFrame unseal data s)) = None"
  shows "(PeerNodeID (fst (DecryptFrame unseal data s)), Counter (fst (DecryptFrame unseal data s)))
    = frame_key data"
  using assms DecryptFrame_accepted [of data s]
  by (fastforce simp: DecryptFrame_success_iff frame_key_def)

lemma delivered_filter: "delivered unseal ds s = frame_filter.accepted unseal ds s"
proof (induction ds arbitrary: s)
  case (Cons d ds)
  then show ?case
    using DecryptFrame_success_fields [of unseal d s] by (simp add: split_beta deliver_simps)
qed simp

definition fresh_store :: "Store \<Rightarrow> bool" where
  "fresh_store s \<longleftrightarrow> inj_on (crypto s) (dom (crypto s)) \<and>
    (\<forall>peer p. crypto s peer = Some p \<longrightarrow> fresh_window (heap s p))"

lemma fresh_store_rel: "fresh_store s \<Longrightarrow> store_rel s {}"
  using fresh_window_rel by (auto simp: fresh_store_def store_rel_def seen_rel_def)

text \<open>Commits of several handlers, each past its own pre-check.\<close>

fun commit_run :: "cptr \<Rightarrow> node_id \<Rightarrow> (u64 \<times> bytes) list \<Rightarrow> Store \<Rightarrow> u64 list" where
  "commit_run p peer [] s = []"
| "commit_run p peer ((n, pt) # fs) s =
    (case commit_frame p peer n pt s of (r, s') \<Rightarrow>
      (if Err r = None then [n] else []) @ commit_run p peer fs s')"

definition same_window :: "Crypto \<Rightarrow> Crypto \<Rightarrow> bool" where
  "same_window c d \<longleftrightarrow> MaxRecvNonce c = MaxRecvNonce d \<and> ReplayBitmap c = ReplayBitmap d"

lemma same_window_check:
  assumes "same_window c d"
  shows "fst (CheckAndRecordNonce n c) = fst (CheckAndRecordNonce n d)"
    and "same_window (snd (CheckAndRecordNonce n c)) (snd (CheckAndRecordNonce n d))"
  using assms by (auto simp: same_window_def CheckAndRecordNonce_def SetReplayBit_def Let_def)

lemma commit_frame_window:
  "Err (fst (commit_frame p peer n pt s)) = None \<longleftrightarrow> fst (CheckAndRecordNonce n (heap s p))"
  "same_window (heap (snd (commit_frame p peer n pt s)) p) (snd (CheckAndRecordNonce n (heap s p)))"
  by (auto simp: commit_frame_def rejectResult_simps Let_def same_window_def split_beta
      simp del: not_None_eq)

lemma commit_run_accepted:
  "same_window (heap s p) c \<Longrightarrow> commit_run p peer fs s = accepted_counters (map fst fs) c"
proof (induction fs arbitrary: s c)
  case (Cons f fs)
  obtain n pt where f: "f = (n, pt)" by force
  have "same_window (heap (snd (commit_frame p peer n pt s)) p) (snd (CheckAndRecordNonce n c))"
    using commit_frame_window(2) [of p peer n pt s] same_window_check(2) [OF Cons.prems, of n]
    by (simp add: same_window_def)
  then show ?case
    using Cons.IH commit_frame_window(1) [of p peer n pt s] same_window_check(1) [OF Cons.prems, of n]
    by (simp add: f split_beta)
qed simp

section \<open>Nonces of the sender\<close>

fun sent_nonces :: "seal_fun \<Rightarrow> bytes \<Rightarrow> cptr \<Rightarrow> bytes list \<Rightarrow> Store \<Rightarrow> bytes list" where
  "sent_nonces seal magic p [] s = []"
| "sent_nonces seal magic p (pt # pts) s =
    (case EncryptWith seal magic p pt s of (frame, s') \<Rightarrow>
      go_slice (drop (length magic) frame) 4 16 # sent_nonces seal magic p pts s')"

lemma sent_nonces_counters:
  assumes "length (NoncePrefix (heap s p)) = 4"
  shows "sent_nonces seal magic p pts s =
    map (\<lambda>i. NoncePrefix (heap s p) @ put64 (Nonce (heap s p) + 1 + of_nat i)) [0..<length pts]"
  using assms
proof (induction pts arbitrary: s)
  case (Cons pt pts)
  have "go_slice (drop (length magic) (fst (EncryptWith seal magic p pt s))) 4 16
      = NoncePrefix (heap s p) @ put64 (Nonce (heap s p) + 1)"
    using frame_fields(3) [OF Cons.prems] by (simp add: EncryptWith_frame)
  then show ?case
    using Cons.IH [of "snd (EncryptWith seal magic p pt s)"] Cons.prems
    by (simp add: split_beta EncryptWith_state map_upt_Suc add.commute add.left_commute
        del: upt_Suc)
qed simp

lemma of_nat_add_inj: "inj_on (\<lambda>i. a + of_nat i :: u64) {0..<2 ^ 64}"
proof (rule inj_onI)
  fix i j :: nat
  assume "i \<in> {0..<2 ^ 64}" "j \<in> {0..<2 ^ 64}" and "a + of_nat i = a + of_nat j"
  then have "unat (of_nat i :: u64) = unat (of_nat j :: u64)" "i < 2 ^ 64" "j < 2 ^ 64" by simp_all
  then show "i = j" by (simp add: unat_of_nat take_bit_nat_eq_self)
qed

section \<open>Properties\<close>

text \<open>A concrete cipher with a 16-byte tag that depends on the key.\<close>

definition toy_seal :: seal_fun where
  "toy_seal k n p a = p @ replicate 16 (hd k)"

definition toy_open :: open_fun where
  "toy_open k n ct a =
    (if drop (length ct - 16) ct = replicate 16 (hd k) then Some (take (length ct - 16) ct) else None)"

lemma toy_cipher: "toy_open k n (toy_seal k n p a) a = Some p" "length (toy_seal k n p a) = length p + 16"
  by (simp_all add: toy_open_def toy_seal_def)

definition peer_store :: Store where
  "peer_store = \<lparr> crypto = [3 \<mapsto> 5], heap = (\<lambda>_. sample_crypto), localNodeID = 7,
    EncryptOK = 0, EncryptFail = 0 \<rparr>"

text \<open>
  What one node encrypts the other decrypts. The frame that \<^verbatim>\<open>EncryptWith\<close>
  builds, stripped of its magic, is opened by a node that has the same key installed for
  the sender, with the sender's identity and the plaintext, provided the counter is one its
  window would take. The cipher is assumed to open what it sealed and to add a 16-byte tag.
\<close>

theorem frame_roundtrip:
  assumes cipher: "\<And>k n p a. unseal k n (seal k n p a) a = Some p"
      "\<And>k n p a. length (seal k n p a) = length p + 16"
    and sender: "length (NoncePrefix (heap s p)) = 4" "length magic = 4"
    and receiver: "Get (localNodeID s) r = Some q" "Ready (heap r q)"
      "AEAD (heap r q) = AEAD (heap s p)"
      "WouldAcceptNonce (Nonce (heap s p) + 1) (heap r q)"
  shows "(case DecryptFrame unseal (drop 4 (fst (EncryptWith seal magic p pt s))) r of (res, r') \<Rightarrow>
    Err res = None \<and> ResPlaintext res = pt \<and> PeerNodeID res = localNodeID s \<and>
    Counter res = Nonce (heap s p) + 1 \<and> DecryptFailCount (heap r' q) = 0)"
proof -
  define n where "n = Nonce (heap s p) + 1"
  define ct where "ct = seal (AEAD (heap s p)) (NoncePrefix (heap s p) @ put64 n) pt (put32 (localNodeID s))"
  define d where "d = put32 (localNodeID s) @ (NoncePrefix (heap s p) @ put64 n) @ ct"
  note fields = frame_fields [OF sender(1), of "localNodeID s" n ct, folded d_def]
  have frame: "drop 4 (fst (EncryptWith seal magic p pt s)) = d"
    using sender(2) by (simp add: EncryptWith_frame d_def ct_def n_def)
  have "frame_ready d r q"
    using receiver fields(1) sender(1) cipher(2) by (simp add: frame_ready_def d_def ct_def)
  moreover have "open_frame unseal d (heap r q) = Some pt"
    using receiver(3) fields cipher(1) by (simp add: open_frame_def ct_def)
  ultimately show ?thesis
    using DecryptFrame_accepted [of d r q unseal pt] receiver(4) fields
    by (simp add: frame n_def)
qed

text \<open>
  A forged frame cannot touch the replay state. Whatever counter it carries, a frame
  that fails authentication is answered with \<^verbatim>\<open>ErrAEAD\<close>, raises only the failure
  counter of the key it names, and leaves that key's window and its outside-window and
  replay counters, every other key and the key table as they were.
\<close>

theorem forged_frame_harmless:
  assumes "frame_ready data s p" and "open_frame unseal data (heap s p) = None"
  shows "(case DecryptFrame unseal data s of (res, s') \<Rightarrow>
    Err res = Some ErrAEAD \<and> ResPlaintext res = [] \<and> crypto s' = crypto s \<and>
    (\<forall>q. heap s' q = (if q = p then (heap s p)\<lparr> DecryptFailCount := DecryptFailCount (heap s p) + 1 \<rparr>
      else heap s q)))"
  using DecryptFrame_forged [OF assms] by (simp add: set_crypto_def)

text \<open>
  (C10) No frame is delivered twice. For every sequence of frames, whoever made them, and
  every cipher, the (peer, counter) pairs of the frames delivered from a store of new keys
  are pairwise distinct, as long as no frame carries counter 0.
\<close>

theorem no_frame_delivered_twice:
  assumes "fresh_store s" and "\<forall>d\<in>set ds. frame_counter d \<noteq> 0"
  shows "distinct (delivered unseal ds s)"
  unfolding delivered_filter
  using frame_filter.accepted_fresh [OF fresh_store_rel [OF assms(1)] assms(2)] by blast

theorem no_frame_delivered_twice_witness:
  "distinct (delivered toy_open (replicate 2 (put32 3 @ replicate 4 0 @ put64 9 @ replicate 16 1)) peer_store)"
  by (rule no_frame_delivered_twice)
    (use sample_fresh in \<open>auto simp: fresh_store_def peer_store_def frame_counter_def go_slice_def\<close>)

text \<open>
  The guarantee does not rest on the pre-check: when any number of handlers have
  passed it and commit in any order, the counters committed under one key are still
  pairwise distinct.
\<close>

theorem racing_commits_accept_once:
  assumes "fresh_window (heap s p)" and "0 \<notin> fst ` set fs"
  shows "distinct (commit_run p peer fs s)"
  using commit_run_accepted [of s p "heap s p" peer fs]
    nonce_filter.accepted_fresh [of "heap s p" "{}" "map fst fs"] fresh_window_rel [OF assms(1)] assms(2)
  by (force simp: same_window_def accepted_counters_filter seen_rel_def)

text \<open>
  (C27) The sender never reuses a nonce: the nonces of up to \<^verbatim>\<open>2^64\<close> frames sealed in a
  row under one key are pairwise distinct.
\<close>

theorem nonces_never_repeat:
  assumes "length (NoncePrefix (heap s p)) = 4" and "length pts \<le> 2 ^ 64"
  shows "distinct (sent_nonces seal magic p pts s)"
proof -
  have "inj_on (\<lambda>i. Nonce (heap s p) + 1 + of_nat i) {0..<length pts}"
    using assms(2) by (intro inj_on_subset [OF of_nat_add_inj]) auto
  then show ?thesis
    unfolding sent_nonces_counters [OF assms(1)]
    by (simp add: distinct_map inj_on_def u64_codec.enc_inject)
qed

theorem nonces_never_repeat_witness:
  "distinct (sent_nonces toy_seal [80, 73, 76, 83] 1 [[1], [1], [1]] sample_store)"
  by (rule nonces_never_repeat) (simp_all add: sample_store_def sample_crypto_def)

end
