(* ===== verification/Tunnel.thy ===== *)
theory Tunnel
  imports Key_Exchange Kx_Limit Envelope Conn_Types
begin

text \<open>
  The tunnel manager of \<^verbatim>\<open>src/pkg/daemon/tunnel.go\<close> and the peer activity of
  \<^verbatim>\<open>peeractivity.go\<close>: what a received datagram does, what sending a packet does, and the
  callbacks the tunnel gives to the key exchange.

  The state is the pair of the key-exchange manager \<^verbatim>\<open>tm.kx\<close>, which owns the key store
  \<^verbatim>\<open>tm.envelope\<close>, and the record \<open>Tunnel\<close> of the other fields. The datagrams sent and
  the events published are appended to \<open>outbox\<close> and \<open>events\<close>, the packets handed to
  the daemon to \<open>recvCh\<close>. One handler reads the clock once. Log lines, the channel
  \<^verbatim>\<open>done\<close> and the fault injection of the diagnostic build have no counterpart.

  What is outside \<^verbatim>\<open>src/\<close> is in the record \<open>tun_env\<close>: the packet codec, the
  cryptographic primitives, the socket, the protocol constants and the daemon's callbacks. Two
  of these, the handler of a given-up peer and the handler of a beacon notification, only wake
  a goroutine of the daemon: the tunnel logs the calls (\<open>gaveUpCalls\<close>, \<open>notifyCalls\<close>)
  when the handler is installed.
\<close>

section \<open>State\<close>

definition maxPendingPerPeer :: nat where "maxPendingPerPeer = 64"
definition maxPendingPeers :: nat where "maxPendingPeers = 256"
definition RekeyRelayFallbackAfter :: int where "RekeyRelayFallbackAfter = 2"
definition rekeyRequestInterval :: duration where "rekeyRequestInterval = 3 * second"
definition pendingDropLogInterval :: duration where "pendingDropLogInterval = 5 * second"
definition pendingMaxAge :: duration where "pendingMaxAge = 2 * minute"
definition maxRekeyRequesters :: nat where "maxRekeyRequesters = 4096"
definition TunnelKeepaliveInterval :: duration where "TunnelKeepaliveInterval = 25 * second"
definition discoverReplyWindow :: duration where "discoverReplyWindow = 2 * second"
definition PeerIdleAfter :: duration where "PeerIdleAfter = 2 * minute"
definition beaconMsgNotify :: u8 where "beaconMsgNotify = 10"
definition beaconNotifyHandshake :: u8 where "beaconNotifyHandshake = 1"

lemmas tunnel_consts =
  maxPendingPerPeer_def maxPendingPeers_def RekeyRelayFallbackAfter_def rekeyRequestInterval_def
  pendingDropLogInterval_def pendingMaxAge_def maxRekeyRequesters_def TunnelKeepaliveInterval_def
  discoverReplyWindow_def PeerIdleAfter_def beaconMsgNotify_def beaconNotifyHandshake_def

datatype tun_event =
    KxEvent kx_event
  | NonceReplay node_id u64
  | SrcSpoofed node_id node_id
  | DesyncSalvage node_id nat
  | RelayActivated node_id

datatype tun_error =
    ErrNoTunnel | ErrMarshal | ErrPendingDropped | ErrTooManyPending | ErrNoEndpoint
  | ErrBeaconPlaceholder | ErrNoCrypto | ErrWrite write_error

text \<open>The code keeps the beacon of an observation as a printed address, only to compare it.\<close>

record beaconObservation =
  endpoint :: UDPAddr
  beacon :: UDPAddr
  observedAt :: instant

record IncomingPacket =
  Packet :: packet
  FromAddr :: "UDPAddr option"

text \<open>A nil address in \<^verbatim>\<open>tm.peers\<close> is \<open>Some None\<close>.\<close>

record Tunnel =
  tmSock :: bool
  peers :: "node_id \<rightharpoonup> UDPAddr option"
  activity :: "node_id \<rightharpoonup> instant"
  recvCh :: "IncomingPacket list"
  lastDiscoverNano :: instant
  obsLatest :: "beaconObservation option"
  obsPrev :: "beaconObservation option"
  encrypt :: bool
  tmPrivKey :: "bytes option"
  nodeID :: node_id
  pending :: "node_id \<rightharpoonup> bytes list"
  pendingSince :: "node_id \<rightharpoonup> instant"
  lastPendDropLog :: "node_id \<rightharpoonup> instant"
  lastRekeyReq :: "node_id \<rightharpoonup> instant"
  rekeyWhitelist :: "node_id set option"
  rekeyWhitelistAll :: bool
  routing :: Manager
  kxRateLim :: "bytes \<rightharpoonup> srcKxBucket"
  relayKxLim :: "node_id \<rightharpoonup> srcKxBucket"
  keyViaRelay :: "node_id \<rightharpoonup> bool"
  tmBytesSent :: u64
  tmBytesRecv :: u64
  tmPktsSent :: u64
  tmPktsRecv :: u64
  tmEncryptOK :: u64
  tmEncryptFail :: u64
  LastRecvNano :: instant
  PendingDrops :: u64
  outbox :: "datagram list"
  events :: "tun_event list"
  gaveUpCalls :: "node_id list"
  notifyCalls :: nat

type_synonym TunnelManager = "KxManager \<times> Tunnel"

record tun_env =
  te_now :: instant
  te_send :: socket
  te_consts :: beacon_consts
  te_msgPunchCommand :: u8
  te_msgRelayDeliver :: u8
  te_magic :: bytes
  te_magicSecure :: bytes
  te_magicAuthEx :: bytes
  te_magicKeyEx :: bytes
  te_headerSize :: nat
  te_portPing :: u16
  te_seal :: seal_fun
  te_unseal :: open_fun
  te_marshal :: "packet \<Rightarrow> bytes option"
  te_unmarshal :: "bytes \<Rightarrow> packet option"
  te_trustGate :: "(node_id \<Rightarrow> bool) option"
  te_peerTrustFn :: "(node_id \<Rightarrow> bool) option"
  te_openConnPeers :: "node_id set option"
  te_onRekeyGaveUp :: bool
  te_onBeaconNotify :: bool
  te_rand :: "bytes option"
  te_verifyFunc :: "(node_id \<Rightarrow> bytes option option) option"
  te_x25519 :: "bytes \<Rightarrow> bytes \<Rightarrow> bytes option"
  te_hmac :: "bytes \<Rightarrow> bytes \<Rightarrow> bytes"
  te_sign :: "bytes \<Rightarrow> bytes \<Rightarrow> bytes"
  te_verify :: "bytes \<Rightarrow> bytes \<Rightarrow> bytes \<Rightarrow> bool"

text \<open>
  \<^verbatim>\<open>loadNodeID\<close> is installed as the local-ID callback of the two managers, so the ID they
  read is the tunnel's; \<open>SetNodeID\<close> sets it in all three.
\<close>

definition NewTunnelManager :: "(cptr \<Rightarrow> Crypto) \<Rightarrow> TunnelManager" where
  "NewTunnelManager h =
    ((kx_New (NewStore h) 0)\<lparr> kxLocalNodeIDFn := Some 0 \<rparr>,
     \<lparr> tmSock = False, peers = Map.empty, activity = Map.empty, recvCh = [], lastDiscoverNano = 0,
       obsLatest = None, obsPrev = None, encrypt = False, tmPrivKey = None, nodeID = 0,
       pending = Map.empty, pendingSince = Map.empty, lastPendDropLog = Map.empty,
       lastRekeyReq = Map.empty, rekeyWhitelist = None, rekeyWhitelistAll = False,
       routing = SetLocalNodeIDFn (Some 0) New, kxRateLim = Map.empty, relayKxLim = Map.empty,
       keyViaRelay = Map.empty, tmBytesSent = 0, tmBytesRecv = 0, tmPktsSent = 0, tmPktsRecv = 0,
       tmEncryptOK = 0, tmEncryptFail = 0, LastRecvNano = 0, PendingDrops = 0, outbox = [], events = [],
       gaveUpCalls = [], notifyCalls = 0 \<rparr>)"

definition SetNodeID :: "node_id \<Rightarrow> TunnelManager \<Rightarrow> TunnelManager" where
  "SetNodeID i tm = (case tm of (m, t) \<Rightarrow>
    (m\<lparr> env := SetLocalNodeID i (env m), kxLocalNodeIDFn := Some i \<rparr>,
     t\<lparr> nodeID := i, routing := SetLocalNodeIDFn (Some i) (routing t) \<rparr>))"

text \<open>\<open>key\<close> is the generated key pair; \<open>None\<close> is the generator's error.\<close>

definition EnableEncryption :: "(bytes \<times> bytes) option \<Rightarrow> TunnelManager \<Rightarrow> bool \<times> TunnelManager" where
  "EnableEncryption key tm = (case key of None \<Rightarrow> (False, tm)
    | Some (priv, pub) \<Rightarrow>
      (True, (SetX25519Keys (Some priv) (Some pub) (fst tm), (snd tm)\<lparr> tmPrivKey := Some priv, encrypt := True \<rparr>)))"

definition publishEvent :: "tun_event \<Rightarrow> Tunnel \<Rightarrow> Tunnel" where
  "publishEvent ev t = t\<lparr> events := events t @ [ev] \<rparr>"

section \<open>Peer activity\<close>

definition noteAppActivity :: "instant \<Rightarrow> node_id \<Rightarrow> Tunnel \<Rightarrow> Tunnel" where
  "noteAppActivity now i t = t\<lparr> activity := (activity t)(i \<mapsto> now) \<rparr>"

definition idleFilter :: "tun_env \<Rightarrow> instant \<Rightarrow> Tunnel \<Rightarrow> node_id \<Rightarrow> bool" where
  "idleFilter T now t i =
    (if PeerIdleAfter \<le> 0 \<or> (case te_openConnPeers T of None \<Rightarrow> False | Some on \<Rightarrow> i \<in> on) then False
     else case activity t i of None \<Rightarrow> False | Some at \<Rightarrow> time_sub now at > PeerIdleAfter)"

definition peerInUse :: "tun_env \<Rightarrow> node_id \<Rightarrow> instant \<Rightarrow> Tunnel \<Rightarrow> bool" where
  "peerInUse T i now t =
    (if PeerIdleAfter \<le> 0 then True
     else if (case te_openConnPeers T of None \<Rightarrow> False | Some on \<Rightarrow> i \<in> on) then True
     else case activity t i of None \<Rightarrow> False | Some at \<Rightarrow> time_sub now at \<le> PeerIdleAfter)"

definition PeerIdle :: "tun_env \<Rightarrow> node_id \<Rightarrow> Tunnel \<Rightarrow> bool" where
  "PeerIdle T i t = idleFilter T (te_now T) t i"

section \<open>Writing frames\<close>

definition peerAddr :: "node_id \<Rightarrow> Tunnel \<Rightarrow> UDPAddr option" where
  "peerAddr i t = map_get None (peers t) i"

definition writeFrame ::
    "tun_env \<Rightarrow> node_id \<Rightarrow> UDPAddr option \<Rightarrow> bytes \<Rightarrow> TunnelManager \<Rightarrow> write_error option \<times> TunnelManager" where
  "writeFrame T i addr frame tm =
    (case tm of (m, t) \<Rightarrow>
     case WriteFrame (te_consts T) (te_send T) (te_now T) i addr frame
            \<lparr> CtPktsSent = Some (tmPktsSent t), CtBytesSent = Some (tmBytesSent t) \<rparr> (routing t) of
       ((_, err), sent, counters, r) \<Rightarrow>
         (err,
          if \<not> IsRelayPeer i (routing t) \<and> IsRelayPeer i r then ResetPendingRekeyAttempts i m else m,
          t\<lparr> routing := r, outbox := outbox t @ sent, tmPktsSent := the (CtPktsSent counters),
             tmBytesSent := the (CtBytesSent counters) \<rparr>))"

definition encryptFrame :: "tun_env \<Rightarrow> cptr \<Rightarrow> bytes \<Rightarrow> TunnelManager \<Rightarrow> bytes \<times> TunnelManager" where
  "encryptFrame T p plaintext tm =
    (case tm of (m, t) \<Rightarrow>
     case EncryptWith (te_seal T) (te_magicSecure T) p plaintext (env m) of
       (frame, s) \<Rightarrow> (frame, m\<lparr> env := s \<rparr>, t\<lparr> tmEncryptOK := tmEncryptOK t + 1 \<rparr>))"

definition maybeForceRelayOnRekey :: "node_id \<Rightarrow> int \<Rightarrow> TunnelManager \<Rightarrow> TunnelManager" where
  "maybeForceRelayOnRekey i attempt tm =
    (case tm of (m, t) \<Rightarrow>
     if attempt < RekeyRelayFallbackAfter then (m, t)
     else if IsRelayPeer i (routing t) then (m, t)
     else (m, t\<lparr> routing := SetRelayPeer i True (routing t) \<rparr>))"

definition recordInboundDecrypt :: "instant \<Rightarrow> node_id \<Rightarrow> TunnelManager \<Rightarrow> TunnelManager" where
  "recordInboundDecrypt now i tm =
    (kx_ClearRekeyGaveUp i (RecordInboundDecrypt now i (fst tm)),
     (snd tm)\<lparr> routing := ClearSendErrCount i (routing (snd tm)) \<rparr>)"

section \<open>After a key is installed\<close>

text \<open>The loop of \<^verbatim>\<open>replaySalvage\<close>; the result counts the frames that went out.\<close>

fun replay_entries ::
    "tun_env \<Rightarrow> cptr \<Rightarrow> node_id \<Rightarrow> UDPAddr \<Rightarrow> SalvageEntry list \<Rightarrow> nat \<Rightarrow> TunnelManager \<Rightarrow> nat \<times> TunnelManager" where
  "replay_entries T p i addr [] n tm = (n, tm)"
| "replay_entries T p i addr (e # es) n tm =
    (case encryptFrame T p (Plaintext e) tm of (frame, tm1) \<Rightarrow>
     case writeFrame T i (Some addr) frame tm1 of
       (None, tm2) \<Rightarrow> replay_entries T p i addr es (Suc n) tm2
     | (Some _, tm2) \<Rightarrow> replay_entries T p i addr es n tm2)"

definition replaySalvage ::
    "tun_env \<Rightarrow> cptr option \<Rightarrow> cptr option \<Rightarrow> node_id \<Rightarrow> UDPAddr option \<Rightarrow> TunnelManager \<Rightarrow> TunnelManager" where
  "replaySalvage T oldPC newPC i addr tm =
    (case (oldPC, newPC, addr) of
       (Some old, Some p, Some a) \<Rightarrow>
         (case DrainSalvage (te_now T) (Some old) (env (fst tm)) of (entries, s) \<Rightarrow>
          let tm1 = ((fst tm)\<lparr> env := s \<rparr>, snd tm) in
          if entries = [] then tm1
          else (case replay_entries T p i a entries 0 tm1 of
                  (n, m2, t2) \<Rightarrow> (m2, if n > 0 then publishEvent (DesyncSalvage i n) t2 else t2)))
     | _ \<Rightarrow> tm)"

text \<open>The loop of \<^verbatim>\<open>flushPending\<close>, which stops when the installed key is another one.\<close>

fun flush_frames ::
    "tun_env \<Rightarrow> cptr \<Rightarrow> node_id \<Rightarrow> UDPAddr option \<Rightarrow> bytes list \<Rightarrow> TunnelManager \<Rightarrow> TunnelManager" where
  "flush_frames T p i addr [] tm = tm"
| "flush_frames T p i addr (plaintext # frames) tm =
    (if Get i (env (fst tm)) \<noteq> Some p then tm
     else case encryptFrame T p plaintext tm of (frame, tm1) \<Rightarrow>
          case writeFrame T i addr frame tm1 of (_, tm2) \<Rightarrow> flush_frames T p i addr frames tm2)"

definition flushPending :: "tun_env \<Rightarrow> node_id \<Rightarrow> TunnelManager \<Rightarrow> TunnelManager" where
  "flushPending T i tm =
    (case tm of (m, t) \<Rightarrow>
     let frames = map_get [] (pending t) i;
         t1 = t\<lparr> pending := (pending t)(i := None), pendingSince := (pendingSince t)(i := None) \<rparr> in
     if frames = [] then (m, t1)
     else case Get i (env m) of
       None \<Rightarrow> (m, t1)
     | Some p \<Rightarrow> if \<not> Ready (heap (env m) p) then (m, t1)
                 else flush_frames T p i (peerAddr i t1) frames (m, t1))"

definition same_endpoint :: "UDPAddr \<Rightarrow> UDPAddr \<Rightarrow> bool" where
  "same_endpoint a b \<longleftrightarrow> ip_equal (IP a) (IP b) \<and> Port a = Port b"

text \<open>The endpoint bookkeeping under \<^verbatim>\<open>tm.mu\<close> in \<^verbatim>\<open>onKeyInstalled\<close>.\<close>

definition learn_endpoint :: "PostInstallEvent \<Rightarrow> Tunnel \<Rightarrow> Tunnel" where
  "learn_endpoint ev t =
    (let i = EvPeerNodeID ev in
     if \<not> EvFromRelay ev then
       (case EvFrom ev of None \<Rightarrow> t | Some f \<Rightarrow> t\<lparr> peers := (peers t)(i \<mapsto> Some f) \<rparr>)
     else
       (case BeaconAddr (routing t) of None \<Rightarrow> t
        | Some bAddr \<Rightarrow>
          let hasDirect = (case peerAddr i t of None \<Rightarrow> False | Some e \<Rightarrow> \<not> same_endpoint e bAddr) in
          if hasDirect then t
          else t\<lparr> peers := (peers t)(i \<mapsto> Some bAddr),
                  routing := snd (AdmitRelayFromBeacon i (routing t)) \<rparr>))"

definition onKeyInstalled :: "tun_env \<Rightarrow> PostInstallEvent \<Rightarrow> TunnelManager \<Rightarrow> TunnelManager" where
  "onKeyInstalled T ev tm =
    (let i = EvPeerNodeID ev;
         (m1, t1) = recordInboundDecrypt (te_now T) i tm;
         t2 = (if \<not> EvHadCrypto ev then noteAppActivity (te_now T) i t1 else t1);
         t3 = (if \<not> EvHadCrypto ev \<or> EvKeyChanged ev
               then t2\<lparr> keyViaRelay := (keyViaRelay t2)(i \<mapsto> EvFromRelay ev) \<rparr> else t2);
         t4 = learn_endpoint ev t3;
         tm5 = (if EvKeyChanged ev \<and> EvOldCrypto ev \<noteq> None
                then replaySalvage T (EvOldCrypto ev) (Some (EvNewCrypto ev)) i (peerAddr i t4) (m1, t4)
                else (m1, t4))
     in flushPending T i tm5)"

section \<open>The wiring of the key exchange\<close>

definition tunnel_kx :: "tun_env \<Rightarrow> Tunnel kx_env" where
  "tunnel_kx T = \<lparr> kx_now = te_now T, kx_rand = te_rand T, kx_verifyFunc = te_verifyFunc T,
    kx_x25519 = te_x25519 T, kx_hmac = te_hmac T, kx_sign = te_sign T, kx_verify = te_verify T,
    kx_magicAuthEx = te_magicAuthEx T, kx_magicKeyEx = te_magicKeyEx T,
    kx_sender = Some (\<lambda>i addr frame tm. case writeFrame T i addr frame tm of (err, tm') \<Rightarrow> (err = None, tm')),
    kx_addrLookup = Some peerAddr,
    kx_publisher = Some (\<lambda>ev. publishEvent (KxEvent ev)),
    kx_postInstall = Some (onKeyInstalled T),
    kx_preRetx = Some maybeForceRelayOnRekey,
    kx_onGaveUp = Some (\<lambda>i tm. if te_onRekeyGaveUp T
      then (fst tm, (snd tm)\<lparr> gaveUpCalls := gaveUpCalls (snd tm) @ [i] \<rparr>) else tm),
    kx_trustFn = Some (\<lambda>i. case te_peerTrustFn T of None \<Rightarrow> True | Some fn \<Rightarrow> fn i) \<rparr>"

definition relay_copy :: "tun_env \<Rightarrow> node_id \<Rightarrow> bytes \<Rightarrow> Tunnel \<Rightarrow> Tunnel" where
  "relay_copy T i frame t =
    t\<lparr> outbox := outbox t @ snd (SendRelayFrame (te_consts T) (te_send T) i frame (routing t)) \<rparr>"

definition sendKeyExchangeToNode :: "tun_env \<Rightarrow> node_id \<Rightarrow> TunnelManager \<Rightarrow> TunnelManager" where
  "sendKeyExchangeToNode T i tm =
    (case SendKeyExchangeToNode (tunnel_kx T) i tm of (keyRequest, m, t) \<Rightarrow>
     if IsRelayPeer i (routing t) \<or> BeaconAddr (routing t) = None then (m, t)
     else
       let authed = (if HasIdentity m then BuildAuthFrame (tunnel_kx T) m else None);
           frame = (case authed of None \<Rightarrow> BuildUnauthFrame (tunnel_kx T) m | Some f \<Rightarrow> Some f) in
       case frame of None \<Rightarrow> (m, t)
       | Some f \<Rightarrow>
         let t1 = relay_copy T i f t in
         (m, if keyRequest
             then (case BuildUnauthFrame (tunnel_kx T) m of None \<Rightarrow> t1 | Some req \<Rightarrow> relay_copy T i req t1)
             else t1))"

section \<open>Asking for a new key\<close>

text \<open>\<^verbatim>\<open>pruneRekeyBudgetLocked\<close>: the result says whether there is room.\<close>

definition pruneRekeyBudgetLocked :: "instant \<Rightarrow> (node_id \<rightharpoonup> instant) \<Rightarrow> bool \<times> (node_id \<rightharpoonup> instant)" where
  "pruneRekeyBudgetLocked now req =
    (if map_len req < maxRekeyRequesters then (True, req)
     else let req1 = map_prune (\<lambda>t. rekeyRequestInterval \<le> time_sub now t) req in
       (map_len req1 < maxRekeyRequesters, req1))"

definition SetRekeyWhitelist :: "node_id list \<Rightarrow> Tunnel \<Rightarrow> Tunnel" where
  "SetRekeyWhitelist nodeIDs t = t\<lparr> rekeyWhitelist := Some {i \<in> set nodeIDs. i \<noteq> 0} \<rparr>"

definition SetRekeyWhitelistMatchAll :: "bool \<Rightarrow> Tunnel \<Rightarrow> Tunnel" where
  "SetRekeyWhitelistMatchAll on t = t\<lparr> rekeyWhitelistAll := on \<rparr>"

definition ClearLastRekeyReq :: "node_id \<Rightarrow> Tunnel \<Rightarrow> Tunnel" where
  "ClearLastRekeyReq i t = t\<lparr> lastRekeyReq := (lastRekeyReq t)(i := None) \<rparr>"

text \<open>The gate of \<^verbatim>\<open>maybeRequestRekey\<close> under \<^verbatim>\<open>rekeyMu\<close>.\<close>

definition rekey_gate :: "instant \<Rightarrow> node_id \<Rightarrow> Tunnel \<Rightarrow> bool \<times> Tunnel" where
  "rekey_gate now i t =
    (let whitelisted = (if rekeyWhitelistAll t then True
           else case rekeyWhitelist t of None \<Rightarrow> False | Some wl \<Rightarrow> i \<in> wl);
         stamp = (\<lambda>req. t\<lparr> lastRekeyReq := req(i \<mapsto> now) \<rparr>) in
     case lastRekeyReq t i of
       Some lastAt \<Rightarrow>
         if \<not> whitelisted \<and> time_sub now lastAt < rekeyRequestInterval then (False, t)
         else (True, stamp (lastRekeyReq t))
     | None \<Rightarrow>
         if whitelisted then (True, stamp (lastRekeyReq t))
         else case pruneRekeyBudgetLocked now (lastRekeyReq t) of
           (False, req) \<Rightarrow> (False, t\<lparr> lastRekeyReq := req \<rparr>)
         | (True, req) \<Rightarrow> (True, stamp req))"

definition rekey_endpoint :: "node_id \<Rightarrow> UDPAddr option \<Rightarrow> Tunnel \<Rightarrow> Tunnel" where
  "rekey_endpoint i from t =
    (let existing = peerAddr i t;
         t1 = (if peers t i = None \<and> from \<noteq> None then t\<lparr> peers := (peers t)(i \<mapsto> from) \<rparr> else t) in
     if IsFromBeacon from (routing t1) then
       let hasDirect = (case existing of None \<Rightarrow> False
             | Some e \<Rightarrow> (case BeaconAddr (routing t1) of None \<Rightarrow> True | Some b \<Rightarrow> \<not> same_endpoint e b)) in
       if hasDirect then t1 else t1\<lparr> routing := snd (AdmitRelayFromBeacon i (routing t1)) \<rparr>
     else t1)"

definition maybeRequestRekey :: "tun_env \<Rightarrow> node_id \<Rightarrow> UDPAddr option \<Rightarrow> TunnelManager \<Rightarrow> bool \<times> TunnelManager" where
  "maybeRequestRekey T i from tm =
    (case tm of (m, t) \<Rightarrow>
     if \<not> tmSock t then (False, (m, t))
     else case rekey_gate (te_now T) i t of
       (False, t1) \<Rightarrow> (False, (m, t1))
     | (True, t1) \<Rightarrow>
       let t2 = rekey_endpoint i from t1;
           m1 = (if \<not> Has i (env m) then MarkKeyRequestDue i m else m) in
       (True, sendKeyExchangeToNode T i (m1, t2)))"

section \<open>Receiving\<close>

definition isTunnelKeepalive :: "tun_env \<Rightarrow> packet \<Rightarrow> bool" where
  "isTunnelKeepalive T pkt \<longleftrightarrow> Protocol pkt = ProtoControl \<and> DstPort pkt = te_portPing T \<and> Payload pkt = []"

definition isLegacyUnstampedKeepalive :: "tun_env \<Rightarrow> packet \<Rightarrow> bool" where
  "isLegacyUnstampedKeepalive T pkt \<longleftrightarrow> Node (Src pkt) = 0 \<and> isTunnelKeepalive T pkt"

definition handleAuthKeyExchange ::
    "tun_env \<Rightarrow> bytes \<Rightarrow> UDPAddr option \<Rightarrow> bool \<Rightarrow> TunnelManager \<Rightarrow> TunnelManager" where
  "handleAuthKeyExchange T data from fromRelay tm =
    (case tm of (m, t) \<Rightarrow>
     if \<not> encrypt t \<or> tmPrivKey t = None then (m, t)
     else
       let (allowed, t1) = (if fromRelay then (True, t)
              else case allowKxFromSource (te_now T) from (kxRateLim t) of
                (ok, lim) \<Rightarrow> (ok, t\<lparr> kxRateLim := lim \<rparr>)) in
       if \<not> allowed then (m, t1)
       else if length data \<ge> 4 \<and>
               (case te_trustGate T of None \<Rightarrow> False | Some fn \<Rightarrow> \<not> fn (get32 (go_slice data 0 4)))
       then (m, t1)
       else snd (HandleAuthFrame (tunnel_kx T) data from fromRelay (m, t1)))"

definition handleKeyExchange ::
    "tun_env \<Rightarrow> bytes \<Rightarrow> UDPAddr option \<Rightarrow> bool \<Rightarrow> TunnelManager \<Rightarrow> TunnelManager" where
  "handleKeyExchange T data from fromRelay tm =
    (case tm of (m, t) \<Rightarrow>
     if \<not> encrypt t \<or> tmPrivKey t = None then (m, t)
     else
       let (allowed, t1) = (if fromRelay then (True, t)
              else case allowKxFromSource (te_now T) from (kxRateLim t) of
                (ok, lim) \<Rightarrow> (ok, t\<lparr> kxRateLim := lim \<rparr>)) in
       if \<not> allowed then (m, t1)
       else if length data \<ge> 4 \<and>
               (case te_trustGate T of None \<Rightarrow> False | Some fn \<Rightarrow> \<not> fn (get32 (go_slice data 0 4)))
       then (m, t1)
       else snd (HandleUnauthFrame (tunnel_kx T) data from fromRelay (m, t1)))"

text \<open>Dropping a diverged session and asking for a new one, the same for the three gates.\<close>

definition drop_and_rekey ::
    "tun_env \<Rightarrow> (node_id \<Rightarrow> cptr option \<Rightarrow> Store \<Rightarrow> bool) \<Rightarrow> node_id \<Rightarrow> UDPAddr option \<Rightarrow>
     TunnelManager \<Rightarrow> TunnelManager" where
  "drop_and_rekey T gate i from tm =
    (case tm of (m, t) \<Rightarrow>
     let pc = Get i (env m) in
     if gate i pc (env m) then
       (case CompareAndDrop i pc (env m) of
          (True, s) \<Rightarrow> snd (maybeRequestRekey T i from (m\<lparr> env := s \<rparr>, t))
        | (False, s) \<Rightarrow> (m\<lparr> env := s \<rparr>, t))
     else (m, t))"

text \<open>What an authenticated packet does, after the check of its source.\<close>

definition accept_packet ::
    "tun_env \<Rightarrow> node_id \<Rightarrow> nat \<Rightarrow> packet \<Rightarrow> UDPAddr option \<Rightarrow> TunnelManager \<Rightarrow> TunnelManager" where
  "accept_packet T i len pkt from tm =
    (let (m1, t1) = recordInboundDecrypt (te_now T) i tm;
         m2 = ClearPendingRekey i m1;
         t2 = t1\<lparr> routing := snd (ClearRelayOnDirect i from (routing t1)) \<rparr>;
         t3 = (if from \<noteq> None \<and> \<not> IsFromBeacon from (routing t2)
               then t2\<lparr> routing := RecordDirectRecv i (te_now T) (routing t2), peers := (peers t2)(i \<mapsto> from) \<rparr>
               else t2);
         t4 = t3\<lparr> tmPktsRecv := tmPktsRecv t3 + 1, tmBytesRecv := tmBytesRecv t3 + of_nat (len + 4) \<rparr>;
         t5 = (if \<not> (Protocol pkt = ProtoControl \<and> DstPort pkt = te_portPing T)
               then noteAppActivity (te_now T) i t4 else t4) in
     if isTunnelKeepalive T pkt then (m2, t4)
     else (m2, t5\<lparr> recvCh := recvCh t5 @ [\<lparr> Packet = pkt, FromAddr = from \<rparr>] \<rparr>))"

definition handleEncrypted :: "tun_env \<Rightarrow> bytes \<Rightarrow> UDPAddr option \<Rightarrow> TunnelManager \<Rightarrow> TunnelManager" where
  "handleEncrypted T data from tm =
    (case DecryptFrame (te_unseal T) data (env (fst tm)) of (res, s) \<Rightarrow>
     let i = PeerNodeID res; m = (fst tm)\<lparr> env := s \<rparr>; t = snd tm; now = te_now T in
     case Err res of
       Some env_error.ErrTooShort \<Rightarrow> (m, t)
     | Some ErrNoKey \<Rightarrow> snd (maybeRequestRekey T i from (m, t))
     | Some ErrOutsideWindow \<Rightarrow> drop_and_rekey T (ShouldDropOnOutsideWindow now) i from (m, t)
     | Some ErrReplay \<Rightarrow>
         drop_and_rekey T (ShouldDropOnReplay now) i from (m, publishEvent (NonceReplay i (Counter res)) t)
     | Some ErrAEAD \<Rightarrow>
         drop_and_rekey T (ShouldDropOnDecryptFail now) i from (m, t\<lparr> tmEncryptFail := tmEncryptFail t + 1 \<rparr>)
     | _ \<Rightarrow>
       (case te_unmarshal T (ResPlaintext res) of
          None \<Rightarrow> (m, t)
        | Some pkt \<Rightarrow>
          if Node (Src pkt) \<noteq> i \<and> \<not> isLegacyUnstampedKeepalive T pkt
          then (m, publishEvent (SrcSpoofed i (Node (Src pkt))) t)
          else accept_packet T i (length data) pkt from (m, t)))"

section \<open>Messages of the beacon\<close>

definition parseDiscoverReply :: "bytes \<Rightarrow> UDPAddr option" where
  "parseDiscoverReply body =
    (if length body < 1 then None
     else
       let ipLen = unat (body ! 0) in
       if ipLen \<noteq> 4 \<and> ipLen \<noteq> 16 \<or> length body < 1 + ipLen + 2 then None
       else Some \<lparr> IP = go_slice body 1 (1 + ipLen),
                   Port = uint (get16 (go_slice body (1 + ipLen) (1 + ipLen + 2))) \<rparr>)"

definition noteDiscoverReply :: "UDPAddr option \<Rightarrow> UDPAddr option \<Rightarrow> instant \<Rightarrow> Tunnel \<Rightarrow> bool \<times> Tunnel" where
  "noteDiscoverReply ep bcn now t =
    (case (ep, bcn) of
       (Some e, Some b) \<Rightarrow>
         if lastDiscoverNano t = 0 then (False, t)
         else
           let age = time_sub now (lastDiscoverNano t) in
           if age < 0 \<or> age > discoverReplyWindow then (False, t)
           else (True, t\<lparr> obsPrev := obsLatest t,
                          obsLatest := Some \<lparr> endpoint = e, beacon = b, observedAt = now \<rparr> \<rparr>)
     | _ \<Rightarrow> (False, t))"

definition ObservedEndpoint :: "Tunnel \<Rightarrow> UDPAddr option" where
  "ObservedEndpoint t = map_option endpoint (obsLatest t)"

definition forgetObservedEndpoints :: "Tunnel \<Rightarrow> Tunnel" where
  "forgetObservedEndpoints t = t\<lparr> obsLatest := None, obsPrev := None \<rparr>"

text \<open>The admission of a relayed frame; \<open>False\<close> drops it.\<close>

definition relay_admission :: "node_id \<Rightarrow> bool \<Rightarrow> Tunnel \<Rightarrow> bool \<times> Tunnel" where
  "relay_admission src hadCrypto t =
    (let knownDirect = (case peerAddr src t of None \<Rightarrow> False
           | Some e \<Rightarrow> (case BeaconAddr (routing t) of None \<Rightarrow> True | Some b \<Rightarrow> \<not> same_endpoint e b)) in
     if knownDirect \<and> hadCrypto then (True, t)
     else
       (case MarkRelayActivatedIfHadCrypto src hadCrypto (routing t) of ((admitted, newly, alias), r) \<Rightarrow>
        let t1 = t\<lparr> routing := r \<rparr> in
        if \<not> admitted then (False, t1)
        else
          let t2 = (if alias then
                 (case BeaconAddr (routing t1) of None \<Rightarrow> t1
                  | Some b \<Rightarrow> if peers t1 src = None then t1\<lparr> peers := (peers t1)(src \<mapsto> Some b) \<rparr> else t1)
               else t1) in
          (True, if newly then publishEvent (RelayActivated src) t2 else t2)))"

text \<open>A plaintext frame, from the socket or relayed; \<open>frame\<close> includes the magic.\<close>

definition deliver_plain :: "tun_env \<Rightarrow> bytes \<Rightarrow> UDPAddr option \<Rightarrow> TunnelManager \<Rightarrow> TunnelManager" where
  "deliver_plain T frame from tm =
    (case tm of (m, t) \<Rightarrow>
     if encrypt t then (m, t)
     else if length frame < 4 + te_headerSize T then (m, t)
     else case te_unmarshal T (drop 4 frame) of
       None \<Rightarrow> (m, t)
     | Some pkt \<Rightarrow>
       (m, t\<lparr> tmPktsRecv := tmPktsRecv t + 1, tmBytesRecv := tmBytesRecv t + of_nat (length frame),
              recvCh := recvCh t @ [\<lparr> Packet = pkt, FromAddr = from \<rparr>] \<rparr>))"

definition relay_source :: "Tunnel \<Rightarrow> UDPAddr" where
  "relay_source t = (case BeaconAddr (routing t) of Some b \<Rightarrow> b
    | None \<Rightarrow> \<lparr> IP = v4InV6Prefix @ [0, 0, 0, 0], Port = 0 \<rparr>)"

text \<open>The rate limit of relayed key exchanges, in front of a handler.\<close>

definition relayed_kx ::
    "tun_env \<Rightarrow> node_id \<Rightarrow> (TunnelManager \<Rightarrow> TunnelManager) \<Rightarrow> TunnelManager \<Rightarrow> TunnelManager" where
  "relayed_kx T src handler tm =
    (case allowKxFromRelaySrc (te_now T) src (relayKxLim (snd tm)) of (ok, lim) \<Rightarrow>
     let tm1 = (fst tm, (snd tm)\<lparr> relayKxLim := lim \<rparr>) in if ok then handler tm1 else tm1)"

definition handleRelayDeliver :: "tun_env \<Rightarrow> bytes \<Rightarrow> TunnelManager \<Rightarrow> TunnelManager" where
  "handleRelayDeliver T data tm =
    (case tm of (m, t) \<Rightarrow>
     if length data < 5 then (m, t)
     else
       let src = get32 (go_slice data 0 4); payload = drop 4 data in
       case relay_admission src (Has src (env m)) t of
         (False, t1) \<Rightarrow> (m, t1)
       | (True, t1) \<Rightarrow>
         if length payload < 4 then (m, t1)
         else
           let srcAddr = Some (relay_source t1); magic = take 4 payload; body = drop 4 payload in
           if magic = te_magicAuthEx T
           then relayed_kx T src (handleAuthKeyExchange T body srcAddr True) (m, t1)
           else if magic = te_magicKeyEx T
           then relayed_kx T src (handleKeyExchange T body srcAddr True) (m, t1)
           else if magic = te_magicSecure T then handleEncrypted T body srcAddr (m, t1)
           else if magic = te_magic T then deliver_plain T payload srcAddr (m, t1)
           else (m, t1))"

definition handlePunchCommand :: "tun_env \<Rightarrow> bytes \<Rightarrow> Tunnel \<Rightarrow> Tunnel" where
  "handlePunchCommand T data t = t\<lparr> outbox := outbox t @ HandlePunchCommand (te_consts T) data (routing t) \<rparr>"

definition handleBeaconMessage :: "tun_env \<Rightarrow> bytes \<Rightarrow> UDPAddr option \<Rightarrow> TunnelManager \<Rightarrow> TunnelManager" where
  "handleBeaconMessage T data from tm =
    (case tm of (m, t) \<Rightarrow>
     if length data < 1 then (m, t)
     else
       let fromBeacon = (ForceRelay (routing t) \<or> IsFromBeacon from (routing t)); code = data ! 0; body = drop 1 data in
       if code = BeaconMsgDiscoverReply (te_consts T) then
         (if fromBeacon \<and> parseDiscoverReply body \<noteq> None
          then (m, snd (noteDiscoverReply (parseDiscoverReply body) (BeaconAddr (routing t)) (te_now T) t))
          else (m, t))
       else if code = te_msgPunchCommand T then
         (if \<not> fromBeacon then (m, t) else (m, handlePunchCommand T body t))
       else if code = te_msgRelayDeliver T then
         (if \<not> fromBeacon then (m, t) else handleRelayDeliver T body (m, t))
       else if code = beaconMsgNotify then
         (if \<not> fromBeacon then (m, t)
          else if length data < 2 \<or> data ! 1 \<noteq> beaconNotifyHandshake then (m, t)
          else if te_onBeaconNotify T then (m, t\<lparr> notifyCalls := notifyCalls t + 1 \<rparr>) else (m, t))
       else (m, t))"

text \<open>The dispatch of one received datagram.\<close>

definition readLoopOneIter :: "tun_env \<Rightarrow> bytes \<Rightarrow> UDPAddr option \<Rightarrow> TunnelManager \<Rightarrow> TunnelManager" where
  "readLoopOneIter T frame remote tm =
    (let tm1 = (fst tm, (snd tm)\<lparr> LastRecvNano := te_now T \<rparr>) in
     if length frame < 1 then tm1
     else if frame ! 0 < 16 then handleBeaconMessage T frame remote tm1
     else if length frame < 4 then tm1
     else
       let magic = take 4 frame; body = drop 4 frame in
       if magic = te_magicAuthEx T then handleAuthKeyExchange T body remote False tm1
       else if magic = te_magicKeyEx T then handleKeyExchange T body remote False tm1
       else if magic = te_magicSecure T then handleEncrypted T body remote tm1
       else if magic = TunnelMagicPunch (te_consts T) then tm1
       else if magic = te_magic T then deliver_plain T frame remote tm1
       else tm1)"

section \<open>Sending packets\<close>

text \<open>The queue for packets that wait for a key; the result is the error returned.\<close>

definition enqueue_pending :: "instant \<Rightarrow> node_id \<Rightarrow> bytes \<Rightarrow> Tunnel \<Rightarrow> tun_error option \<times> Tunnel" where
  "enqueue_pending now i data t =
    (if pending t i = None \<and> maxPendingPeers \<le> map_len (pending t) then (Some ErrTooManyPending, t)
     else
       let q = map_get [] (pending t) i in
       if maxPendingPerPeer \<le> length q then
         let t1 = t\<lparr> PendingDrops := PendingDrops t + 1 \<rparr>;
             lastAt = map_get 0 (lastPendDropLog t1) i;
             t2 = (if time_is_zero lastAt \<or> pendingDropLogInterval \<le> time_sub now lastAt
                   then t1\<lparr> lastPendDropLog := (lastPendDropLog t1)(i \<mapsto> now) \<rparr> else t1) in
         (Some ErrPendingDropped, t2)
       else
         let t1 = (if q = [] then t\<lparr> pendingSince := (pendingSince t)(i \<mapsto> now) \<rparr> else t) in
         (None, t1\<lparr> pending := (pending t1)(i \<mapsto> q @ [data]) \<rparr>))"

definition sendPlaintextToNode ::
    "tun_env \<Rightarrow> node_id \<Rightarrow> UDPAddr option \<Rightarrow> bytes \<Rightarrow> TunnelManager \<Rightarrow> write_error option \<times> TunnelManager" where
  "sendPlaintextToNode T i addr data tm = writeFrame T i addr (go_copy 4 (te_magic T) @ data) tm"

definition ready_key :: "node_id \<Rightarrow> KxManager \<Rightarrow> cptr option" where
  "ready_key i m = (case Get i (env m) of None \<Rightarrow> None | Some p \<Rightarrow> if Ready (heap (env m) p) then Some p else None)"

text \<open>The branch of \<^verbatim>\<open>SendTo\<close> with encryption on.\<close>

definition send_encrypted ::
    "tun_env \<Rightarrow> UDPAddr option \<Rightarrow> node_id \<Rightarrow> bytes \<Rightarrow> TunnelManager \<Rightarrow> tun_error option \<times> TunnelManager" where
  "send_encrypted T addr i data tm =
    (case ready_key i (fst tm) of
       Some p \<Rightarrow>
         let m1 = (fst tm)\<lparr> env := RecordSalvage (te_now T) (Some p) data (env (fst tm)) \<rparr> in
         (case encryptFrame T p data (m1, snd tm) of (frame, tm2) \<Rightarrow>
          case writeFrame T i addr frame tm2 of (err, tm3) \<Rightarrow> (map_option ErrWrite err, tm3))
     | None \<Rightarrow>
         let tm1 = (if \<not> PendingRekeyHas i (fst tm) then sendKeyExchangeToNode T i tm else tm) in
         if kx_PeerInRekeyGaveUp (te_now T) i (fst tm1) then (Some ErrPendingDropped, tm1)
         else (case enqueue_pending (te_now T) i data (snd tm1) of (err, t2) \<Rightarrow> (err, (fst tm1, t2))))"

definition SendTo ::
    "tun_env \<Rightarrow> UDPAddr option \<Rightarrow> node_id \<Rightarrow> packet \<Rightarrow> TunnelManager \<Rightarrow> tun_error option \<times> TunnelManager" where
  "SendTo T addr i pkt tm =
    (case tm of (m, t) \<Rightarrow>
     let t1 = (if \<not> (Protocol pkt = ProtoControl \<and> DstPort pkt = te_portPing T)
               then noteAppActivity (te_now T) i t else t) in
     case te_marshal T pkt of
       None \<Rightarrow> (Some ErrMarshal, (m, t1))
     | Some data \<Rightarrow>
       if encrypt t1 then send_encrypted T addr i data (m, t1)
       else (case sendPlaintextToNode T i addr data (m, t1) of (err, tm2) \<Rightarrow> (map_option ErrWrite err, tm2)))"

definition Send :: "tun_env \<Rightarrow> node_id \<Rightarrow> packet \<Rightarrow> TunnelManager \<Rightarrow> tun_error option \<times> TunnelManager" where
  "Send T i pkt tm =
    (case peers (snd tm) i of None \<Rightarrow> (Some ErrNoTunnel, tm) | Some addr \<Rightarrow> SendTo T addr i pkt tm)"

text \<open>
  The probes that bypass the relay. \<open>raw_send\<close> is the call of \<^verbatim>\<open>tm.sock.Send\<close> with its
  counters; the probe functions are only reached with a socket.
\<close>

definition raw_send :: "tun_env \<Rightarrow> bytes \<Rightarrow> UDPAddr \<Rightarrow> Tunnel \<Rightarrow> send_error option \<times> Tunnel" where
  "raw_send T frame addr t =
    (let t1 = t\<lparr> outbox := outbox t @ [(frame, addr)] \<rparr> in
     case te_send T frame addr of
       Inl err \<Rightarrow> (Some err, t1)
     | Inr n \<Rightarrow> (None, t1\<lparr> tmPktsSent := tmPktsSent t1 + 1, tmBytesSent := tmBytesSent t1 + of_nat n \<rparr>))"

definition probe_frame :: "tun_env \<Rightarrow> node_id \<Rightarrow> bytes \<Rightarrow> TunnelManager \<Rightarrow> (bytes \<times> TunnelManager) option" where
  "probe_frame T i data tm =
    (if encrypt (snd tm) then
       (case ready_key i (fst tm) of None \<Rightarrow> None | Some p \<Rightarrow> Some (encryptFrame T p data tm))
     else Some (go_copy 4 (te_magic T) @ data, tm))"

definition SendDirectProbe :: "tun_env \<Rightarrow> node_id \<Rightarrow> packet \<Rightarrow> TunnelManager \<Rightarrow> tun_error option \<times> TunnelManager" where
  "SendDirectProbe T i pkt tm =
    (case peerAddr i (snd tm) of None \<Rightarrow> (Some ErrNoEndpoint, tm)
     | Some addr \<Rightarrow>
       if IsFromBeacon (Some addr) (routing (snd tm)) then (Some ErrBeaconPlaceholder, tm)
       else case te_marshal T pkt of None \<Rightarrow> (Some ErrMarshal, tm)
       | Some data \<Rightarrow>
         (case probe_frame T i data tm of None \<Rightarrow> (Some ErrNoCrypto, tm)
          | Some (frame, tm1) \<Rightarrow>
            (case raw_send T frame addr (snd tm1) of
               (err, t2) \<Rightarrow> (map_option (\<lambda>e. ErrWrite (ErrSend e)) err, (fst tm1, t2)))))"

definition SendDirectProbeTo ::
    "tun_env \<Rightarrow> node_id \<Rightarrow> UDPAddr option \<Rightarrow> packet \<Rightarrow> TunnelManager \<Rightarrow> tun_error option \<times> TunnelManager" where
  "SendDirectProbeTo T i addrp pkt tm =
    (case addrp of None \<Rightarrow> (Some ErrNoEndpoint, tm)
     | Some addr \<Rightarrow>
       if IsFromBeacon (Some addr) (routing (snd tm)) then (Some ErrBeaconPlaceholder, tm)
       else case te_marshal T pkt of None \<Rightarrow> (Some ErrMarshal, tm)
       | Some data \<Rightarrow>
         (case probe_frame T i data tm of None \<Rightarrow> (Some ErrNoCrypto, tm)
          | Some (frame, tm1) \<Rightarrow>
            (case raw_send T frame addr (snd tm1) of
               (Some e, t2) \<Rightarrow> (Some (ErrWrite (ErrSend e)), (fst tm1, t2))
             | (None, t2) \<Rightarrow> (None, (fst tm1, t2\<lparr> routing := RecordOutboundSend i (te_now T) (routing t2) \<rparr>)))))"

section \<open>Path upkeep\<close>

definition control_packet :: "tun_env \<Rightarrow> node_id \<Rightarrow> node_id \<Rightarrow> u16 \<Rightarrow> bytes \<Rightarrow> packet" where
  "control_packet T src dst sport payload =
    \<lparr> Flags = {}, Protocol = ProtoControl, Src = \<lparr> Network = 0, Node = src \<rparr>,
      Dst = \<lparr> Network = 0, Node = dst \<rparr>, SrcPort = sport, DstPort = te_portPing T, Seq = 0, Ack = 0,
      Window = 0, Payload = payload \<rparr>"

definition newKeepalivePacket :: "tun_env \<Rightarrow> Tunnel \<Rightarrow> packet" where
  "newKeepalivePacket T t = control_packet T (nodeID t) 0 0 []"

definition pathProbePayload :: bytes where
  "pathProbePayload = map (\<lambda>c. of_nat (of_char c)) ''pathprobe.v1''"

definition newPathProbePacket :: "tun_env \<Rightarrow> node_id \<Rightarrow> Tunnel \<Rightarrow> packet" where
  "newPathProbePacket T i t = control_packet T (nodeID t) i (te_portPing T) pathProbePayload"

definition SendPathProbe :: "tun_env \<Rightarrow> node_id \<Rightarrow> TunnelManager \<Rightarrow> tun_error option \<times> TunnelManager" where
  "SendPathProbe T i tm =
    (case peerAddr i (snd tm) of None \<Rightarrow> (Some ErrNoEndpoint, tm)
     | Some addr \<Rightarrow>
       (case ready_key i (fst tm) of None \<Rightarrow> (Some ErrNoCrypto, tm)
        | Some p \<Rightarrow>
          (case te_marshal T (newPathProbePacket T i (snd tm)) of None \<Rightarrow> (Some ErrMarshal, tm)
           | Some data \<Rightarrow>
             (case encryptFrame T p data tm of (frame, tm1) \<Rightarrow>
              case writeFrame T i (Some addr) frame tm1 of (err, tm2) \<Rightarrow> (map_option ErrWrite err, tm2)))))"

definition SendDirectPathProbe :: "tun_env \<Rightarrow> node_id \<Rightarrow> TunnelManager \<Rightarrow> tun_error option \<times> TunnelManager" where
  "SendDirectPathProbe T i tm = SendDirectProbe T i (newPathProbePacket T i (snd tm)) tm"

text \<open>The peers due for a keepalive; \<open>order\<close> is the order in which the map is visited.\<close>

definition keepalive_due :: "tun_env \<Rightarrow> instant \<Rightarrow> TunnelManager \<Rightarrow> node_id \<Rightarrow> bool" where
  "keepalive_due T now tm i \<longleftrightarrow>
    peers (snd tm) i \<noteq> None \<and>
    \<not> (case LastOutboundSend i (routing (snd tm)) of None \<Rightarrow> False
        | Some lastAt \<Rightarrow> time_sub now lastAt < TunnelKeepaliveInterval) \<and>
    \<not> idleFilter T now (snd tm) i \<and> ready_key i (fst tm) \<noteq> None"

fun keepalive_send :: "tun_env \<Rightarrow> (node_id \<times> UDPAddr option \<times> cptr) list \<Rightarrow> nat \<Rightarrow> TunnelManager \<Rightarrow> nat \<times> TunnelManager" where
  "keepalive_send T [] n tm = (n, tm)"
| "keepalive_send T ((i, addr, p) # rest) n tm =
    (case te_marshal T (newKeepalivePacket T (snd tm)) of
       None \<Rightarrow> keepalive_send T rest n tm
     | Some plaintext \<Rightarrow>
       (case encryptFrame T p plaintext tm of (frame, tm1) \<Rightarrow>
        case writeFrame T i addr frame tm1 of
          (None, tm2) \<Rightarrow> keepalive_send T rest (Suc n) tm2
        | (Some _, tm2) \<Rightarrow> keepalive_send T rest n tm2))"

definition keepaliveSweep :: "tun_env \<Rightarrow> node_id list \<Rightarrow> instant \<Rightarrow> TunnelManager \<Rightarrow> nat \<times> TunnelManager" where
  "keepaliveSweep T order now tm =
    keepalive_send T (map (\<lambda>i. (i, peerAddr i (snd tm), the (ready_key i (fst tm))))
      (filter (keepalive_due T now tm) order)) 0 tm"

definition ReadyPeerIDs :: "TunnelManager \<Rightarrow> node_id set" where
  "ReadyPeerIDs tm = {i \<in> dom (peers (snd tm)). ready_key i (fst tm) \<noteq> None}"

definition tm_RegisterWithBeacon :: "tun_env \<Rightarrow> Tunnel \<Rightarrow> Tunnel" where
  "tm_RegisterWithBeacon T t =
    (let t1 = (if BeaconAddr (routing t) \<noteq> None then t\<lparr> lastDiscoverNano := te_now T \<rparr> else t) in
     t1\<lparr> outbox := outbox t1 @ snd (RegisterWithBeacon (te_consts T) (te_send T) (routing t1)) \<rparr>)"

definition tm_RequestHolePunch :: "tun_env \<Rightarrow> node_id \<Rightarrow> Tunnel \<Rightarrow> Tunnel" where
  "tm_RequestHolePunch T i t =
    t\<lparr> outbox := outbox t @ snd (RequestHolePunch (te_consts T) (te_send T) i (routing t)) \<rparr>"

section \<open>Peers\<close>

definition AddPeer :: "tun_env \<Rightarrow> node_id \<Rightarrow> UDPAddr option \<Rightarrow> TunnelManager \<Rightarrow> TunnelManager" where
  "AddPeer T i addr tm =
    (let tm1 = (fst tm, (snd tm)\<lparr> peers := (peers (snd tm))(i \<mapsto> addr) \<rparr>) in
     if encrypt (snd tm1) \<and> \<not> PendingRekeyHas i (fst tm1) then sendKeyExchangeToNode T i tm1 else tm1)"

definition RemovePeer :: "node_id \<Rightarrow> TunnelManager \<Rightarrow> TunnelManager" where
  "RemovePeer i tm =
    (case tm of (m, t) \<Rightarrow>
     (kx_RemovePeer i (m\<lparr> env := Drop i (env m) \<rparr>),
      t\<lparr> peers := (peers t)(i := None), routing := RoutingRemovePeer i (routing t),
         keyViaRelay := (keyViaRelay t)(i := None), activity := (activity t)(i := None) \<rparr>))"

definition DropCrypto :: "node_id \<Rightarrow> TunnelManager \<Rightarrow> TunnelManager" where
  "DropCrypto i tm = (kx_RemovePeer i ((fst tm)\<lparr> env := Drop i (env (fst tm)) \<rparr>), snd tm)"

definition KeyArrivedViaRelayOnly :: "node_id \<Rightarrow> Tunnel \<Rightarrow> bool" where
  "KeyArrivedViaRelayOnly i t =
    (case keyViaRelay t i of None \<Rightarrow> False
     | Some viaRelay \<Rightarrow> viaRelay \<and> time_is_zero (LastDirectRecv i (routing t)))"

definition HasPeer :: "node_id \<Rightarrow> Tunnel \<Rightarrow> bool" where
  "HasPeer i t = (peers t i \<noteq> None)"

text \<open>The first loop of the sweep drops old queues, the second starts the clock of the others.\<close>

definition reapStalePending :: "instant \<Rightarrow> Tunnel \<Rightarrow> nat \<times> Tunnel" where
  "reapStalePending now t =
    (let stale = (\<lambda>i. case pendingSince t i of None \<Rightarrow> False | Some since \<Rightarrow> time_sub now since > pendingMaxAge);
         p1 = (\<lambda>i. if stale i then None else pending t i);
         s1 = (\<lambda>i. if stale i then None else pendingSince t i) in
     (map_len (pendingSince t) - map_len s1,
      t\<lparr> pending := p1,
         pendingSince := (\<lambda>i. if p1 i \<noteq> None \<and> s1 i = None then Some now else s1 i) \<rparr>))"

definition dropPending :: "node_id \<Rightarrow> Tunnel \<Rightarrow> Tunnel" where
  "dropPending i t = t\<lparr> pending := (pending t)(i := None), pendingSince := (pendingSince t)(i := None),
    lastPendDropLog := (lastPendDropLog t)(i := None) \<rparr>"

definition reapPendDropLog :: "instant \<Rightarrow> Tunnel \<Rightarrow> Tunnel" where
  "reapPendDropLog now t = t\<lparr> lastPendDropLog := map_prune (\<lambda>at. at < now - pendingDropLogInterval) (lastPendDropLog t) \<rparr>"

record PeerInfo =
  InfoNodeID :: node_id
  Endpoint :: "UDPAddr option"
  Encrypted :: bool
  InfoAuthenticated :: bool
  Relay :: bool

definition PeerList :: "TunnelManager \<Rightarrow> PeerInfo set" where
  "PeerList tm = (\<lambda>i. \<lparr> InfoNodeID = i, Endpoint = peerAddr i (snd tm), Encrypted = (ready_key i (fst tm) \<noteq> None),
    InfoAuthenticated = (case Get i (env (fst tm)) of None \<Rightarrow> False | Some p \<Rightarrow> Authenticated (heap (env (fst tm)) p)),
    Relay = IsRelayPeer i (routing (snd tm)) \<rparr>) ` dom (peers (snd tm))"

section \<open>The callbacks keep the keys\<close>

lemma WriteFrame_parts:
  obtains r err sent ct rt where
    "WriteFrame K send now i addr frame counters r0 = ((r, err), sent, ct, rt)"
  by (metis prod.exhaust)

lemma writeFrame_keys:
  assumes "writeFrame T i addr frame tm = (err, tm')"
  shows "same_keys (fst tm) (fst tm')" and "env (fst tm') = env (fst tm)"
  using assms
  by (auto simp: writeFrame_def ResetPendingRekeyAttempts_def same_keys_def split: prod.splits option.splits if_splits)

lemma encryptFrame_keys:
  assumes "encryptFrame T p plaintext tm = (frame, tm')"
  shows "same_keys (fst tm) (fst tm')" and "Get i (env (fst tm')) = Get i (env (fst tm))"
proof -
  obtain m t where tm: "tm = (m, t)" by force
  let ?e = "EncryptWith (te_seal T) (te_magicSecure T) p plaintext (env m)"
  have m': "fst tm' = m\<lparr> env := snd ?e \<rparr>" using assms by (auto simp: encryptFrame_def tm split: prod.splits)
  have "key_view (heap (snd ?e) q) = key_view (heap (env m) q)" for q
    by (cases "q = p") (simp_all add: EncryptWith_state key_view_def)
  then show "same_keys (fst tm) (fst tm')" "Get i (env (fst tm')) = Get i (env (fst tm))"
    by (simp_all add: m' tm same_keys_def EncryptWith_state Get_def)
qed

lemma DrainSalvage_keys:
  assumes "DrainSalvage now cp (env m) = (es, s)"
  shows "same_keys m (m\<lparr> env := s \<rparr>)"
  using assms by (auto simp: DrainSalvage_def Let_def same_keys_def key_view_def set_crypto_def split: option.splits if_splits)

lemma replay_entries_keys: "same_keys (fst tm) (fst (snd (replay_entries T p i addr es n tm)))"
proof (induction T p i addr es n tm rule: replay_entries.induct)
  case (2 T p i addr e es n tm)
  obtain frame tm1 where en: "encryptFrame T p (Plaintext e) tm = (frame, tm1)" by (metis surj_pair)
  obtain err tm2 where wr: "writeFrame T i (Some addr) frame tm1 = (err, tm2)" by (metis surj_pair)
  have "same_keys (fst tm) (fst tm2)"
    using same_keys_trans [OF encryptFrame_keys(1) [OF en] writeFrame_keys(1) [OF wr]] .
  then show ?case
    using 2(1) [OF en [symmetric] wr [symmetric]] 2(2) [OF en [symmetric] wr [symmetric]]
    by (cases err) (auto simp: en wr intro: same_keys_trans)
qed simp

lemma replaySalvage_keys: "same_keys (fst tm) (fst (replaySalvage T oldPC newPC i addr tm))"
proof (cases "oldPC = None \<or> newPC = None \<or> addr = None")
  case True
  then show ?thesis by (auto simp: replaySalvage_def split: option.splits)
next
  case False
  then obtain old p a where o: "oldPC = Some old" "newPC = Some p" "addr = Some a" by auto
  obtain es s where d: "DrainSalvage (te_now T) (Some old) (env (fst tm)) = (es, s)" by force
  let ?tm1 = "((fst tm)\<lparr> env := s \<rparr>, snd tm)"
  obtain n m2 t2 where r: "replay_entries T p i a es 0 ?tm1 = (n, m2, t2)" by (metis prod_cases3)
  have "same_keys (fst tm) (fst ?tm1)" using DrainSalvage_keys [OF d] by simp
  moreover have "same_keys (fst ?tm1) m2" using replay_entries_keys [of ?tm1 T p i a es 0] r by simp
  ultimately show ?thesis using same_keys_trans by (auto simp: replaySalvage_def o d r Let_def)
qed

lemma flush_frames_keys: "same_keys (fst tm) (fst (flush_frames T p i addr frames tm))"
proof (induction T p i addr frames tm rule: flush_frames.induct)
  case (2 T p i addr plaintext frames tm)
  obtain frame tm1 where en: "encryptFrame T p plaintext tm = (frame, tm1)" by (metis surj_pair)
  obtain err tm2 where wr: "writeFrame T i addr frame tm1 = (err, tm2)" by (metis surj_pair)
  have "same_keys (fst tm) (fst tm2)"
    using same_keys_trans [OF encryptFrame_keys(1) [OF en] writeFrame_keys(1) [OF wr]] .
  then show ?case
    using 2 [OF _ en [symmetric] wr [symmetric]] by (auto simp: en wr intro: same_keys_trans)
qed simp

lemma flushPending_keys: "same_keys (fst tm) (fst (flushPending T i tm))"
  using flush_frames_keys by (auto simp: flushPending_def Let_def split: prod.splits option.splits)

lemma recordInboundDecrypt_keys: "same_keys (fst tm) (fst (recordInboundDecrypt now i tm))"
  by (simp add: recordInboundDecrypt_def)

lemma onKeyInstalled_keys: "same_keys (fst tm) (fst (onKeyInstalled T ev tm))"
proof -
  let ?i = "EvPeerNodeID ev"
  obtain m1 t1 where r: "recordInboundDecrypt (te_now T) ?i tm = (m1, t1)" by force
  have 1: "same_keys (fst tm) m1" using recordInboundDecrypt_keys [of tm "te_now T" ?i] r by simp
  have salvage: "same_keys (fst tm) (fst (replaySalvage T o' n' j a (m1, t)))" for o' n' j a t
    using same_keys_trans [OF 1] replaySalvage_keys [of "(m1, t)"] by simp
  have flush: "same_keys (fst tm) (fst tm') \<Longrightarrow> same_keys (fst tm) (fst (flushPending T ?i tm'))" for tm'
    using same_keys_trans flushPending_keys by blast
  show ?thesis
    unfolding onKeyInstalled_def Let_def r prod.case
    by (rule flush) (simp add: salvage 1)
qed

interpretation tunnel: kx_wiring "tunnel_kx T" for T :: tun_env
proof
  fix f i a d m w b m' w'
  assume "kx_sender (tunnel_kx T) = Some f" "f i a d (m, w) = (b, m', w')"
  then show "same_keys m m'"
    using writeFrame_keys(1) [of T i a d "(m, w)"] by (auto simp: tunnel_kx_def split: prod.splits)
next
  fix h ev m w m' w'
  assume "kx_postInstall (tunnel_kx T) = Some h" "h ev (m, w) = (m', w')"
  then show "same_keys m m'"
    using onKeyInstalled_keys [of "(m, w)" T ev] by (auto simp: tunnel_kx_def)
next
  fix g i n m w m' w'
  assume "kx_preRetx (tunnel_kx T) = Some g" "g i n (m, w) = (m', w')"
  then show "same_keys m m'"
    by (auto simp: tunnel_kx_def maybeForceRelayOnRekey_def split: if_splits)
next
  fix k i m w m' w'
  assume "kx_onGaveUp (tunnel_kx T) = Some k" "k i (m, w) = (m', w')"
  then show "same_keys m m'"
    by (auto simp: tunnel_kx_def split: if_splits)
qed

lemmas tunnel_wiring = tunnel.kx_wiring_axioms

end
