(* ===== verification/Tunnel_Sample.thy ===== *)
theory Tunnel_Sample
  imports Tunnel
begin

text \<open>
  A concrete environment and two nodes, 3 and 7, that share a session key: the inputs on which
  the properties of the tunnel are evaluated. The cipher only appends a tag, the codec writes
  the source and the payload, the socket always succeeds.
\<close>

definition toy_packet :: "node_id \<Rightarrow> bytes \<Rightarrow> packet" where
  "toy_packet i payload = \<lparr> Flags = {}, Protocol = ProtoStream, Src = \<lparr> Network = 0, Node = i \<rparr>,
    Dst = \<lparr> Network = 0, Node = 7 \<rparr>, SrcPort = 49152, DstPort = 80, Seq = 1, Ack = 1, Window = 512,
    Payload = payload \<rparr>"

definition toy_marshal :: "packet \<Rightarrow> bytes option" where
  "toy_marshal pkt = (if pkt = toy_packet (Node (Src pkt)) (Payload pkt)
    then Some (put32 (Node (Src pkt)) @ Payload pkt) else None)"

definition toy_unmarshal :: "bytes \<Rightarrow> packet option" where
  "toy_unmarshal d = (if length d < 4 then None else Some (toy_packet (get32 (take 4 d)) (drop 4 d)))"

definition toy_tun :: "instant \<Rightarrow> tun_env" where
  "toy_tun now = \<lparr> te_now = now, te_send = (\<lambda>d a. Inr (length d)),
    te_consts = \<lparr> BeaconMsgDiscover = 1, BeaconMsgDiscoverReply = 2, BeaconMsgRelay = 5, BeaconMsgPunchRequest = 3,
      TunnelMagicPunch = [80, 73, 76, 80] \<rparr>,
    te_msgPunchCommand = 4, te_msgRelayDeliver = 6, te_magic = [80, 73, 76, 84],
    te_magicSecure = [80, 73, 76, 83], te_magicAuthEx = [80, 73, 76, 65], te_magicKeyEx = [80, 73, 76, 75],
    te_headerSize = 34, te_portPing = 0, te_seal = toy_seal, te_unseal = toy_open,
    te_marshal = toy_marshal, te_unmarshal = toy_unmarshal, te_trustGate = None, te_peerTrustFn = None,
    te_openConnPeers = None, te_onRekeyGaveUp = False, te_onBeaconNotify = False, te_rand = Some [1, 2, 3, 4],
    te_verifyFunc = Some (\<lambda>i. Some (Some (toy_ed i))), te_x25519 = (\<lambda>a b. Some (map2 (+) a b)),
    te_hmac = (\<lambda>k d. go_copy 32 (k @ d)), te_sign = toy_sign, te_verify = (\<lambda>ed ch sg. sg = toy_sign ed ch) \<rparr>"

text \<open>A node with the given store, encryption on and the socket open.\<close>

definition toy_tunnel :: "Store \<Rightarrow> TunnelManager" where
  "toy_tunnel s = ((kx_New s 10)\<lparr> identity := Some (toy_ed (localNodeID s)), privKey := Some (replicate 32 5),
      pubKey := Some (replicate 32 5), kxLocalNodeIDFn := Some (localNodeID s) \<rparr>,
    (snd (NewTunnelManager (\<lambda>_. sample_crypto)))\<lparr> tmSock := True, encrypt := True, tmPrivKey := Some (replicate 32 5),
      nodeID := localNodeID s, routing := SetSocket True (SetLocalNodeIDFn (Some (localNodeID s)) New) \<rparr>)"

definition sender_node :: TunnelManager where "sender_node = toy_tunnel sample_store"
definition receiver_node :: TunnelManager where "receiver_node = toy_tunnel peer_store"

lemmas toy_defs = toy_tun_def toy_tunnel_def sender_node_def receiver_node_def sample_store_def peer_store_def
  sample_crypto_def NewTunnelManager_def kx_New_def

lemma sample_nodes:
  "encrypt (snd sender_node)" "encrypt (snd receiver_node)" "sock (routing (snd sender_node))"
  "outbox (snd sender_node) = []" "recvCh (snd receiver_node) = []"
  "ready_key 7 (fst sender_node) = Some 1" "Get 3 (env (fst receiver_node)) = Some 5"
  "heap (env (fst sender_node)) 1 = sample_crypto" "heap (env (fst receiver_node)) 5 = sample_crypto"
  "localNodeID (env (fst sender_node)) = 3"
  by (simp_all add: toy_defs ready_key_def Get_def SetSocket_def)

text \<open>The body of the first frame node 3 seals for node 7.\<close>

definition sample_body :: "bytes \<Rightarrow> bytes" where
  "sample_body payload = put32 3 @ [9, 9, 9, 9] @ put64 1 @ (put32 3 @ payload) @ replicate 16 1"

lemma sample_body_fields:
  "length (sample_body payload) = 36 + length payload" "frame_peer (sample_body payload) = 3"
  "frame_counter (sample_body payload) = 1"
  "open_frame toy_open (sample_body payload) sample_crypto = Some (put32 3 @ payload)"
  by (simp_all add: sample_body_def frame_peer_def frame_counter_def open_frame_def go_slice_def toy_open_def
      sample_crypto_def drop_append)

lemma sample_ready: "frame_ready (sample_body payload) (env (fst receiver_node)) 5"
  by (simp add: frame_ready_def sample_body_fields toy_defs Get_def)

lemma sample_accepted: "WouldAcceptNonce 1 (heap (env (fst receiver_node)) 5)"
  by (simp add: WouldAcceptNonce_def toy_defs)

lemma toy_packet_fields [simp]: "Payload (toy_packet i payload) = payload" "Node (Src (toy_packet i payload)) = i"
  "Protocol (toy_packet i payload) = ProtoStream"
  by (simp_all add: toy_packet_def)

lemma toy_codec: "toy_unmarshal (put32 i @ payload) = Some (toy_packet i payload)"
  "toy_marshal (toy_packet i payload) = Some (put32 i @ payload)"
  by (simp_all add: toy_unmarshal_def toy_marshal_def)

end
