(* ===== verification/Kx_Effects.thy ===== *)
theory Kx_Effects
  imports Key_Exchange
begin

text \<open>
  What the key exchange does to the world of its callbacks. The managers' own code touches
  that world only by calling the hooks, so whatever the hooks keep is kept by every operation
  of the key exchange. The frames handed to the sender are those the manager builds; the
  contract asks about these only.
\<close>

locale kx_world =
  fixes E :: "'w kx_env" and R :: "'w \<Rightarrow> 'w \<Rightarrow> bool" and F :: "bytes \<Rightarrow> bool"
  assumes R_refl: "R w w"
    and R_trans: "\<lbrakk> R w w'; R w' w'' \<rbrakk> \<Longrightarrow> R w w''"
    and auth_frames: "BuildAuthFrame E m = Some frame \<Longrightarrow> F frame"
    and unauth_frames: "BuildUnauthFrame E m = Some frame \<Longrightarrow> F frame"
    and sender_R: "\<lbrakk> kx_sender E = Some f; F d; f i a d (m, w) = (b, m', w') \<rbrakk> \<Longrightarrow> R w w'"
    and publisher_R: "kx_publisher E = Some pb \<Longrightarrow> R w (pb e w)"
    and postInstall_R: "\<lbrakk> kx_postInstall E = Some h; h ev (m, w) = (m', w') \<rbrakk> \<Longrightarrow> R w w'"
    and preRetx_R: "\<lbrakk> kx_preRetx E = Some g; g i n (m, w) = (m', w') \<rbrakk> \<Longrightarrow> R w w'"
    and onGaveUp_R: "\<lbrakk> kx_onGaveUp E = Some k; k i (m, w) = (m', w') \<rbrakk> \<Longrightarrow> R w w'"
begin

lemma publish_R: "R w (publish E ev w)"
  by (auto simp: publish_def R_refl publisher_R split: option.splits)

lemma SendKeyExchangeToNode_R:
  assumes "SendKeyExchangeToNode E i (m, w) = (r, m', w')"
  shows "R w w'"
proof (cases "kx_sender E = None \<or> BuildUnauthFrame E m = None")
  case True
  with assms show ?thesis by (auto simp: SendKeyExchangeToNode_def R_refl split: option.splits)
next
  case False
  then obtain f unauth where f: "kx_sender E = Some f" and u: "BuildUnauthFrame E m = Some unauth" by auto
  define addr where "addr = (case kx_addrLookup E of None \<Rightarrow> None | Some lk \<Rightarrow> lk i w)"
  obtain frame authed where ch: "choose_frame E m unauth = (frame, authed)" by force
  obtain kr m1 where kr: "key_request i authed m = (kr, m1)" by force
  obtain ok m2 w2 where s1: "f i addr frame (m1, w) = (ok, m2, w2)" by (metis prod_cases3)
  obtain ok3 m3 w3 where s2: "send_request (f i addr unauth) kr (m2, w2) = (ok3, m3, w3)" by (metis prod_cases3)
  have Fu: "F unauth" using unauth_frames [OF u] .
  then have "F frame" using ch auth_frames by (auto simp: choose_frame_def split: option.splits if_splits)
  then have r1: "R w w2" using sender_R [OF f _ s1] by simp
  have "R w2 w3"
    using s2 sender_R [OF f Fu] by (auto simp: send_request_def R_refl split: if_splits bool.splits prod.splits)
  with r1 have "R w w3" by (rule R_trans)
  moreover have "w' = (if ok then w3 else w2)"
    using assms by (cases ok) (auto simp: SendKeyExchangeToNode_def f u addr_def [symmetric] ch kr s1 s2)
  ultimately show ?thesis using r1 by simp
qed

lemma send_R: "R (snd mw) (snd (snd (SendKeyExchangeToNode E i mw)))"
  by (cases mw; cases "SendKeyExchangeToNode E i mw") (auto intro: SendKeyExchangeToNode_R)

lemma announce_key_R: "R (snd mw) (snd (announce_key E ev mw))"
proof -
  obtain m w where mw: "mw = (m, w)" by force
  show ?thesis
  proof (cases "kx_postInstall E")
    case None
    then show ?thesis by (simp add: announce_key_def mw Let_def publish_R)
  next
    case (Some h)
    have "R v (snd (h ev (m, v)))" for v using postInstall_R [OF Some] by (metis prod.collapse)
    then have "R w (snd (h ev (m, publish E e w)))" for e by (rule R_trans [OF publish_R])
    then show ?thesis using Some by (simp add: announce_key_def mw Let_def)
  qed
qed

lemma auth_reply_R: "R (snd mw) (snd (auth_reply E peer fresh mw))"
proof -
  obtain m w where mw: "mw = (m, w)" by force
  obtain ok m1 where mk: "MarkReplyKeyExchangeSent (kx_now E) peer m = (ok, m1)" by force
  obtain r2 m2 w2 where s2: "SendKeyExchangeToNode E peer (m, w) = (r2, m2, w2)" by (metis prod_cases3)
  obtain r3 m3 w3 where s3: "SendKeyExchangeToNode E peer (m1, w) = (r3, m3, w3)" by (metis prod_cases3)
  have "R w w2" "R w w3" using SendKeyExchangeToNode_R s2 s3 by blast+
  then show ?thesis by (cases ok) (simp_all add: auth_reply_def mw mk s2 s3 R_refl)
qed

lemma accept_auth_R: "R (snd mw) (snd (accept_auth E peer ed from fr pc mw))"
proof -
  obtain m w where mw: "mw = (m, w)" by force
  have "\<exists>ev fresh dup m1. accept_auth E peer ed from fr pc (m, w) =
      auth_reply E peer fresh (if dup then (m1, w) else announce_key E ev (m1, w))"
    unfolding accept_auth_def Let_def prod.case by (intro exI) (rule refl)
  then obtain ev fresh dup m1 where acc: "accept_auth E peer ed from fr pc (m, w) =
      auth_reply E peer fresh (if dup then (m1, w) else announce_key E ev (m1, w))" by blast
  have "R w (snd (if dup then (m1, w) else announce_key E ev (m1, w)))"
    using announce_key_R [of "(m1, w)" ev] by (auto simp: R_refl)
  then show ?thesis unfolding mw acc using auth_reply_R R_trans by (metis snd_conv)
qed

lemma HandleAuthFrame_R:
  assumes "HandleAuthFrame E data from fr (m, w) = (ok, m', w')"
  shows "R w w'"
proof -
  have "w' = w \<or> (\<exists>peer ed pc m2. accept_auth E peer ed from fr pc (m2, w) = (m', w'))"
    using assms by (auto simp: HandleAuthFrame_def Let_def split: if_splits option.splits prod.splits)
  then show ?thesis using accept_auth_R by (metis R_refl snd_conv)
qed

lemma accept_unauth_R: "R (snd mw) (snd (accept_unauth E peer from fr pc mw))"
proof -
  obtain m w where mw: "mw = (m, w)" by force
  have "\<exists>ev fresh dup m1. accept_unauth E peer from fr pc (m, w) =
      (case if dup then (m1, w) else announce_key E ev (m1, w) of (m3, w3) \<Rightarrow>
       case if fresh then snd (SendKeyExchangeToNode E peer (m3, w3)) else (m3, w3) of
         (m4, w4) \<Rightarrow> (ClearPendingRekey peer m4, w4))"
    unfolding accept_unauth_def Let_def prod.case by (intro exI) (rule refl)
  then obtain ev fresh dup m1 where acc: "accept_unauth E peer from fr pc (m, w) =
      (case if dup then (m1, w) else announce_key E ev (m1, w) of (m3, w3) \<Rightarrow>
       case if fresh then snd (SendKeyExchangeToNode E peer (m3, w3)) else (m3, w3) of
         (m4, w4) \<Rightarrow> (ClearPendingRekey peer m4, w4))" by blast
  obtain m3 w3 where ann: "(if dup then (m1, w) else announce_key E ev (m1, w)) = (m3, w3)" by force
  have "R w w3" using ann announce_key_R [of "(m1, w)" ev] by (auto simp: R_refl split: if_splits)
  moreover have "R w3 (snd (snd (SendKeyExchangeToNode E peer (m3, w3))))" using send_R [of "(m3, w3)"] by simp
  ultimately show ?thesis
    unfolding mw acc ann by (auto intro: R_trans split: prod.splits)
qed

lemma HandleUnauthFrame_R:
  assumes "HandleUnauthFrame E data from fr (m, w) = (ok, m', w')"
  shows "R w w'"
proof -
  have "w' = w \<or> (\<exists>peer m1. snd (SendKeyExchangeToNode E peer (m1, w)) = (m', w')) \<or>
      (\<exists>peer pc m2. accept_unauth E peer from fr pc (m2, w) = (m', w'))"
    using assms by (auto simp: HandleUnauthFrame_def Let_def split: if_splits option.splits prod.splits bool.splits)
  then show ?thesis
    using accept_unauth_R send_R R_refl by (metis snd_conv)
qed

lemma fold_R:
  assumes "\<And>x mw. R (snd mw) (snd (g x mw))"
  shows "R (snd mw) (snd (fold g xs mw))"
proof (induction xs arbitrary: mw)
  case (Cons x xs)
  from assms [of mw x] Cons [of "g x mw"] show ?case by (auto intro: R_trans)
qed (simp add: R_refl)

lemma retransmit_R: "R (snd mw) (snd (retransmit E r mw))"
proof -
  obtain m1 w1 where pre: "(case kx_preRetx E of None \<Rightarrow> mw | Some h \<Rightarrow> h (fst r) (snd r + 1) mw) = (m1, w1)" by force
  have "R (snd mw) w1"
    using pre by (cases mw) (auto simp: R_refl split: option.splits intro: preRetx_R)
  then show ?thesis
    using send_R [of "(m1, w1)" "fst r"] by (auto simp: retransmit_def pre Let_def intro: R_trans)
qed

lemma RekeyRetransmitTick_R: "R (snd mw) (snd (RekeyRetransmitTick E order mw))"
proof -
  obtain give retry m1 where d: "tick_decide (kx_now E) order (fst mw) = (give, retry, m1)"
    by (metis prod_cases3)
  define mw2 where "mw2 = (case kx_onGaveUp E of None \<Rightarrow> (m1, snd mw) | Some h \<Rightarrow> fold h give (m1, snd mw))"
  have 2: "R (snd mw) (snd mw2)"
  proof (cases "kx_onGaveUp E")
    case (Some h)
    have "R (snd x) (snd (h i x))" for i x
      by (cases x; cases "h i x") (auto intro: onGaveUp_R [OF Some])
    then show ?thesis using fold_R [of h "(m1, snd mw)"] Some by (simp add: mw2_def)
  qed (simp add: mw2_def R_refl)
  have 3: "R (snd mw2) (snd (fold (retransmit E) (take maxRetransmitsPerTick retry) mw2))"
    by (rule fold_R [OF retransmit_R])
  have pub: "R w (fold (\<lambda>peer. publish E (RekeyGaveUpEvent peer)) xs w)" for xs w
    by (induction xs arbitrary: w) (auto simp: R_refl intro: R_trans publish_R)
  show ?thesis
    using R_trans [OF R_trans [OF 2 3] pub] by (simp add: RekeyRetransmitTick_def d Let_def mw2_def)
qed

end

end
