(* ===== verification/Tunnel_Flow.thy ===== *)
theory Tunnel_Flow
  imports Tunnel_Sample Kx_Effects
begin

text \<open>
  What flows through the tunnel: which datagrams its operations send, and which packets they
  hand to the daemon. Both follow from one relation, kept by the key exchange because the
  tunnel's callbacks keep it.
\<close>

section \<open>Datagrams\<close>

text \<open>A sealed frame, a frame of the key exchange, and a datagram that carries one of them.\<close>

definition cipher_frame :: "tun_env \<Rightarrow> bytes \<Rightarrow> bool" where
  "cipher_frame T frame \<longleftrightarrow> (\<exists>key nonce plaintext i.
    frame = te_magicSecure T @ put32 i @ nonce @ te_seal T key nonce plaintext (put32 i))"

definition kx_frame :: "tun_env \<Rightarrow> bytes \<Rightarrow> bool" where
  "kx_frame T frame \<longleftrightarrow> (\<exists>m. BuildAuthFrame (tunnel_kx T) m = Some frame \<or> BuildUnauthFrame (tunnel_kx T) m = Some frame)"

definition safe_datagram :: "tun_env \<Rightarrow> datagram \<Rightarrow> bool" where
  "safe_datagram T d \<longleftrightarrow> (\<exists>frame. (cipher_frame T frame \<or> kx_frame T frame) \<and>
    (fst d = frame \<or> (\<exists>src dst. fst d = relay_msg (te_consts T) src dst frame)))"

definition tun_kept :: "tun_env \<Rightarrow> Tunnel \<Rightarrow> Tunnel \<Rightarrow> bool" where
  "tun_kept T t t' \<longleftrightarrow> recvCh t' = recvCh t \<and> encrypt t' = encrypt t \<and> tmPrivKey t' = tmPrivKey t \<and>
    nodeID t' = nodeID t \<and> tmSock t' = tmSock t \<and> same_beacon (routing t) (routing t') \<and>
    (\<exists>ds. outbox t' = outbox t @ ds \<and> (\<forall>d\<in>set ds. safe_datagram T d))"

lemma same_beacon_refl [simp]: "same_beacon r r"
  by (simp add: same_beacon_def)

lemma same_beacon_trans: "\<lbrakk> same_beacon r r'; same_beacon r' r'' \<rbrakk> \<Longrightarrow> same_beacon r r''"
  by (simp add: same_beacon_def)

lemma tun_kept_refl [simp]: "tun_kept T t t"
  by (simp add: tun_kept_def)

lemma tun_kept_trans: "\<lbrakk> tun_kept T t t'; tun_kept T t' t'' \<rbrakk> \<Longrightarrow> tun_kept T t t''"
  unfolding tun_kept_def by (auto intro: same_beacon_trans)

text \<open>Updates of the other fields.\<close>

lemma tun_kept_fields [simp]:
  "tun_kept T t (t'\<lparr> peers := v1 \<rparr>) = tun_kept T t t'"
  "tun_kept T t (t'\<lparr> activity := v2 \<rparr>) = tun_kept T t t'"
  "tun_kept T t (t'\<lparr> pending := v3 \<rparr>) = tun_kept T t t'"
  "tun_kept T t (t'\<lparr> pendingSince := v4 \<rparr>) = tun_kept T t t'"
  "tun_kept T t (t'\<lparr> lastPendDropLog := v5 \<rparr>) = tun_kept T t t'"
  "tun_kept T t (t'\<lparr> lastRekeyReq := v6 \<rparr>) = tun_kept T t t'"
  "tun_kept T t (t'\<lparr> kxRateLim := v7 \<rparr>) = tun_kept T t t'"
  "tun_kept T t (t'\<lparr> relayKxLim := v8 \<rparr>) = tun_kept T t t'"
  "tun_kept T t (t'\<lparr> keyViaRelay := v9 \<rparr>) = tun_kept T t t'"
  "tun_kept T t (t'\<lparr> events := v10 \<rparr>) = tun_kept T t t'"
  "tun_kept T t (t'\<lparr> gaveUpCalls := v11 \<rparr>) = tun_kept T t t'"
  "tun_kept T t (t'\<lparr> notifyCalls := v12 \<rparr>) = tun_kept T t t'"
  "tun_kept T t (t'\<lparr> tmEncryptOK := v13 \<rparr>) = tun_kept T t t'"
  "tun_kept T t (t'\<lparr> tmEncryptFail := v14 \<rparr>) = tun_kept T t t'"
  "tun_kept T t (t'\<lparr> LastRecvNano := v15 \<rparr>) = tun_kept T t t'"
  "tun_kept T t (t'\<lparr> PendingDrops := v16 \<rparr>) = tun_kept T t t'"
  "tun_kept T t (t'\<lparr> tmPktsSent := v17 \<rparr>) = tun_kept T t t'"
  "tun_kept T t (t'\<lparr> tmBytesSent := v18 \<rparr>) = tun_kept T t t'"
  by (simp_all add: tun_kept_def)

lemma tun_kept_routing: "same_beacon (routing t) r \<Longrightarrow> tun_kept T t (t\<lparr> routing := r \<rparr>)"
  by (simp add: tun_kept_def)

lemma routing_same_beacon [simp]:
  "same_beacon r0 (snd (AdmitRelayFromBeacon i r)) = same_beacon r0 r"
  "same_beacon r0 (ClearSendErrCount i r) = same_beacon r0 r"
  "same_beacon r0 (SetRelayPeer i b r) = same_beacon r0 r"
  "same_beacon r0 (snd (ClearRelayOnDirect i from r)) = same_beacon r0 r"
  "same_beacon r0 (RecordDirectRecv i now r) = same_beacon r0 r"
  "same_beacon r0 (snd (MarkRelayActivatedIfHadCrypto i had r)) = same_beacon r0 r"
  "same_beacon r0 (RecordOutboundSend i now r) = same_beacon r0 r"
  "same_beacon r0 (RoutingRemovePeer i r) = same_beacon r0 r"
  by (auto simp: same_beacon_def AdmitRelayFromBeacon_def ClearSendErrCount_def SetRelayPeer_def
      ClearRelayOnDirect_def RecordDirectRecv_def MarkRelayActivatedIfHadCrypto_def RoutingRemovePeer_def Let_def
      split: option.splits)

lemma WriteFrame_sent:
  assumes "WriteFrame K send now i addr frame ct r = (o', ds, ct', r')" and "d \<in> set ds"
  shows "fst d = frame \<or> (\<exists>src. fst d = relay_msg K src i frame)"
  using assms
  by (auto simp: WriteFrame_def Let_def split: prod.splits option.splits sum.splits if_splits)

lemma writeFrame_kept:
  assumes "cipher_frame T frame \<or> kx_frame T frame" and "writeFrame T i addr frame tm = (err, tm')"
  shows "tun_kept T (snd tm) (snd tm')"
proof -
  let ?ct = "\<lparr> CtPktsSent = Some (tmPktsSent (snd tm)), CtBytesSent = Some (tmBytesSent (snd tm)) \<rparr>"
  obtain o' e ds ct' r where w: "WriteFrame (te_consts T) (te_send T) (te_now T) i addr frame ?ct (routing (snd tm))
      = ((o', e), ds, ct', r)" by (metis prod.exhaust)
  have "safe_datagram T d" if "d \<in> set ds" for d
    using WriteFrame_sent [OF w that] assms(1) by (auto simp: safe_datagram_def)
  moreover have "same_beacon (routing (snd tm)) r"
    using route_step_same_beacon [of "routing (snd tm)" "routing (snd tm)"
        "Write (te_consts T) (te_send T) (te_now T) i addr frame ?ct"] w by simp
  moreover have "snd tm' = (snd tm)\<lparr> routing := r, outbox := outbox (snd tm) @ ds,
      tmPktsSent := the (CtPktsSent ct'), tmBytesSent := the (CtBytesSent ct') \<rparr>"
    using assms(2) w by (auto simp: writeFrame_def split: prod.splits)
  ultimately show ?thesis by (auto simp: tun_kept_def)
qed

lemma encryptFrame_kept:
  assumes "encryptFrame T p plaintext tm = (frame, tm')"
  shows "cipher_frame T frame" and "tun_kept T (snd tm) (snd tm')"
proof -
  obtain m t where tm: "tm = (m, t)" by force
  have f: "frame = fst (EncryptWith (te_seal T) (te_magicSecure T) p plaintext (env m))"
      "snd tm' = t\<lparr> tmEncryptOK := tmEncryptOK t + 1 \<rparr>"
    using assms by (auto simp: encryptFrame_def tm split: prod.splits)
  then show "cipher_frame T frame" unfolding cipher_frame_def EncryptWith_frame by blast
  show "tun_kept T (snd tm) (snd tm')" by (simp add: f tm)
qed

lemma encrypt_write_kept:
  assumes "encryptFrame T p plaintext tm = (frame, tm1)" and "writeFrame T i addr frame tm1 = (err, tm2)"
  shows "tun_kept T (snd tm) (snd tm2)"
  using tun_kept_trans [OF encryptFrame_kept(2) [OF assms(1)] writeFrame_kept [OF _ assms(2)]]
    encryptFrame_kept(1) [OF assms(1)] by simp

lemma replay_entries_kept: "tun_kept T (snd tm) (snd (snd (replay_entries T p i addr es n tm)))"
proof (induction T p i addr es n tm rule: replay_entries.induct)
  case (2 T p i addr e es n tm)
  obtain frame tm1 where en: "encryptFrame T p (Plaintext e) tm = (frame, tm1)" by (metis surj_pair)
  obtain err tm2 where wr: "writeFrame T i (Some addr) frame tm1 = (err, tm2)" by (metis surj_pair)
  show ?case
    using 2(1) [OF en [symmetric] wr [symmetric]] 2(2) [OF en [symmetric] wr [symmetric]] encrypt_write_kept [OF en wr]
    by (cases err) (auto simp: en wr intro: tun_kept_trans)
qed simp

lemma flush_frames_kept: "tun_kept T (snd tm) (snd (flush_frames T p i addr frames tm))"
proof (induction T p i addr frames tm rule: flush_frames.induct)
  case (2 T p i addr plaintext frames tm)
  obtain frame tm1 where en: "encryptFrame T p plaintext tm = (frame, tm1)" by (metis surj_pair)
  obtain err tm2 where wr: "writeFrame T i addr frame tm1 = (err, tm2)" by (metis surj_pair)
  show ?case
    using 2 [OF _ en [symmetric] wr [symmetric]] encrypt_write_kept [OF en wr]
    by (auto simp: en wr intro: tun_kept_trans)
qed simp

lemma flushPending_kept: "tun_kept T (snd tm) (snd (flushPending T i tm))"
proof -
  obtain m t where tm: "tm = (m, t)" by force
  define t1 where "t1 = t\<lparr> pending := (pending t)(i := None), pendingSince := (pendingSince t)(i := None) \<rparr>"
  have 1: "tun_kept T t t1" by (simp add: t1_def)
  then have "tun_kept T t (snd (flush_frames T p i a fs (m, t1)))" for p a fs
    using flush_frames_kept [of T "(m, t1)" p i a fs] tun_kept_trans by auto
  with 1 show ?thesis
    by (auto simp: flushPending_def tm t1_def [symmetric] Let_def split: option.splits)
qed

lemma replaySalvage_kept: "tun_kept T (snd tm) (snd (replaySalvage T oldPC newPC i addr tm))"
proof (cases "oldPC = None \<or> newPC = None \<or> addr = None")
  case True
  then show ?thesis by (auto simp: replaySalvage_def split: option.splits)
next
  case False
  then obtain old p a where o: "oldPC = Some old" "newPC = Some p" "addr = Some a" by auto
  obtain es s where d: "DrainSalvage (te_now T) (Some old) (env (fst tm)) = (es, s)" by force
  let ?tm1 = "((fst tm)\<lparr> env := s \<rparr>, snd tm)"
  obtain n m2 t2 where r: "replay_entries T p i a es 0 ?tm1 = (n, m2, t2)" by (metis prod_cases3)
  have "tun_kept T (snd tm) t2" using replay_entries_kept [of T ?tm1 p i a es 0] r by simp
  then show ?thesis by (auto simp: replaySalvage_def o d r Let_def publishEvent_def)
qed

lemma learn_endpoint_kept: "tun_kept T t (learn_endpoint ev t)"
  by (auto simp: learn_endpoint_def Let_def tun_kept_def BeaconAddr_def split: option.splits)

lemma onKeyInstalled_kept: "tun_kept T (snd tm) (snd (onKeyInstalled T ev tm))"
proof -
  let ?i = "EvPeerNodeID ev"
  obtain m1 t1 where r: "recordInboundDecrypt (te_now T) ?i tm = (m1, t1)" by force
  have 1: "tun_kept T (snd tm) t1" using r by (auto simp: recordInboundDecrypt_def intro: tun_kept_routing)
  define t3 where "t3 = (let t2 = (if \<not> EvHadCrypto ev then noteAppActivity (te_now T) ?i t1 else t1) in
    if \<not> EvHadCrypto ev \<or> EvKeyChanged ev
    then t2\<lparr> keyViaRelay := (keyViaRelay t2)(?i \<mapsto> EvFromRelay ev) \<rparr> else t2)"
  have "tun_kept T (snd tm) t3" using 1 by (simp add: t3_def Let_def noteAppActivity_def)
  then have 4: "tun_kept T (snd tm) (learn_endpoint ev t3)" by (rule tun_kept_trans [OF _ learn_endpoint_kept])
  have salvage: "tun_kept T (snd tm) (snd (replaySalvage T o' n' j a (m1, learn_endpoint ev t3)))" for o' n' j a
    using tun_kept_trans [OF 4] replaySalvage_kept [of T "(m1, learn_endpoint ev t3)"] by simp
  have flush: "tun_kept T (snd tm) (snd tm') \<Longrightarrow> tun_kept T (snd tm) (snd (flushPending T ?i tm'))" for tm'
    using tun_kept_trans flushPending_kept by blast
  show ?thesis
    unfolding onKeyInstalled_def Let_def r prod.case t3_def [unfolded Let_def, symmetric]
    by (rule flush) (simp add: salvage 4)
qed

interpretation tunnel_world: kx_world "tunnel_kx T" "tun_kept T" "kx_frame T" for T :: tun_env
proof
  fix w w' w'' :: Tunnel
  show "tun_kept T w w" by simp
  show "\<lbrakk> tun_kept T w w'; tun_kept T w' w'' \<rbrakk> \<Longrightarrow> tun_kept T w w''" by (rule tun_kept_trans)
next
  fix m frame
  assume "BuildAuthFrame (tunnel_kx T) m = Some frame"
  then show "kx_frame T frame" by (auto simp: kx_frame_def)
next
  fix m frame
  assume "BuildUnauthFrame (tunnel_kx T) m = Some frame"
  then show "kx_frame T frame" by (auto simp: kx_frame_def)
next
  fix f d i a m w b m' w'
  assume "kx_sender (tunnel_kx T) = Some f" "kx_frame T d" "f i a d (m, w) = (b, m', w')"
  then show "tun_kept T w w'"
    using writeFrame_kept [of T d i a "(m, w)"] by (auto simp: tunnel_kx_def split: prod.splits)
next
  fix pb w e
  assume "kx_publisher (tunnel_kx T) = Some pb"
  then show "tun_kept T w (pb e w)" by (auto simp: tunnel_kx_def publishEvent_def)
next
  fix h ev m w m' w'
  assume "kx_postInstall (tunnel_kx T) = Some h" "h ev (m, w) = (m', w')"
  then show "tun_kept T w w'"
    using onKeyInstalled_kept [of T "(m, w)" ev] by (auto simp: tunnel_kx_def)
next
  fix g i n m w m' w'
  assume "kx_preRetx (tunnel_kx T) = Some g" "g i n (m, w) = (m', w')"
  then show "tun_kept T w w'"
    by (auto simp: tunnel_kx_def maybeForceRelayOnRekey_def intro: tun_kept_routing split: if_splits)
next
  fix k i m w m' w'
  assume "kx_onGaveUp (tunnel_kx T) = Some k" "k i (m, w) = (m', w')"
  then show "tun_kept T w w'"
    by (auto simp: tunnel_kx_def split: if_splits)
qed

section \<open>Key exchanges of the tunnel\<close>

lemma relay_copy_kept: "kx_frame T frame \<Longrightarrow> tun_kept T t (relay_copy T i frame t)"
  by (auto simp: tun_kept_def relay_copy_def SendRelayFrame_def safe_datagram_def Let_def split: option.splits)

lemma sendKeyExchangeToNode_kept: "tun_kept T (snd tm) (snd (sendKeyExchangeToNode T i tm))"
proof -
  obtain kr m t where s: "SendKeyExchangeToNode (tunnel_kx T) i tm = (kr, m, t)" by (metis prod_cases3)
  have 1: "tun_kept T (snd tm) t" using tunnel_world.send_R [of T tm i] s by simp
  have frames: "BuildAuthFrame (tunnel_kx T) m = Some f \<Longrightarrow> kx_frame T f"
      "BuildUnauthFrame (tunnel_kx T) m = Some f \<Longrightarrow> kx_frame T f" for f
    by (auto simp: kx_frame_def)
  then show ?thesis
    using 1 relay_copy_kept tun_kept_trans
    by (auto simp: sendKeyExchangeToNode_def s Let_def split: option.splits if_splits)
      (meson relay_copy_kept tun_kept_trans)+
qed

lemma sendKeyExchangeToNode_keys: "same_keys (fst tm) (fst (sendKeyExchangeToNode T i tm))"
proof -
  obtain kr m t where s: "SendKeyExchangeToNode (tunnel_kx T) i tm = (kr, m, t)" by (metis prod_cases3)
  have "same_keys (fst tm) m"
    using tunnel.SendKeyExchangeToNode_keeps [of T i "fst tm" "snd tm" kr m t] s by simp
  then show ?thesis by (auto simp: sendKeyExchangeToNode_def s Let_def split: option.splits)
qed

lemma rekey_gate_kept: "tun_kept T t (snd (rekey_gate now i t))"
  by (auto simp: rekey_gate_def Let_def split: option.splits prod.splits bool.splits)

lemma rekey_endpoint_kept: "tun_kept T t (rekey_endpoint i from t)"
  by (auto simp: rekey_endpoint_def Let_def tun_kept_def)

lemma maybeRequestRekey_kept:
  assumes "maybeRequestRekey T i from tm = (ok, tm')"
  shows "tun_kept T (snd tm) (snd tm')" and "same_keys (fst tm) (fst tm')"
proof -
  obtain m t where tm: "tm = (m, t)" by force
  obtain g t1 where rg: "rekey_gate (te_now T) i t = (g, t1)" by force
  have 1: "tun_kept T t t1" using rekey_gate_kept [of T t "te_now T" i] rg by simp
  let ?m1 = "if \<not> Has i (env m) then MarkKeyRequestDue i m else m"
  let ?t2 = "rekey_endpoint i from t1"
  have eq: "tm' = (if \<not> tmSock t then (m, t) else if \<not> g then (m, t1) else sendKeyExchangeToNode T i (?m1, ?t2))"
    using assms by (cases g) (auto simp: maybeRequestRekey_def tm rg Let_def split: if_splits)
  have "tun_kept T t (snd (sendKeyExchangeToNode T i (?m1, ?t2)))"
    using tun_kept_trans [OF tun_kept_trans [OF 1 rekey_endpoint_kept [of T t1 i "from"]]]
      sendKeyExchangeToNode_kept [of T "(?m1, ?t2)" i] by simp
  moreover have "same_keys m (fst (sendKeyExchangeToNode T i (?m1, ?t2)))"
    using same_keys_trans [of m ?m1] sendKeyExchangeToNode_keys [of "(?m1, ?t2)" T i] by simp
  ultimately show "tun_kept T (snd tm) (snd tm')" "same_keys (fst tm) (fst tm')"
    using 1 by (simp_all add: eq tm)
qed

lemma drop_and_rekey_kept: "tun_kept T (snd tm) (snd (drop_and_rekey T gate i from tm))"
proof -
  obtain m t where tm: "tm = (m, t)" by force
  obtain b s where cd: "CompareAndDrop i (Get i (env m)) (env m) = (b, s)" by force
  obtain ok tm' where mr: "maybeRequestRekey T i from (m\<lparr> env := s \<rparr>, t) = (ok, tm')" by (metis surj_pair)
  show ?thesis
    using maybeRequestRekey_kept(1) [OF mr]
    by (cases b) (auto simp: drop_and_rekey_def tm cd mr Let_def)
qed

lemma handleAuthKeyExchange_kept: "tun_kept T (snd tm) (snd (handleAuthKeyExchange T data from fr tm))"
proof -
  obtain m t where tm: "tm = (m, t)" by force
  have lim: "tun_kept T t (t\<lparr> kxRateLim := l \<rparr>)" for l by simp
  have "tun_kept T t (snd (snd (HandleAuthFrame (tunnel_kx T) data from fr (m, t\<lparr> kxRateLim := l \<rparr>))))" for l
    using tunnel_world.HandleAuthFrame_R [of T data "from" fr m "t\<lparr> kxRateLim := l \<rparr>"] tun_kept_trans [OF lim]
    by (metis prod.collapse)
  moreover have "tun_kept T t (snd (snd (HandleAuthFrame (tunnel_kx T) data from fr (m, t))))"
    using tunnel_world.HandleAuthFrame_R [of T data "from" fr m t] by (metis prod.collapse)
  ultimately show ?thesis
    by (auto simp: handleAuthKeyExchange_def tm Let_def split: prod.splits)
qed

lemma handleKeyExchange_kept: "tun_kept T (snd tm) (snd (handleKeyExchange T data from fr tm))"
proof -
  obtain m t where tm: "tm = (m, t)" by force
  have lim: "tun_kept T t (t\<lparr> kxRateLim := l \<rparr>)" for l by simp
  have "tun_kept T t (snd (snd (HandleUnauthFrame (tunnel_kx T) data from fr (m, t\<lparr> kxRateLim := l \<rparr>))))" for l
    using tunnel_world.HandleUnauthFrame_R [of T data "from" fr m "t\<lparr> kxRateLim := l \<rparr>"] tun_kept_trans [OF lim]
    by (metis prod.collapse)
  moreover have "tun_kept T t (snd (snd (HandleUnauthFrame (tunnel_kx T) data from fr (m, t))))"
    using tunnel_world.HandleUnauthFrame_R [of T data "from" fr m t] by (metis prod.collapse)
  ultimately show ?thesis
    by (auto simp: handleKeyExchange_def tm Let_def split: prod.splits)
qed

section \<open>What is delivered\<close>

text \<open>
  \<open>opened T m body pkt\<close>: the frame body opens under the ready key installed for the node it
  names, the window accepts its counter, and the packet in it names that node as its source.
\<close>

definition opened :: "tun_env \<Rightarrow> KxManager \<Rightarrow> bytes \<Rightarrow> packet \<Rightarrow> bool" where
  "opened T m body pkt \<longleftrightarrow> (\<exists>p plaintext. frame_ready body (env m) p \<and>
    open_frame (te_unseal T) body (heap (env m) p) = Some plaintext \<and>
    WouldAcceptNonce (frame_counter body) (heap (env m) p) \<and>
    te_unmarshal T plaintext = Some pkt \<and> Node (Src pkt) = frame_peer body)"

lemma accept_packet_recv:
  "recvCh (snd (accept_packet T i len pkt from tm)) =
    recvCh (snd tm) @ (if isTunnelKeepalive T pkt then [] else [\<lparr> Packet = pkt, FromAddr = from \<rparr>])"
  by (cases tm) (simp add: accept_packet_def recordInboundDecrypt_def noteAppActivity_def Let_def)

lemma handleEncrypted_recv:
  "recvCh (snd (handleEncrypted T data from (m, t))) = recvCh t \<or>
   (\<exists>pkt. recvCh (snd (handleEncrypted T data from (m, t))) = recvCh t @ [\<lparr> Packet = pkt, FromAddr = from \<rparr>] \<and>
     opened T m data pkt)"
proof (cases "Err (fst (DecryptFrame (te_unseal T) data (env m)))")
  case None
  then obtain p pt where p: "frame_ready data (env m) p" "open_frame (te_unseal T) data (heap (env m) p) = Some pt"
      "WouldAcceptNonce (frame_counter data) (heap (env m) p)"
    by (auto simp: DecryptFrame_success_iff)
  show ?thesis
    using DecryptFrame_accepted [OF p] p
    by (auto simp: handleEncrypted_def accept_packet_recv publishEvent_def opened_def Let_def
        isLegacyUnstampedKeepalive_def split: option.splits)
next
  case (Some e)
  obtain res s where d: "DecryptFrame (te_unseal T) data (env m) = (res, s)" by force
  have ErrNR: "e \<noteq> ErrNotReady"
    using Some by (auto simp: DecryptFrame_def rejectResult_def commit_frame_def Let_def
        split: option.splits if_splits prod.splits)
  have req: "recvCh (snd (snd (maybeRequestRekey T i f tm))) = recvCh (snd tm)" for i f tm
    using maybeRequestRekey_kept(1) [of T i f tm] by (metis prod.collapse tun_kept_def)
  have drop: "recvCh (snd (drop_and_rekey T gate i f tm)) = recvCh (snd tm)" for gate i f tm
    using drop_and_rekey_kept [of T tm gate i f] by (simp add: tun_kept_def)
  show ?thesis
    using Some d ErrNR by (cases e) (simp_all add: handleEncrypted_def Let_def req drop publishEvent_def)
qed

text \<open>Conversely, what opens is delivered, keepalives apart.\<close>

lemma handleEncrypted_delivers:
  assumes "opened T m data pkt" and "\<not> isTunnelKeepalive T pkt"
  shows "recvCh (snd (handleEncrypted T data from (m, t))) = recvCh t @ [\<lparr> Packet = pkt, FromAddr = from \<rparr>]"
proof -
  from assms(1) obtain p pt where p: "frame_ready data (env m) p" "open_frame (te_unseal T) data (heap (env m) p) = Some pt"
      "WouldAcceptNonce (frame_counter data) (heap (env m) p)" "te_unmarshal T pt = Some pkt"
      "Node (Src pkt) = frame_peer data" by (auto simp: opened_def)
  show ?thesis
    using DecryptFrame_accepted [OF p(1-3)] p(4,5) assms(2)
    by (simp add: handleEncrypted_def accept_packet_recv Let_def)
qed

lemma relay_admission_kept: "tun_kept T t (snd (relay_admission src had t))"
proof (cases "MarkRelayActivatedIfHadCrypto src had (routing t)")
  case (Pair a r)
  then have "same_beacon (routing t) r"
    using routing_same_beacon(6) [of "routing t" src had "routing t"] by simp
  then show ?thesis
    by (auto simp: relay_admission_def Pair tun_kept_def publishEvent_def Let_def split: prod.splits option.splits)
qed

lemma deliver_plain_encrypted: "encrypt (snd tm) \<Longrightarrow> deliver_plain T frame from tm = tm"
  by (cases tm) (simp add: deliver_plain_def)

lemma relayed_kx_kept:
  assumes "\<And>tm. tun_kept T (snd tm) (snd (handler tm))"
  shows "tun_kept T (snd tm) (snd (relayed_kx T src handler tm))"
proof -
  obtain ok lim where a: "allowKxFromRelaySrc (te_now T) src (relayKxLim (snd tm)) = (ok, lim)" by force
  let ?tm1 = "(fst tm, (snd tm)\<lparr> relayKxLim := lim \<rparr>)"
  have "tun_kept T (snd tm) (snd ?tm1)" by simp
  then have "tun_kept T (snd tm) (snd (handler ?tm1))" using assms by (rule tun_kept_trans)
  then show ?thesis by (simp add: relayed_kx_def a Let_def)
qed

text \<open>A relayed frame: admitted or not, and if it is sealed, what \<open>handleEncrypted\<close> makes of it.\<close>

lemma handleRelayDeliver_cases:
  assumes "encrypt t"
  shows "(tun_kept T t (snd (handleRelayDeliver T data (m, t)))) \<or>
    (\<exists>src body f t1. data = src @ te_magicSecure T @ body \<and> length src = 4 \<and> tun_kept T t t1 \<and>
      handleRelayDeliver T data (m, t) = handleEncrypted T body f (m, t1))"
proof (cases "length data < 5")
  case True
  then show ?thesis by (simp add: handleRelayDeliver_def)
next
  case False
  let ?src = "get32 (go_slice data 0 4)" and ?body = "drop 4 (drop 4 data)"
  obtain ok t1 where ra: "relay_admission ?src (Has ?src (env m)) t = (ok, t1)" by force
  have 1: "tun_kept T t t1" using relay_admission_kept [of T t ?src "Has ?src (env m)"] ra by simp
  then have enc: "encrypt t1" using assms by (simp add: tun_kept_def)
  show ?thesis
  proof (cases "ok \<and> \<not> length (drop 4 data) < 4 \<and> take 4 (drop 4 data) \<noteq> te_magicAuthEx T \<and>
      take 4 (drop 4 data) \<noteq> te_magicKeyEx T \<and> take 4 (drop 4 data) = te_magicSecure T")
    case True
    then have sec: "te_magicSecure T = take 4 (drop 4 data)" and "ok" by auto
    have "data = take 4 data @ take 4 (drop 4 data) @ ?body" by (simp only: append_take_drop_id)
    then have split: "data = take 4 data @ te_magicSecure T @ ?body" using sec by simp
    have eq: "handleRelayDeliver T data (m, t) = handleEncrypted T ?body (Some (relay_source t1)) (m, t1)"
      using True False by (auto simp: handleRelayDeliver_def ra Let_def)
    have len: "length (take 4 data) = 4" using False by simp
    from split eq len 1 show ?thesis by metis
  next
    case other: False
    have "tun_kept T t (snd (relayed_kx T ?src h (m, t1)))" if "\<And>tm. tun_kept T (snd tm) (snd (h tm))" for h
      using tun_kept_trans [OF 1] relayed_kx_kept [of T h "(m, t1)" ?src, OF that] by simp
    then have "tun_kept T t (snd (handleRelayDeliver T data (m, t)))"
      using False 1 other handleAuthKeyExchange_kept handleKeyExchange_kept
      by (cases ok) (auto simp: handleRelayDeliver_def ra Let_def deliver_plain_encrypted enc)
    then show ?thesis ..
  qed
qed

text \<open>Messages between a node and its beacon, and punches.\<close>

definition control_datagram :: "tun_env \<Rightarrow> datagram \<Rightarrow> bool" where
  "control_datagram T d \<longleftrightarrow>
    (\<exists>i. fst d = BeaconMsgDiscover (te_consts T) # put32 i) \<or>
    (\<exists>i j. fst d = BeaconMsgPunchRequest (te_consts T) # put32 i @ put32 j) \<or>
    fst d = take 4 (TunnelMagicPunch (te_consts T) @ replicate 4 0)"

definition tun_out :: "tun_env \<Rightarrow> Tunnel \<Rightarrow> Tunnel \<Rightarrow> bool" where
  "tun_out T t t' \<longleftrightarrow> encrypt t' = encrypt t \<and> nodeID t' = nodeID t \<and>
    (\<exists>ds. outbox t' = outbox t @ ds \<and> (\<forall>d\<in>set ds. safe_datagram T d \<or> control_datagram T d))"

lemma tun_out_refl [simp]: "tun_out T t t"
  by (simp add: tun_out_def)

lemma tun_out_trans: "\<lbrakk> tun_out T t t'; tun_out T t' t'' \<rbrakk> \<Longrightarrow> tun_out T t t''"
  unfolding tun_out_def by auto

lemma tun_kept_out: "tun_kept T t t' \<Longrightarrow> tun_out T t t'"
  by (auto simp: tun_kept_def tun_out_def)

lemma accept_packet_out: "tun_out T (snd tm) (snd (accept_packet T i len pkt from tm))"
  by (cases tm) (simp add: accept_packet_def recordInboundDecrypt_def noteAppActivity_def Let_def tun_out_def)

lemma handleEncrypted_out: "tun_out T (snd tm) (snd (handleEncrypted T data from tm))"
proof -
  obtain res s where d: "DecryptFrame (te_unseal T) data (env (fst tm)) = (res, s)" by force
  have req: "tun_out T (snd tm) (snd (snd (maybeRequestRekey T i f (m, snd tm))))" for i f m
    using maybeRequestRekey_kept(1) [of T i f "(m, snd tm)"] by (metis prod.collapse snd_conv tun_kept_out)
  have drop: "tun_kept T (snd tm) t \<Longrightarrow> tun_out T (snd tm) (snd (drop_and_rekey T gate i f (m, t)))" for gate i f m t
    using drop_and_rekey_kept [of T "(m, t)" gate i f] tun_kept_trans tun_kept_out by (metis snd_conv)
  have acc: "tun_out T (snd tm) (snd (accept_packet T i len pkt f (m, snd tm)))" for i len pkt f m
    using accept_packet_out [of T "(m, snd tm)"] by simp
  show ?thesis
    by (auto simp: handleEncrypted_def d Let_def req drop acc publishEvent_def
        intro: tun_kept_out split: option.splits env_error.splits)
qed

lemma noteDiscoverReply_out: "tun_out T t (snd (noteDiscoverReply ep b now t))"
  by (auto simp: noteDiscoverReply_def tun_out_def Let_def split: option.splits)

lemma handlePunchCommand_out: "tun_out T t (handlePunchCommand T data t)"
  by (auto simp: handlePunchCommand_def HandlePunchCommand_def tun_out_def control_datagram_def Let_def)

lemma handleRelayDeliver_out:
  assumes "encrypt t" shows "tun_out T t (snd (handleRelayDeliver T data (m, t)))"
  using handleRelayDeliver_cases [OF assms, of T data m]
proof (elim disjE exE conjE)
  fix src body f t1
  assume "tun_kept T t t1" "handleRelayDeliver T data (m, t) = handleEncrypted T body f (m, t1)"
  then show ?thesis
    using tun_out_trans [OF tun_kept_out] handleEncrypted_out [of T "(m, t1)" body f] by simp
qed (rule tun_kept_out)

text \<open>
  One received datagram, with encryption on: either the tunnel keeps \<open>recvCh\<close>, or the
  datagram was a sealed frame, direct or relayed by the beacon, that \<open>handleEncrypted\<close> got.
\<close>

definition carries_body :: "tun_env \<Rightarrow> Tunnel \<Rightarrow> UDPAddr option \<Rightarrow> bytes \<Rightarrow> bytes \<Rightarrow> bool" where
  "carries_body T t remote frame body \<longleftrightarrow> frame = te_magicSecure T @ body \<or>
    (ForceRelay (routing t) \<or> IsFromBeacon remote (routing t)) \<and>
    (\<exists>src. length src = 4 \<and> frame = te_msgRelayDeliver T # src @ te_magicSecure T @ body)"

lemma handleBeaconMessage_cases:
  assumes "encrypt t"
  shows "(recvCh (snd (handleBeaconMessage T frame remote (m, t))) = recvCh t \<and>
      tun_out T t (snd (handleBeaconMessage T frame remote (m, t)))) \<or>
    (\<exists>body f t1. carries_body T t remote frame body \<and> tun_kept T t t1 \<and>
      handleBeaconMessage T frame remote (m, t) = handleEncrypted T body f (m, t1))"
proof (cases "frame \<noteq> [] \<and> frame ! 0 = te_msgRelayDeliver T \<and> frame ! 0 \<noteq> BeaconMsgDiscoverReply (te_consts T) \<and>
    frame ! 0 \<noteq> te_msgPunchCommand T \<and> (ForceRelay (routing t) \<or> IsFromBeacon remote (routing t))")
  case True
  then obtain rest where frame: "frame = te_msgRelayDeliver T # rest" by (cases frame) auto
  have eq: "handleBeaconMessage T frame remote (m, t) = handleRelayDeliver T rest (m, t)"
    using True frame by (auto simp: handleBeaconMessage_def Let_def)
  show ?thesis
    using handleRelayDeliver_cases [OF assms, of T rest m]
  proof (elim disjE exE conjE)
    assume "tun_kept T t (snd (handleRelayDeliver T rest (m, t)))"
    then show ?thesis using tun_kept_out by (simp add: eq tun_kept_def)
  next
    fix src body f t1
    assume "rest = src @ te_magicSecure T @ body" "length src = 4" "tun_kept T t t1"
      and h: "handleRelayDeliver T rest (m, t) = handleEncrypted T body f (m, t1)"
    moreover from this have "carries_body T t remote frame body"
      using True by (auto simp: carries_body_def frame)
    ultimately show ?thesis unfolding eq by blast
  qed
next
  case False
  have "recvCh (snd (noteDiscoverReply ep b now t)) = recvCh t" for ep b now
    by (auto simp: noteDiscoverReply_def Let_def split: option.splits)
  moreover have "tun_out T t (t\<lparr> notifyCalls := n \<rparr>)" for n by (simp add: tun_out_def)
  moreover have "recvCh (handlePunchCommand T d t) = recvCh t" for d by (simp add: handlePunchCommand_def)
  ultimately have "recvCh (snd (handleBeaconMessage T frame remote (m, t))) = recvCh t \<and>
      tun_out T t (snd (handleBeaconMessage T frame remote (m, t)))"
    using False noteDiscoverReply_out handlePunchCommand_out
    by (auto simp: handleBeaconMessage_def Let_def)
  then show ?thesis ..
qed

lemma readLoopOneIter_cases:
  assumes "encrypt t"
  shows "(recvCh (snd (readLoopOneIter T frame remote (m, t))) = recvCh t \<and>
      tun_out T t (snd (readLoopOneIter T frame remote (m, t)))) \<or>
    (\<exists>body f t1. carries_body T t remote frame body \<and> tun_kept T t t1 \<and>
      readLoopOneIter T frame remote (m, t) = handleEncrypted T body f (m, t1))"
proof -
  define t0 where "t0 = t\<lparr> LastRecvNano := te_now T \<rparr>"
  have t0: "tun_kept T t t0" "encrypt t0" "routing t0 = routing t" "recvCh t0 = recvCh t" "outbox t0 = outbox t"
      "nodeID t0 = nodeID t" "encrypt t0 = encrypt t"
    using assms by (simp_all add: t0_def)
  have out0: "tun_out T t0 t' = tun_out T t t'" "tun_kept T t0 t' = tun_kept T t t'" for t'
    by (simp_all add: tun_out_def tun_kept_def t0_def)
  have body: "carries_body T t0 remote frame b = carries_body T t remote frame b" for b
    by (simp add: carries_body_def t0)
  have kx: "tun_kept T t (snd (handleAuthKeyExchange T d r fr (m, t0)))"
      "tun_kept T t (snd (handleKeyExchange T d r fr (m, t0)))" for d r fr
    using handleAuthKeyExchange_kept [of T "(m, t0)"] handleKeyExchange_kept [of T "(m, t0)"] by (simp_all add: out0)
  note bm = handleBeaconMessage_cases [OF t0(2), of T frame remote m, unfolded out0 body t0(4)]
  consider (short) "length frame < 1" | (beacon) "\<not> length frame < 1" "frame ! 0 < 16"
    | (tiny) "\<not> length frame < 1" "\<not> frame ! 0 < 16" "length frame < 4"
    | (secure) "\<not> length frame < 4" "\<not> frame ! 0 < 16" "take 4 frame = te_magicSecure T"
        "take 4 frame \<noteq> te_magicAuthEx T" "take 4 frame \<noteq> te_magicKeyEx T"
    | (other) "\<not> length frame < 4" "\<not> frame ! 0 < 16"
        "take 4 frame \<noteq> te_magicSecure T \<or> take 4 frame = te_magicAuthEx T \<or> take 4 frame = te_magicKeyEx T"
    by blast
  then show ?thesis
  proof cases
    case beacon
    then show ?thesis using bm by (simp add: readLoopOneIter_def t0_def [symmetric])
  next
    case secure
    have "frame = take 4 frame @ drop 4 frame" by simp
    then have "carries_body T t remote frame (drop 4 frame)" using secure(3) by (simp add: carries_body_def)
    moreover have "readLoopOneIter T frame remote (m, t) = handleEncrypted T (drop 4 frame) remote (m, t0)"
      using secure by (auto simp: readLoopOneIter_def t0_def Let_def)
    ultimately show ?thesis using t0(1) by blast
  next
    case other
    then have "tun_kept T t (snd (readLoopOneIter T frame remote (m, t)))"
      using kx t0(1) deliver_plain_encrypted [of "(m, t0)" T] t0(2)
      by (auto simp: readLoopOneIter_def t0_def [symmetric] Let_def)
    then show ?thesis using tun_kept_out by (simp add: tun_kept_def)
  qed (use t0(4) tun_kept_out [OF t0(1)] in \<open>simp_all add: readLoopOneIter_def t0_def [symmetric] Let_def\<close>)
qed

text \<open>
  (C13) Only authenticated packets reach the daemon. With encryption on, a received datagram
  hands at most one packet to the daemon, and then the datagram is a sealed frame, direct or
  relayed by the beacon, that opens under the session key of the very node the packet names as
  its source and whose counter the replay window accepts.
\<close>

theorem delivered_packet_authentic:
  assumes "encrypt t" and "recvCh (snd (readLoopOneIter T frame remote (m, t))) \<noteq> recvCh t"
  shows "\<exists>body pkt from. carries_body T t remote frame body \<and> opened T m body pkt \<and>
    recvCh (snd (readLoopOneIter T frame remote (m, t))) = recvCh t @ [\<lparr> Packet = pkt, FromAddr = from \<rparr>]"
proof -
  from readLoopOneIter_cases [OF assms(1), of T frame remote m] assms(2)
  obtain body f t1 where b: "carries_body T t remote frame body" "tun_kept T t t1"
      "readLoopOneIter T frame remote (m, t) = handleEncrypted T body f (m, t1)" by auto
  have "recvCh t1 = recvCh t" using b(2) by (simp add: tun_kept_def)
  then show ?thesis using handleEncrypted_recv [of T body f m t1] b assms(2) by auto
qed

text \<open>A frame of node 3 with the payload \<open>[42, 43]\<close>, received by node 7.\<close>

lemma sample_opened: "opened (toy_tun now) (fst receiver_node) (sample_body payload) (toy_packet 3 payload)"
proof -
  have "heap (env (fst receiver_node)) 5 = sample_crypto" by (simp add: toy_defs)
  then show ?thesis
    unfolding opened_def using sample_ready [of payload] sample_accepted
    by (intro exI [of _ 5] exI [of _ "put32 3 @ payload"])
      (simp add: sample_body_fields toy_codec toy_tun_def)
qed

lemma sample_delivered:
  "recvCh (snd (readLoopOneIter (toy_tun now) ([80, 73, 76, 83] @ sample_body payload) remote receiver_node)) =
    [\<lparr> Packet = toy_packet 3 payload, FromAddr = remote \<rparr>]"
proof -
  have "\<not> isTunnelKeepalive (toy_tun now) (toy_packet 3 payload)"
    by (simp add: isTunnelKeepalive_def)
  note handleEncrypted_delivers [OF sample_opened this]
  moreover have "recvCh (snd receiver_node) = []" by (simp add: toy_defs)
  ultimately show ?thesis
    by (simp add: readLoopOneIter_def Let_def sample_body_fields(1)) (simp add: toy_tun_def)
qed

theorem delivered_packet_authentic_witness:
  "\<exists>body pkt. carries_body (toy_tun 0) (snd receiver_node) None ([80, 73, 76, 83] @ sample_body [42, 43]) body \<and>
    opened (toy_tun 0) (fst receiver_node) body pkt \<and> Payload pkt = [42, 43]"
proof -
  have e: "encrypt (snd receiver_node)" and r: "recvCh (snd receiver_node) = []" by (simp_all add: toy_defs)
  show ?thesis
    using delivered_packet_authentic [OF e, of "toy_tun 0" "[80, 73, 76, 83] @ sample_body [42, 43]" None "fst receiver_node"]
      sample_delivered [of 0 "[42, 43]" None] r by auto (metis toy_packet_fields(1))
qed

lemma readLoopOneIter_out:
  assumes "encrypt (snd tm)" shows "tun_out T (snd tm) (snd (readLoopOneIter T frame remote tm))"
proof -
  obtain m t where tm: "tm = (m, t)" by force
  from assms have "encrypt t" by (simp add: tm)
  from readLoopOneIter_cases [OF this, of T frame remote m] show ?thesis
  proof (elim disjE exE conjE)
    fix body f t1
    assume "tun_kept T t t1" "readLoopOneIter T frame remote (m, t) = handleEncrypted T body f (m, t1)"
    then show ?thesis
      using tun_out_trans [OF tun_kept_out] handleEncrypted_out [of T "(m, t1)" body f] by (simp add: tm)
  qed (simp add: tm)
qed

end
