(* ===== verification/Tunnel_Delivery.thy ===== *)
theory Tunnel_Delivery
  imports Tunnel_Flow
begin

text \<open>
  From one node to the other: what \<^verbatim>\<open>SendTo\<close> puts on the wire for a peer with a session
  is what the peer's read loop opens and hands to its daemon, on the direct path and through
  the beacon.
\<close>

section \<open>One send\<close>

text \<open>How a frame for node \<open>i\<close> may leave: as it is, or wrapped for the beacon.\<close>

definition frame_datagram :: "tun_env \<Rightarrow> Tunnel \<Rightarrow> node_id \<Rightarrow> UDPAddr \<Rightarrow> bytes \<Rightarrow> datagram \<Rightarrow> bool" where
  "frame_datagram T t i a frame d \<longleftrightarrow> d = (frame, a) \<or>
    (\<exists>b. beaconAddr (routing t) = Some b \<and> d = (relay_msg (te_consts T) (localNodeIDOf (routing t)) i frame, b))"

lemma writeFrame_sends:
  assumes "sock (routing t)" and "\<And>d b. \<exists>n. te_send T d b = Inr n"
  shows "\<exists>d m' t'. writeFrame T i (Some a) frame (m, t) = (None, m', t') \<and>
    outbox t' = outbox t @ [d] \<and> frame_datagram T t i a frame d"
proof -
  obtain fl fp sf ms r1 where mb: "MaybeFlipBlackhole (te_now T) i (routing t) = ((fl, fp, sf, ms), r1)"
    by (metis prod.exhaust)
  have r1: "sock r1 = sock (routing t)" "beaconAddr r1 = beaconAddr (routing t)"
      "localNodeIDOf r1 = localNodeIDOf (routing t)"
    using MaybeFlipBlackhole_frame [of "te_now T" i "routing t"] mb by (simp_all add: localNodeIDOf_def)
  have send: "\<exists>n. te_send T d b = Inr n" for d b using assms(2) .
  show ?thesis
  proof (cases "if (if forceRelay r1 then True else fl) then beaconAddr r1 else None")
    case None
    obtain n where "te_send T frame a = Inr n" using send by blast
    then show ?thesis
      using None assms(1) by (auto simp: writeFrame_def WriteFrame_def mb r1 frame_datagram_def Let_def)
  next
    case (Some b)
    obtain n where "te_send T (relay_msg (te_consts T) (localNodeIDOf r1) i frame) b = Inr n" using send by blast
    then show ?thesis
      using Some assms(1) by (auto simp: writeFrame_def WriteFrame_def mb r1 frame_datagram_def Let_def split: if_splits)
  qed
qed

text \<open>The frame that is sealed next under the key object \<open>p\<close>.\<close>

definition sealed_body :: "tun_env \<Rightarrow> cptr \<Rightarrow> bytes \<Rightarrow> Store \<Rightarrow> bytes" where
  "sealed_body T p data s =
    (let c = heap s p; nonce = NoncePrefix c @ put64 (Nonce c + 1) in
     put32 (localNodeID s) @ nonce @ te_seal T (AEAD c) nonce data (put32 (localNodeID s)))"

lemma SendTo_sends:
  assumes "encrypt t" and "ready_key j m = Some p" and "te_marshal T pkt = Some data"
    and "sock (routing t)" and "\<And>d b. \<exists>n. te_send T d b = Inr n"
  shows "\<exists>d m' t'. SendTo T (Some a) j pkt (m, t) = (None, m', t') \<and> outbox t' = outbox t @ [d] \<and>
    frame_datagram T t j a (te_magicSecure T @ sealed_body T p data (env m)) d"
proof -
  define t1 where "t1 = (if \<not> (Protocol pkt = ProtoControl \<and> DstPort pkt = te_portPing T)
      then noteAppActivity (te_now T) j t else t)"
  have t1: "encrypt t1" "routing t1 = routing t" "outbox t1 = outbox t"
    using assms(1) by (simp_all add: t1_def noteAppActivity_def)
  define m1 where "m1 = m\<lparr> env := RecordSalvage (te_now T) (Some p) data (env m) \<rparr>"
  let ?frame = "te_magicSecure T @ sealed_body T p data (env m)"
  obtain m2 t2 where en: "encryptFrame T p data (m1, t1) = (?frame, m2, t2)"
      and t2: "routing t2 = routing t" "outbox t2 = outbox t"
    by (simp add: encryptFrame_def EncryptWith_def m1_def RecordSalvage_def sealed_body_def LocalNodeID_def Let_def t1)
  from writeFrame_sends [of t2 T j a ?frame m2] assms(4,5) t2 obtain d m3 t3 where
      w: "writeFrame T j (Some a) ?frame (m2, t2) = (None, m3, t3)" "outbox t3 = outbox t @ [d]"
        "frame_datagram T t j a ?frame d" by (auto simp: frame_datagram_def)
  have "SendTo T (Some a) j pkt (m, t) = (None, m3, t3)"
    unfolding SendTo_def prod.case Let_def t1_def [symmetric] assms(3) option.case
    by (simp add: t1 send_encrypted_def assms(2) m1_def [symmetric] en w(1))
  with w show ?thesis by blast
qed

section \<open>Reception\<close>

text \<open>The tunnel's frame magic and message codes do not collide.\<close>

definition codes_ok :: "tun_env \<Rightarrow> bool" where
  "codes_ok T \<longleftrightarrow> length (te_magicSecure T) = 4 \<and> \<not> te_magicSecure T ! 0 < 16 \<and>
    te_magicSecure T \<noteq> te_magicAuthEx T \<and> te_magicSecure T \<noteq> te_magicKeyEx T \<and>
    te_msgRelayDeliver T < 16 \<and> te_msgRelayDeliver T \<noteq> BeaconMsgDiscoverReply (te_consts T) \<and>
    te_msgRelayDeliver T \<noteq> te_msgPunchCommand T"

lemma direct_delivers:
  assumes "codes_ok T" and "opened T m body pkt" and "\<not> isTunnelKeepalive T pkt"
  shows "recvCh (snd (readLoopOneIter T (te_magicSecure T @ body) remote (m, t))) =
    recvCh t @ [\<lparr> Packet = pkt, FromAddr = remote \<rparr>]"
proof -
  obtain x y z w where mg: "te_magicSecure T = [x, y, z, w]"
    using assms(1) by (auto simp: codes_ok_def length_Suc_conv numeral_eq_Suc)
  have "readLoopOneIter T (te_magicSecure T @ body) remote (m, t) =
      handleEncrypted T body remote (m, t\<lparr> LastRecvNano := te_now T \<rparr>)"
    using assms(1) by (simp add: readLoopOneIter_def codes_ok_def mg Let_def)
  then show ?thesis using handleEncrypted_delivers [OF assms(2,3)] by simp
qed

lemma relay_delivers:
  assumes "codes_ok T" and "opened T m body pkt" and "\<not> isTunnelKeepalive T pkt"
    and "ForceRelay (routing t) \<or> IsFromBeacon remote (routing t)"
    and "fst (relay_admission src (Has src (env m)) t)"
  shows "recvCh (snd (readLoopOneIter T (te_msgRelayDeliver T # put32 src @ te_magicSecure T @ body) remote (m, t))) =
    recvCh t @ [\<lparr> Packet = pkt, FromAddr = Some (relay_source t) \<rparr>]"
proof -
  define t0 where "t0 = t\<lparr> LastRecvNano := te_now T \<rparr>"
  obtain x y z w where mg: "te_magicSecure T = [x, y, z, w]"
    using assms(1) by (auto simp: codes_ok_def length_Suc_conv numeral_eq_Suc)
  let ?inner = "put32 src @ te_magicSecure T @ body"
  have "fst (relay_admission src (Has src (env m)) t0)"
    using assms(5) by (simp add: relay_admission_def t0_def peerAddr_def Let_def split: option.splits prod.splits if_splits)
  then obtain t1 where a: "relay_admission src (Has src (env m)) t0 = (True, t1)" by (metis prod.collapse)
  then have k: "tun_kept T t0 t1" using relay_admission_kept [of T t0 src "Has src (env m)"] by simp
  then have k1: "recvCh t1 = recvCh t" "relay_source t1 = relay_source t"
    by (simp_all add: tun_kept_def t0_def relay_source_def same_beacon_def BeaconAddr_def)
  have sl: "go_slice ?inner 0 4 = put32 src" "drop 4 ?inner = te_magicSecure T @ body"
    by (simp_all add: go_slice_def)
  have "readLoopOneIter T (te_msgRelayDeliver T # ?inner) remote (m, t) = handleRelayDeliver T ?inner (m, t0)"
    using assms(1,4) by (auto simp: readLoopOneIter_def handleBeaconMessage_def codes_ok_def t0_def Let_def)
  also have "\<dots> = handleEncrypted T body (Some (relay_source t1)) (m, t1)"
    unfolding handleRelayDeliver_def prod.case Let_def sl
    using assms(1) by (simp add: a mg codes_ok_def)
  finally show ?thesis using handleEncrypted_delivers [OF assms(2,3)] k1 by simp
qed

section \<open>Properties\<close>

text \<open>The receiver can open the next frame the sender seals under \<open>p\<close>.\<close>

lemma sealed_opened:
  assumes cipher: "\<And>k n p a. te_unseal Tb k n (te_seal Ta k n p a) a = Some p"
      "\<And>k n p a. length (te_seal Ta k n p a) = length p + 16"
    and sender: "length (NoncePrefix (heap (env ma) p)) = 4"
    and receiver: "Get (localNodeID (env ma)) (env mb) = Some q" "Ready (heap (env mb) q)"
      "AEAD (heap (env mb) q) = AEAD (heap (env ma) p)"
      "WouldAcceptNonce (Nonce (heap (env ma) p) + 1) (heap (env mb) q)"
    and codec: "te_unmarshal Tb data = Some pkt" "Node (Src pkt) = localNodeID (env ma)"
  shows "opened Tb mb (sealed_body Ta p data (env ma)) pkt"
proof -
  let ?c = "heap (env ma) p" and ?i = "localNodeID (env ma)"
  let ?n = "Nonce ?c + 1"
  let ?ct = "te_seal Ta (AEAD ?c) (NoncePrefix ?c @ put64 ?n) data (put32 ?i)"
  let ?d = "sealed_body Ta p data (env ma)"
  have d: "?d = put32 ?i @ (NoncePrefix ?c @ put64 ?n) @ ?ct" by (simp add: sealed_body_def Let_def)
  note fields = frame_fields [OF sender, of ?i ?n ?ct, folded d]
  have "frame_ready ?d (env mb) q"
    using receiver fields(1) sender cipher(2) by (simp add: frame_ready_def d)
  moreover have "open_frame (te_unseal Tb) ?d (heap (env mb) q) = Some data"
    using receiver(3) fields cipher(1) by (simp add: open_frame_def)
  ultimately show ?thesis using receiver(4) fields codec by (auto simp: opened_def)
qed

text \<open>
  (C15) A packet sent to a peer with a session arrives. With encryption on and a ready key for
  the peer, \<^verbatim>\<open>SendTo\<close> returns no error and hands one datagram to the socket: a sealed frame
  for the peer's address, or that frame wrapped for the beacon. The peer, with the same key
  installed for the sender and a window that takes the next counter, delivers exactly that
  packet, when the frame reaches it directly and when the beacon relays it and the relayed
  frame is admitted. The codec is assumed to give back the packet it was given, the cipher to
  open what it sealed, the socket to send.
\<close>

theorem send_deliver_roundtrip:
  assumes codec: "te_marshal Ta pkt = Some data" "te_unmarshal Tb data = Some pkt"
    and cipher: "\<And>k n p a. te_unseal Tb k n (te_seal Ta k n p a) a = Some p"
      "\<And>k n p a. length (te_seal Ta k n p a) = length p + 16"
    and codes: "codes_ok Tb" "te_magicSecure Ta = te_magicSecure Tb"
    and socket: "sock (routing ta)" "\<And>d b. \<exists>n. te_send Ta d b = Inr n"
    and sender: "encrypt ta" "ready_key j ma = Some p" "length (NoncePrefix (heap (env ma) p)) = 4"
    and receiver: "Get (localNodeID (env ma)) (env mb) = Some q" "Ready (heap (env mb) q)"
      "AEAD (heap (env mb) q) = AEAD (heap (env ma) p)"
      "WouldAcceptNonce (Nonce (heap (env ma) p) + 1) (heap (env mb) q)"
    and packet: "Node (Src pkt) = localNodeID (env ma)" "\<not> isTunnelKeepalive Tb pkt"
  shows "\<exists>frame d ma' ta'. SendTo Ta (Some a) j pkt (ma, ta) = (None, ma', ta') \<and>
    outbox ta' = outbox ta @ [d] \<and> frame_datagram Ta ta j a frame d \<and>
    recvCh (snd (readLoopOneIter Tb frame remote (mb, tb))) = recvCh tb @ [\<lparr> Packet = pkt, FromAddr = remote \<rparr>] \<and>
    (IsFromBeacon relay (routing tb) \<and> fst (relay_admission src (Has src (env mb)) tb) \<longrightarrow>
      recvCh (snd (readLoopOneIter Tb (te_msgRelayDeliver Tb # put32 src @ frame) relay (mb, tb))) =
        recvCh tb @ [\<lparr> Packet = pkt, FromAddr = Some (relay_source tb) \<rparr>])"
proof -
  let ?frame = "te_magicSecure Ta @ sealed_body Ta p data (env ma)"
  have o: "opened Tb mb (sealed_body Ta p data (env ma)) pkt"
    by (rule sealed_opened [OF cipher sender(3) receiver codec(2) packet(1)])
  from SendTo_sends [OF sender(1,2) codec(1) socket, of a] direct_delivers [OF codes(1) o packet(2), of remote tb]
    relay_delivers [OF codes(1) o packet(2), of tb relay src]
  show ?thesis unfolding codes(2) [symmetric] by blast
qed

theorem send_deliver_roundtrip_witness:
  "\<exists>frame d tm'. SendTo (toy_tun 0) (Some sample_addr) 7 (toy_packet 3 [42, 43]) sender_node = (None, tm') \<and>
    outbox (snd tm') = [d] \<and> frame_datagram (toy_tun 0) (snd sender_node) 7 sample_addr frame d \<and>
    recvCh (snd (readLoopOneIter (toy_tun 0) frame None receiver_node)) =
      [\<lparr> Packet = toy_packet 3 [42, 43], FromAddr = None \<rparr>]"
proof -
  have toy: "te_marshal (toy_tun 0) = toy_marshal" "te_unmarshal (toy_tun 0) = toy_unmarshal"
      "te_seal (toy_tun 0) = toy_seal" "te_unseal (toy_tun 0) = toy_open"
      "te_send (toy_tun 0) d b = Inr (length d)" for d b
    by (simp_all add: toy_tun_def)
  have "\<exists>frame d ma' ta'. SendTo (toy_tun 0) (Some sample_addr) 7 (toy_packet 3 [42, 43])
      (fst sender_node, snd sender_node) = (None, ma', ta') \<and>
    outbox ta' = outbox (snd sender_node) @ [d] \<and> frame_datagram (toy_tun 0) (snd sender_node) 7 sample_addr frame d \<and>
    recvCh (snd (readLoopOneIter (toy_tun 0) frame None (fst receiver_node, snd receiver_node))) =
      recvCh (snd receiver_node) @ [\<lparr> Packet = toy_packet 3 [42, 43], FromAddr = None \<rparr>] \<and>
    (IsFromBeacon None (routing (snd receiver_node)) \<and>
      fst (relay_admission 0 (Has 0 (env (fst receiver_node))) (snd receiver_node)) \<longrightarrow>
      recvCh (snd (readLoopOneIter (toy_tun 0) (te_msgRelayDeliver (toy_tun 0) # put32 0 @ frame) None
        (fst receiver_node, snd receiver_node))) = recvCh (snd receiver_node) @
        [\<lparr> Packet = toy_packet 3 [42, 43], FromAddr = Some (relay_source (snd receiver_node)) \<rparr>])"
    by (rule send_deliver_roundtrip [where p = 1 and q = 5 and data = "put32 3 @ [42, 43]"])
      (simp_all only: toy toy_codec toy_cipher sample_nodes toy_packet_fields,
       simp_all add: codes_ok_def toy_tun_def isTunnelKeepalive_def sample_crypto_def WouldAcceptNonce_def)
  then obtain frame d ma' ta' where "SendTo (toy_tun 0) (Some sample_addr) 7 (toy_packet 3 [42, 43]) sender_node
      = (None, ma', ta')" "outbox ta' = [d]" "frame_datagram (toy_tun 0) (snd sender_node) 7 sample_addr frame d"
      "recvCh (snd (readLoopOneIter (toy_tun 0) frame None receiver_node)) =
        [\<lparr> Packet = toy_packet 3 [42, 43], FromAddr = None \<rparr>]"
    unfolding prod.collapse sample_nodes append_Nil by blast
  then show ?thesis by (intro exI [of _ frame] exI [of _ d] exI [of _ "(ma', ta')"]) simp
qed

end
