(* ===== verification/Tunnel_Runs.thy ===== *)
theory Tunnel_Runs
  imports Tunnel_Delivery
begin

text \<open>
  Runs of the tunnel: sequences of received datagrams, sends, ticks of the loops and calls of
  the daemon, each with its own environment (clock, random bytes, answers of the registry and
  of the socket). The invariants of the key exchange, of the replay windows and of the pending
  queues hold along every run.
\<close>

datatype tunnel_op =
    Received bytes "UDPAddr option"
  | SendPacket "UDPAddr option" node_id packet
  | DirectProbe node_id packet
  | DirectProbeTo node_id "UDPAddr option" packet
  | PathProbe node_id
  | Keepalives "node_id list" instant
  | RetransmitTick "node_id list"
  | PeerAdded node_id "UDPAddr option"
  | PeerRemoved node_id
  | CryptoDropped node_id
  | BeaconRegistration
  | HolePunch node_id
  | PendingReaped
  | PendingForgotten node_id

fun tunnel_step :: "tun_env \<times> tunnel_op \<Rightarrow> TunnelManager \<Rightarrow> TunnelManager" where
  "tunnel_step (T, Received frame remote) tm = readLoopOneIter T frame remote tm"
| "tunnel_step (T, SendPacket addr i pkt) tm = snd (SendTo T addr i pkt tm)"
| "tunnel_step (T, DirectProbe i pkt) tm = snd (SendDirectProbe T i pkt tm)"
| "tunnel_step (T, DirectProbeTo i addr pkt) tm = snd (SendDirectProbeTo T i addr pkt tm)"
| "tunnel_step (T, PathProbe i) tm = snd (SendPathProbe T i tm)"
| "tunnel_step (T, Keepalives order now) tm = snd (keepaliveSweep T order now tm)"
| "tunnel_step (T, RetransmitTick order) tm = RekeyRetransmitTick (tunnel_kx T) order tm"
| "tunnel_step (T, PeerAdded i addr) tm = AddPeer T i addr tm"
| "tunnel_step (T, PeerRemoved i) tm = RemovePeer i tm"
| "tunnel_step (T, CryptoDropped i) tm = DropCrypto i tm"
| "tunnel_step (T, BeaconRegistration) tm = (fst tm, tm_RegisterWithBeacon T (snd tm))"
| "tunnel_step (T, HolePunch i) tm = (fst tm, tm_RequestHolePunch T i (snd tm))"
| "tunnel_step (T, PendingReaped) tm = (fst tm, snd (reapStalePending (te_now T) (snd tm)))"
| "tunnel_step (T, PendingForgotten i) tm = (fst tm, dropPending i (snd tm))"

definition tunnel_run :: "(tun_env \<times> tunnel_op) list \<Rightarrow> TunnelManager \<Rightarrow> TunnelManager" where
  "tunnel_run ops tm = fold tunnel_step ops tm"

section \<open>Sending keeps the keys\<close>

lemma RecordSalvage_keys: "same_keys m (m\<lparr> env := RecordSalvage now cp data (env m) \<rparr>)"
  by (auto simp: RecordSalvage_def same_keys_def key_view_def set_crypto_def split: option.splits if_splits)

lemma enqueue_pending_kept: "tun_kept T t (snd (enqueue_pending now i data t))"
  by (simp add: enqueue_pending_def Let_def)

lemma send_encrypted_kept:
  assumes "send_encrypted T addr i data tm = (err, tm')"
  shows "tun_kept T (snd tm) (snd tm') \<and> same_keys (fst tm) (fst tm')"
proof (cases "ready_key i (fst tm)")
  case (Some p)
  let ?m1 = "(fst tm)\<lparr> env := RecordSalvage (te_now T) (Some p) data (env (fst tm)) \<rparr>"
  obtain frame tm2 where en: "encryptFrame T p data (?m1, snd tm) = (frame, tm2)" by (metis surj_pair)
  obtain e tm3 where wr: "writeFrame T i addr frame tm2 = (e, tm3)" by (metis surj_pair)
  have "same_keys (fst tm) (fst tm3)"
    using same_keys_trans [OF RecordSalvage_keys [of "fst tm" "te_now T" "Some p" data]]
      same_keys_trans [OF encryptFrame_keys(1) [OF en] writeFrame_keys(1) [OF wr]] by simp
  moreover have "tm' = tm3" using assms by (simp add: send_encrypted_def Some en wr)
  ultimately show ?thesis using encrypt_write_kept [OF en wr] by simp
next
  case None
  let ?tm1 = "if \<not> PendingRekeyHas i (fst tm) then sendKeyExchangeToNode T i tm else tm"
  obtain e t2 where en: "enqueue_pending (te_now T) i data (snd ?tm1) = (e, t2)" by force
  have 1: "tun_kept T (snd tm) (snd ?tm1)" "same_keys (fst tm) (fst ?tm1)"
    using sendKeyExchangeToNode_kept [of T tm i] sendKeyExchangeToNode_keys [of tm T i] by simp_all
  moreover have "tun_kept T (snd tm) t2"
    using tun_kept_trans [OF 1(1)] enqueue_pending_kept [of T "snd ?tm1" "te_now T" i data] en by simp
  moreover have "tm' = (if kx_PeerInRekeyGaveUp (te_now T) i (fst ?tm1) then ?tm1 else (fst ?tm1, t2))"
    using assms unfolding send_encrypted_def None option.case Let_def en
    by (auto split: if_splits)
  ultimately show ?thesis by simp
qed

lemma SendTo_kept:
  assumes "encrypt (snd tm)"
  shows "tun_kept T (snd tm) (snd (snd (SendTo T addr i pkt tm))) \<and>
    same_keys (fst tm) (fst (snd (SendTo T addr i pkt tm)))"
proof -
  obtain m t where tm: "tm = (m, t)" by force
  define t1 where "t1 = (if \<not> (Protocol pkt = ProtoControl \<and> DstPort pkt = te_portPing T)
      then noteAppActivity (te_now T) i t else t)"
  have 1: "tun_kept T t t1" "encrypt t1" using assms by (simp_all add: t1_def tm noteAppActivity_def)
  show ?thesis
  proof (cases "te_marshal T pkt")
    case None
    then show ?thesis using 1 by (simp add: SendTo_def tm noteAppActivity_def Let_def)
  next
    case (Some data)
    obtain err tm' where s: "send_encrypted T addr i data (m, t1) = (err, tm')" by (metis surj_pair)
    have "snd (SendTo T addr i pkt tm) = tm'"
      unfolding SendTo_def tm prod.case Let_def t1_def [symmetric] Some option.case by (simp add: 1 s)
    then show ?thesis
      using send_encrypted_kept [OF s] tun_kept_trans [OF 1(1)] by (simp add: tm)
  qed
qed

lemma probe_frame_kept:
  assumes "encrypt (snd tm)" and "probe_frame T i data tm = Some (frame, tm')"
  shows "cipher_frame T frame" and "tun_kept T (snd tm) (snd tm')" and "same_keys (fst tm) (fst tm')"
  using assms encryptFrame_kept [of T _ data tm frame tm'] encryptFrame_keys(1) [of T _ data tm frame tm']
  by (auto simp: probe_frame_def split: option.splits)

lemma raw_send_kept: "cipher_frame T frame \<Longrightarrow> tun_kept T t (snd (raw_send T frame addr t))"
  by (auto simp: raw_send_def tun_kept_def safe_datagram_def Let_def split: sum.splits)

lemma probe_send_kept:
  assumes "encrypt (snd tm)" and "probe_frame T i data tm = Some (frame, tm1)" and "raw_send T frame addr (snd tm1) = (e, t2)"
  shows "tun_kept T (snd tm) t2"
  using tun_kept_trans [OF probe_frame_kept(2) [OF assms(1,2)]] raw_send_kept [of T frame "snd tm1" addr]
    probe_frame_kept(1) [OF assms(1,2)] assms(3) by simp

lemma SendDirectProbe_kept:
  assumes "encrypt (snd tm)"
  shows "tun_kept T (snd tm) (snd (snd (SendDirectProbe T i pkt tm))) \<and>
    same_keys (fst tm) (fst (snd (SendDirectProbe T i pkt tm)))"
  using probe_send_kept [OF assms] probe_frame_kept(3) [OF assms]
  by (auto simp: SendDirectProbe_def split: option.splits prod.splits)

lemma SendDirectProbeTo_kept:
  assumes "encrypt (snd tm)"
  shows "tun_kept T (snd tm) (snd (snd (SendDirectProbeTo T i addrp pkt tm))) \<and>
    same_keys (fst tm) (fst (snd (SendDirectProbeTo T i addrp pkt tm)))"
proof -
  have "tun_kept T (snd tm) (t2\<lparr> routing := RecordOutboundSend i now (routing t2) \<rparr>)" if "tun_kept T (snd tm) t2" for t2 now
    using tun_kept_trans [OF that] by (simp add: tun_kept_routing)
  then show ?thesis
    using probe_send_kept [OF assms] probe_frame_kept(3) [OF assms]
    by (auto simp: SendDirectProbeTo_def split: option.splits prod.splits)
qed

lemma SendPathProbe_kept:
  "tun_kept T (snd tm) (snd (snd (SendPathProbe T i tm))) \<and> same_keys (fst tm) (fst (snd (SendPathProbe T i tm)))"
proof (cases "\<exists>addr p data. peerAddr i (snd tm) = Some addr \<and> ready_key i (fst tm) = Some p \<and>
    te_marshal T (newPathProbePacket T i (snd tm)) = Some data")
  case True
  then obtain addr p data where d: "peerAddr i (snd tm) = Some addr" "ready_key i (fst tm) = Some p"
    "te_marshal T (newPathProbePacket T i (snd tm)) = Some data" by blast
  obtain frame tm1 where en: "encryptFrame T p data tm = (frame, tm1)" by (metis surj_pair)
  obtain e tm2 where wr: "writeFrame T i (Some addr) frame tm1 = (e, tm2)" by (metis surj_pair)
  show ?thesis
    using encrypt_write_kept [OF en wr] same_keys_trans [OF encryptFrame_keys(1) [OF en] writeFrame_keys(1) [OF wr]]
    by (simp add: SendPathProbe_def d en wr)
qed (auto simp: SendPathProbe_def split: option.splits)

lemma keepalive_send_kept:
  "tun_kept T (snd tm) (snd (snd (keepalive_send T ps n tm))) \<and> same_keys (fst tm) (fst (snd (keepalive_send T ps n tm)))"
proof (induction T ps n tm rule: keepalive_send.induct)
  case (2 T i addr p rest n tm)
  show ?case
  proof (cases "te_marshal T (newKeepalivePacket T (snd tm))")
    case None
    then show ?thesis using 2(1) by simp
  next
    case (Some pt)
    obtain frame tm1 where en: "encryptFrame T p pt tm = (frame, tm1)" by (metis surj_pair)
    obtain e tm2 where wr: "writeFrame T i addr frame tm1 = (e, tm2)" by (metis surj_pair)
    have k: "tun_kept T (snd tm) (snd tm2)" "same_keys (fst tm) (fst tm2)"
      using encrypt_write_kept [OF en wr] same_keys_trans [OF encryptFrame_keys(1) [OF en] writeFrame_keys(1) [OF wr]] .
    show ?thesis
      using 2(2) [OF Some en [symmetric] wr [symmetric]] 2(3) [OF Some en [symmetric] wr [symmetric]]
        tun_kept_trans [OF k(1)] same_keys_trans [OF k(2)]
      by (cases e) (simp_all add: Some en wr)
  qed
qed simp

lemma AddPeer_kept:
  "tun_kept T (snd tm) (snd (AddPeer T i addr tm)) \<and> same_keys (fst tm) (fst (AddPeer T i addr tm))"
proof -
  define tm1 where "tm1 = (fst tm, (snd tm)\<lparr> peers := (peers (snd tm))(i \<mapsto> addr) \<rparr>)"
  have "tun_kept T (snd tm) (snd tm1)" "fst tm1 = fst tm" by (simp_all add: tm1_def)
  then show ?thesis
    using tun_kept_trans [of T "snd tm" "snd tm1"] sendKeyExchangeToNode_kept [of T tm1 i]
      sendKeyExchangeToNode_keys [of tm1 T i]
    unfolding AddPeer_def tm1_def [symmetric] Let_def by simp
qed

lemma beacon_calls_out:
  "tun_out T t (tm_RegisterWithBeacon T t)" "tun_out T t (tm_RequestHolePunch T i t)"
  by (auto simp: tm_RegisterWithBeacon_def tm_RequestHolePunch_def RegisterWithBeacon_def RequestHolePunch_def
      tun_out_def control_datagram_def Let_def split: option.splits)

lemma peer_removal_kept:
  "tun_kept T (snd tm) (snd (RemovePeer i tm))" "tun_kept T (snd tm) (snd (DropCrypto i tm))"
  "tun_kept T t (snd (reapStalePending now t))" "tun_kept T t (dropPending i t)"
proof -
  obtain m t where tm: "tm = (m, t)" by force
  have "tun_kept T t (t\<lparr> routing := RoutingRemovePeer i (routing t) \<rparr>)" by (simp add: tun_kept_routing)
  then show "tun_kept T (snd tm) (snd (RemovePeer i tm))"
    by (simp add: RemovePeer_def tm tun_kept_def)
qed (simp_all add: DropCrypto_def reapStalePending_def dropPending_def Let_def)

lemmas send_steps_kept =
  SendTo_kept SendDirectProbe_kept SendDirectProbeTo_kept SendPathProbe_kept AddPeer_kept

lemma tunnel_step_out:
  assumes "encrypt (snd tm)"
  shows "tun_out T (snd tm) (snd (tunnel_step (T, op) tm))"
proof (cases op)
  case (Received frame remote)
  then show ?thesis using readLoopOneIter_out [OF assms] by simp
next
  case (Keepalives order now)
  then show ?thesis by (simp add: keepaliveSweep_def tun_kept_out [OF conjunct1 [OF keepalive_send_kept]])
next
  case (RetransmitTick order)
  then show ?thesis by (simp add: tun_kept_out [OF tunnel_world.RekeyRetransmitTick_R])
qed (use assms in \<open>simp_all add: send_steps_kept [THEN conjunct1, THEN tun_kept_out]
      peer_removal_kept [THEN tun_kept_out] beacon_calls_out\<close>)

text \<open>
  (C14) No plaintext leaves an encrypting node. In every run of a tunnel with encryption on,
  every datagram handed to the socket carries a sealed frame or a key-exchange frame, possibly
  wrapped for the relay, or is one of the beacon's control messages or a punch.
\<close>

theorem no_plaintext_sent:
  assumes "encrypt (snd tm)"
  shows "\<exists>ds. outbox (snd (tunnel_run ops tm)) = outbox (snd tm) @ ds \<and>
    (\<forall>d\<in>set ds. \<exists>T\<in>fst ` set ops. safe_datagram T d \<or> control_datagram T d)"
proof -
  have "\<exists>ds. outbox (snd (tunnel_run ops tm)) = outbox (snd tm) @ ds \<and> encrypt (snd (tunnel_run ops tm)) \<and>
      (\<forall>d\<in>set ds. \<exists>T\<in>fst ` set ops. safe_datagram T d \<or> control_datagram T d)"
    using assms
  proof (induction ops arbitrary: tm)
    case (Cons x ops)
    obtain T op where x: "x = (T, op)" by force
    from tunnel_step_out [OF Cons.prems, of T op] obtain ds where ds:
        "outbox (snd (tunnel_step x tm)) = outbox (snd tm) @ ds" "encrypt (snd (tunnel_step x tm))"
        "\<forall>d\<in>set ds. safe_datagram T d \<or> control_datagram T d"
      using Cons.prems by (auto simp: tun_out_def x)
    from Cons.IH [OF ds(2)] obtain ds' where
        "outbox (snd (tunnel_run ops (tunnel_step x tm))) = outbox (snd (tunnel_step x tm)) @ ds'"
        "encrypt (snd (tunnel_run ops (tunnel_step x tm)))"
        "\<forall>d\<in>set ds'. \<exists>T\<in>fst ` set ops. safe_datagram T d \<or> control_datagram T d" by blast
    then show ?case using ds by (intro exI [of _ "ds @ ds'"]) (auto simp: tunnel_run_def x)
  qed (simp add: tunnel_run_def)
  then show ?thesis by blast
qed

text \<open>Node 3 sends the payload \<open>[42, 43]\<close> to node 7: one datagram, and it is sealed.\<close>

lemma sample_sent:
  "\<exists>d. outbox (snd (tunnel_run [(toy_tun 0, SendPacket (Some sample_addr) 7 (toy_packet 3 payload))] sender_node)) = [d]"
proof -
  have "te_marshal (toy_tun 0) (toy_packet 3 payload) = Some (put32 3 @ payload)"
      "\<exists>n. te_send (toy_tun 0) d b = Inr n" for d b
    by (simp_all add: toy_tun_def toy_codec)
  from SendTo_sends [OF sample_nodes(1,6) this(1) sample_nodes(3) this(2), of sample_addr]
  show ?thesis by (auto simp: tunnel_run_def sample_nodes)
qed

theorem no_plaintext_sent_witness:
  "\<exists>d. outbox (snd (tunnel_run [(toy_tun 0, SendPacket (Some sample_addr) 7 (toy_packet 3 [42, 43]))] sender_node)) = [d] \<and>
    (safe_datagram (toy_tun 0) d \<or> control_datagram (toy_tun 0) d)"
proof -
  let ?ops = "[(toy_tun 0, SendPacket (Some sample_addr) 7 (toy_packet 3 [42, 43]))]"
  obtain d where d: "outbox (snd (tunnel_run ?ops sender_node)) = [d]" using sample_sent by blast
  with no_plaintext_sent [OF sample_nodes(1), of ?ops] show ?thesis by (auto simp: sample_nodes)
qed

section \<open>What a step does to the keys\<close>

text \<open>
  Every operation changes the key-exchange manager only in these ways: it leaves the keys
  alone, opens a frame, handles a key-exchange frame, or drops a peer.
\<close>

inductive kx_effect :: "tun_env \<Rightarrow> KxManager \<Rightarrow> KxManager \<Rightarrow> bool" for T where
  quiet: "same_keys m m' \<Longrightarrow> kx_effect T m m'"
| decrypt: "kx_effect T m (m\<lparr> env := snd (DecryptFrame (te_unseal T) data (env m)) \<rparr>)"
| auth: "HandleAuthFrame (tunnel_kx T) data from fr (m, w) = (r, m', w') \<Longrightarrow> kx_effect T m m'"
| unauth: "HandleUnauthFrame (tunnel_kx T) data from fr (m, w) = (r, m', w') \<Longrightarrow> kx_effect T m m'"
| dropped: "kx_effect T m (m\<lparr> env := Drop i (env m) \<rparr>)"
| removed: "kx_effect T m (kx_RemovePeer i m)"
| chain: "\<lbrakk> kx_effect T m m1; kx_effect T m1 m2 \<rbrakk> \<Longrightarrow> kx_effect T m m2"

lemma kx_effect_refl: "kx_effect T m m"
  by (rule quiet) simp

lemma CompareAndDrop_Drop:
  "CompareAndDrop i (Get i s) s = (True, Drop i s)"
  by (simp add: CompareAndDrop_def Get_def Drop_def)

lemma drop_and_rekey_effect: "kx_effect T (fst tm) (fst (drop_and_rekey T gate i from tm))"
proof -
  obtain m t where tm: "tm = (m, t)" by force
  obtain ok tm' where mr: "maybeRequestRekey T i from (m\<lparr> env := Drop i (env m) \<rparr>, t) = (ok, tm')" by (metis surj_pair)
  have "kx_effect T (m\<lparr> env := Drop i (env m) \<rparr>) (fst tm')"
    using maybeRequestRekey_kept(2) [OF mr] by (intro quiet) simp
  then have "kx_effect T m (fst tm')" by (rule chain [OF dropped])
  then show ?thesis
    by (simp add: drop_and_rekey_def tm CompareAndDrop_Drop mr Let_def kx_effect_refl)
qed

lemma accept_packet_keys: "same_keys (fst tm) (fst (accept_packet T i len pkt from tm))"
  by (cases tm) (simp add: accept_packet_def recordInboundDecrypt_def Let_def)

lemma handleEncrypted_effect: "kx_effect T (fst tm) (fst (handleEncrypted T data from tm))"
proof -
  obtain res s where d: "DecryptFrame (te_unseal T) data (env (fst tm)) = (res, s)" by force
  let ?m = "(fst tm)\<lparr> env := s \<rparr>"
  have 1: "kx_effect T (fst tm) ?m" using decrypt [of T "fst tm" data] by (simp add: d)
  have req: "kx_effect T (fst tm) (fst (snd (maybeRequestRekey T i f (?m, t))))" for i f t
    using chain [OF 1 quiet] maybeRequestRekey_kept(2) [of T i f "(?m, t)"] by (metis prod.collapse fst_conv)
  have drop: "kx_effect T (fst tm) (fst (drop_and_rekey T gate i f (?m, t)))" for gate i f t
    using chain [OF 1] drop_and_rekey_effect [of T "(?m, t)"] by simp
  have acc: "kx_effect T (fst tm) (fst (accept_packet T i len pkt f (?m, t)))" for i len pkt f t
    using chain [OF 1 quiet] accept_packet_keys [of "(?m, t)"] by simp
  show ?thesis
    by (auto simp: handleEncrypted_def d Let_def 1 req drop acc split: option.splits env_error.splits)
qed

lemma handleAuthKeyExchange_effect: "kx_effect T (fst tm) (fst (handleAuthKeyExchange T data from fr tm))"
proof -
  have "kx_effect T m (fst (snd (HandleAuthFrame (tunnel_kx T) data from fr (m, t))))" for m t
    by (metis auth prod.collapse)
  then show ?thesis
    by (cases tm) (auto simp: handleAuthKeyExchange_def Let_def kx_effect_refl split: prod.splits)
qed

lemma handleKeyExchange_effect: "kx_effect T (fst tm) (fst (handleKeyExchange T data from fr tm))"
proof -
  have "kx_effect T m (fst (snd (HandleUnauthFrame (tunnel_kx T) data from fr (m, t))))" for m t
    by (metis unauth prod.collapse)
  then show ?thesis
    by (cases tm) (auto simp: handleKeyExchange_def Let_def kx_effect_refl split: prod.splits)
qed

lemma relayed_kx_effect:
  assumes "\<And>tm. kx_effect T (fst tm) (fst (handler tm))"
  shows "kx_effect T (fst tm) (fst (relayed_kx T src handler tm))"
proof -
  obtain ok lim where a: "allowKxFromRelaySrc (te_now T) src (relayKxLim (snd tm)) = (ok, lim)" by force
  show ?thesis
    using assms [of "(fst tm, (snd tm)\<lparr> relayKxLim := lim \<rparr>)"] by (simp add: relayed_kx_def a Let_def kx_effect_refl)
qed

lemma deliver_plain_fst: "fst (deliver_plain T frame from tm) = fst tm"
  by (cases tm) (simp add: deliver_plain_def split: option.splits)

lemma handleRelayDeliver_effect: "kx_effect T (fst tm) (fst (handleRelayDeliver T data tm))"
proof -
  obtain m t where tm: "tm = (m, t)" by force
  have "kx_effect T m (fst (relayed_kx T src (handleAuthKeyExchange T d f True) (m, t1)))"
      "kx_effect T m (fst (relayed_kx T src (handleKeyExchange T d f True) (m, t1)))"
      "kx_effect T m (fst (handleEncrypted T d f (m, t1)))" for src d f t1
    using relayed_kx_effect [of T "handleAuthKeyExchange T d f True" "(m, t1)" src, OF handleAuthKeyExchange_effect]
      relayed_kx_effect [of T "handleKeyExchange T d f True" "(m, t1)" src, OF handleKeyExchange_effect]
      handleEncrypted_effect [of T "(m, t1)" d f] by simp_all
  then show ?thesis
    by (auto simp: handleRelayDeliver_def tm Let_def kx_effect_refl deliver_plain_fst split: prod.splits bool.splits)
qed

lemma readLoopOneIter_effect: "kx_effect T (fst tm) (fst (readLoopOneIter T frame remote tm))"
proof -
  obtain m t where tm: "tm = (m, t)" by force
  define t1 where "t1 = t\<lparr> LastRecvNano := te_now T \<rparr>"
  have "kx_effect T m (fst (handleBeaconMessage T frame remote (m, t1)))"
    using handleRelayDeliver_effect [of T "(m, t1)"]
    by (auto simp: handleBeaconMessage_def Let_def kx_effect_refl)
  then show ?thesis
    using handleAuthKeyExchange_effect [of T "(m, t1)"] handleKeyExchange_effect [of T "(m, t1)"]
      handleEncrypted_effect [of T "(m, t1)"]
    by (auto simp: readLoopOneIter_def tm t1_def [symmetric] Let_def kx_effect_refl deliver_plain_fst)
qed

lemma tunnel_step_effect:
  assumes "encrypt (snd tm)"
  shows "kx_effect T (fst tm) (fst (tunnel_step (T, op) tm))"
proof (cases op)
  case (Received frame remote)
  then show ?thesis using readLoopOneIter_effect [of T tm] by simp
next
  case (Keepalives order now)
  then show ?thesis by (simp add: keepaliveSweep_def quiet [OF conjunct2 [OF keepalive_send_kept]])
next
  case (RetransmitTick order)
  then show ?thesis by (simp add: quiet [OF tunnel.RekeyRetransmitTick_keeps])
next
  case (PeerRemoved i)
  then show ?thesis using chain [OF dropped removed, of T "fst tm" i i] by (cases tm) (simp add: RemovePeer_def)
next
  case (CryptoDropped i)
  then show ?thesis using chain [OF dropped removed, of T "fst tm" i i] by (simp add: DropCrypto_def)
qed (use assms in \<open>simp_all add: send_steps_kept [THEN conjunct2, THEN quiet] kx_effect_refl\<close>)

section \<open>Opening a frame\<close>

definition key_core :: "Crypto \<Rightarrow> aead_key \<times> bytes \<times> bool \<times> bool \<times> bytes \<times> instant" where
  "key_core c = (AEAD c, NoncePrefix c, Ready c, Authenticated c, PeerX25519Key c, CreatedAt c)"

lemma key_core_check [simp]: "key_core (snd (CheckAndRecordNonce n c)) = key_core c"
  by (simp add: key_core_def CheckAndRecordNonce_def SetReplayBit_def Let_def)

lemma DecryptFrame_effect:
  "crypto (snd (DecryptFrame unseal data s)) = crypto s \<and>
   key_core (heap (snd (DecryptFrame unseal data s)) q) = key_core (heap s q) \<and>
   (same_window (heap (snd (DecryptFrame unseal data s)) q) (heap s q) \<or>
    q \<in> ran (crypto s) \<and>
    same_window (heap (snd (DecryptFrame unseal data s)) q) (snd (CheckAndRecordNonce (frame_counter data) (heap s q))))"
proof (cases "\<exists>p. frame_ready data s p")
  case False
  then show ?thesis using DecryptFrame_unready(1) [of data s] by (simp add: same_window_def)
next
  case True
  then obtain p where p: "frame_ready data s p" by blast
  then have "p \<in> ran (crypto s)" by (auto simp: frame_ready_def Get_def ran_def)
  show ?thesis
  proof (cases "open_frame unseal data (heap s p)")
    case None
    then show ?thesis
      using DecryptFrame_forged [OF p None] by (cases "q = p") (simp_all add: same_window_def key_core_def)
  next
    case (Some pt)
    show ?thesis
    proof (cases "WouldAcceptNonce (frame_counter data) (heap s p)")
      case True
      have "key_core (c\<lparr> DecryptFailCount := x, OutsideWindowCount := y, ReplayCount := z \<rparr>) = key_core c" for c x y z
        by (simp add: key_core_def)
      then show ?thesis
        using DecryptFrame_accepted [OF p Some True] \<open>p \<in> ran (crypto s)\<close>
        by (cases "q = p") (simp_all add: same_window_def)
    next
      case False
      then show ?thesis
        using DecryptFrame_refused [OF p Some False]
        by (cases "q = p") (simp_all add: rejectResult_simps same_window_def key_core_def)
    qed
  qed
qed

lemma same_window_would: "same_window c d \<Longrightarrow> WouldAcceptNonce n c = WouldAcceptNonce n d"
  by (simp add: same_window_def WouldAcceptNonce_def)

section \<open>Invariants along a run\<close>

definition windows_ok :: "KxManager \<Rightarrow> bool" where
  "windows_ok m \<longleftrightarrow> kx_wf m \<and> (\<forall>p\<in>ran (crypto (env m)). length (ReplayBitmap (heap (env m) p)) = 4)"

text \<open>Counters the windows refuse stay refused.\<close>

definition refusals_kept :: "KxManager \<Rightarrow> KxManager \<Rightarrow> bool" where
  "refusals_kept m m' \<longleftrightarrow> nextCrypto m \<le> nextCrypto m' \<and>
    (\<forall>p<nextCrypto m. \<forall>n. \<not> WouldAcceptNonce n (heap (env m) p) \<longrightarrow> \<not> WouldAcceptNonce n (heap (env m') p))"

lemma refusals_kept_trans: "\<lbrakk> refusals_kept m m'; refusals_kept m' m'' \<rbrakk> \<Longrightarrow> refusals_kept m m''"
  by (auto simp: refusals_kept_def)

lemma key_view_window: "key_view c = key_view d \<Longrightarrow> same_window c d"
  by (simp add: key_view_def same_window_def)

lemma windows_same_keys:
  assumes "windows_ok m" and "same_keys m m'"
  shows "windows_ok m' \<and> refusals_kept m m'"
proof -
  have old: "same_window (heap (env m') p) (heap (env m) p)" if "p < nextCrypto m" for p
    using assms(2) that by (intro key_view_window) (auto simp: same_keys_def)
  have ran: "p \<in> ran (crypto (env m)) \<Longrightarrow> p < nextCrypto m" for p
    using assms(1) by (auto simp: windows_ok_def kx_wf_def ran_def)
  have "length (ReplayBitmap (heap (env m') p)) = 4" if "p \<in> ran (crypto (env m))" for p
    using assms(1) that old [OF ran [OF that]] by (auto simp: windows_ok_def same_window_def)
  then show ?thesis
    using assms same_keys_wf [OF assms(2)] same_window_would [OF old]
    by (auto simp: windows_ok_def refusals_kept_def same_keys_def)
qed

lemma windows_installs:
  assumes "windows_ok m" and "installs m peer c m'" and "length (ReplayBitmap c) = 4"
  shows "windows_ok m' \<and> refusals_kept m m'"
proof -
  have old: "same_window (heap (env m') p) (heap (env m) p)" if "p < nextCrypto m" for p
    using assms(2) that by (intro key_view_window) (auto simp: installs_def)
  have new: "length (ReplayBitmap (heap (env m') (nextCrypto m))) = 4"
    using assms(2,3) by (auto simp: installs_def key_view_def)
  have "length (ReplayBitmap (heap (env m') p)) = 4" if "p \<in> ran (crypto (env m'))" for p
  proof (cases "p = nextCrypto m")
    case False
    with that assms(2) have r: "p \<in> ran (crypto (env m))" by (auto simp: installs_def ran_def split: if_splits)
    with assms(1) have "p < nextCrypto m" by (auto simp: windows_ok_def kx_wf_def ran_def)
    then show ?thesis using old r assms(1) by (auto simp: windows_ok_def same_window_def)
  qed (simp add: new)
  moreover have "kx_wf m'" using installs_wf assms(1,2) by (auto simp: windows_ok_def)
  moreover have "nextCrypto m \<le> nextCrypto m'" using assms(2) by (simp add: installs_def)
  ultimately show ?thesis
    using same_window_would [OF old] by (auto simp: windows_ok_def refusals_kept_def)
qed

lemma windows_decrypt:
  assumes "windows_ok m"
  shows "windows_ok (m\<lparr> env := snd (DecryptFrame unseal data (env m)) \<rparr>) \<and>
    refusals_kept m (m\<lparr> env := snd (DecryptFrame unseal data (env m)) \<rparr>)"
proof -
  let ?s = "snd (DecryptFrame unseal data (env m))"
  note eff = DecryptFrame_effect [of unseal data "env m"]
  have "\<not> WouldAcceptNonce n (heap ?s p)" if "\<not> WouldAcceptNonce n (heap (env m) p)" for n p
    using eff [of p] assms that refused_stable [of "heap (env m) p" n "frame_counter data"]
    by (auto simp: same_window_would windows_ok_def)
  moreover have "length (ReplayBitmap (heap ?s p)) = 4" if "p \<in> ran (crypto (env m))" for p
    using eff [of p] assms that CheckAndRecordNonce_length [of "heap (env m) p" "frame_counter data"]
    by (auto simp: same_window_def windows_ok_def)
  ultimately show ?thesis
    using assms eff by (auto simp: windows_ok_def refusals_kept_def kx_wf_def)
qed

lemma windows_fewer:
  assumes "windows_ok m" and "crypto (env m') \<subseteq>\<^sub>m crypto (env m)" and "nextCrypto m' = nextCrypto m"
    and "\<And>p. same_window (heap (env m') p) (heap (env m) p)"
  shows "windows_ok m' \<and> refusals_kept m m'"
proof -
  have "crypto (env m) i = Some p" if "crypto (env m') i = Some p" for i p
    using assms(2) that by (auto simp: map_le_def dom_def)
  then show ?thesis
    using assms(1,3,4) same_window_would [OF assms(4)]
    unfolding windows_ok_def refusals_kept_def kx_wf_def ran_def same_window_def by fastforce
qed

lemma derived_bitmap: "derived E m x c \<Longrightarrow> length (ReplayBitmap c) = 4"
  by (auto simp: derived_def fresh_crypto_def ReplayWindowSize_def)

lemma same_sessions_windows:
  "\<lbrakk> env m' = env m; nextCrypto m' = nextCrypto m; windows_ok m \<rbrakk> \<Longrightarrow> windows_ok m' \<and> refusals_kept m m'"
  by (auto simp: windows_ok_def refusals_kept_def kx_wf_def)

lemma windows_effect:
  assumes "kx_effect T m m'" and "windows_ok m"
  shows "windows_ok m' \<and> refusals_kept m m'"
  using assms
proof (induction rule: kx_effect.induct)
  case (auth data "from" fr m w r m' w')
  then have "kx_wf m" by (simp add: windows_ok_def)
  note cs = tunnel.HandleAuthFrame_cases [OF auth(1) this]
  show ?case
  proof (cases r)
    case True
    with cs obtain x c where "derived (tunnel_kx T) m x c"
        "installs m (get32 (go_slice data 0 4)) (c\<lparr> Authenticated := True \<rparr>) m'" by auto
    then show ?thesis using windows_installs [OF auth(2)] derived_bitmap by fastforce
  next
    case False
    with cs show ?thesis using same_sessions_windows [OF _ _ auth(2)] by auto
  qed
next
  case (unauth data "from" fr m w r m' w')
  then have "kx_wf m" by (simp add: windows_ok_def)
  note cs = tunnel.HandleUnauthFrame_cases [OF unauth(1) this]
  show ?case
  proof (cases r)
    case True
    with cs obtain x c where "derived (tunnel_kx T) m x c" "installs m (get32 (go_slice data 0 4)) c m'" by auto
    then show ?thesis using windows_installs [OF unauth(2)] derived_bitmap by fastforce
  next
    case False
    with cs obtain m1 where m1: "env m1 = env m" "nextCrypto m1 = nextCrypto m" "same_keys m1 m'" by auto
    from same_sessions_windows [OF m1(1,2) unauth(2)] windows_same_keys [OF _ m1(3)] refusals_kept_trans
    show ?thesis by blast
  qed
next
  case (dropped m i)
  then show ?case
    by (rule windows_fewer)
      (auto simp: Drop_def wipeCryptoSecrets_def set_crypto_def map_le_def same_window_def split: option.splits)
next
  case (removed m i)
  then show ?case by (intro same_sessions_windows) (simp_all add: kx_RemovePeer_def)
next
  case (quiet m m')
  then show ?case by (intro windows_same_keys)
next
  case (decrypt m data)
  then show ?case by (rule windows_decrypt)
next
  case (chain m m1 m2)
  then show ?case using refusals_kept_trans by blast
qed

lemma auth_inv_decrypt:
  assumes "auth_inv verify V m"
  shows "auth_inv verify V (m\<lparr> env := snd (DecryptFrame unseal data (env m)) \<rparr>)"
proof -
  note eff = DecryptFrame_effect [of unseal data "env m"]
  have "Authenticated (heap (snd (DecryptFrame unseal data (env m))) p) = Authenticated (heap (env m) p)"
      "PeerX25519Key (heap (snd (DecryptFrame unseal data (env m))) p) = PeerX25519Key (heap (env m) p)" for p
    using eff [of p] by (simp_all add: key_core_def)
  then show ?thesis using assms eff by (auto simp: auth_inv_def kx_wf_def)
qed

lemma auth_inv_effect:
  assumes "kx_effect T m m'" and "registry_ok verify V (tunnel_kx T)" and "auth_inv verify V m"
  shows "auth_inv verify V m'"
  using assms
proof (induction rule: kx_effect.induct)
  case (quiet m m')
  then show ?case by (blast intro: auth_inv_same_keys)
next
  case (auth data "from" fr m w r m' w')
  then show ?case by (blast intro: auth_inv_auth)
next
  case (unauth data "from" fr m w r m' w')
  then show ?case by (blast intro: auth_inv_unauth)
qed (simp_all add: auth_inv_decrypt auth_inv_Drop auth_inv_RemovePeer)

section \<open>Properties of runs\<close>

lemma tunnel_run_Cons: "tunnel_run (x # ops) tm = tunnel_run ops (tunnel_step x tm)"
  by (simp add: tunnel_run_def)

lemma tunnel_step_encrypt: "encrypt (snd tm) \<Longrightarrow> encrypt (snd (tunnel_step x tm))"
  using tunnel_step_out [of tm "fst x" "snd x"] by (simp add: tun_out_def)

text \<open>The registry answers only with identities in \<open>V\<close>; signatures are checked by \<open>verify\<close>.\<close>

definition registry_env :: "(bytes \<Rightarrow> bytes \<Rightarrow> bytes \<Rightarrow> bool) \<Rightarrow> (node_id \<Rightarrow> bytes set) \<Rightarrow> tun_env \<Rightarrow> bool" where
  "registry_env verify V T \<longleftrightarrow> te_verify T = verify \<and>
    (\<forall>fn i ed. te_verifyFunc T = Some fn \<and> fn i = Some (Some ed) \<longrightarrow> ed \<in> V i)"

lemma registry_env_ok: "registry_env verify V T \<Longrightarrow> registry_ok verify V (tunnel_kx T)"
proof -
  assume "registry_env verify V T"
  moreover have "kx_verify (tunnel_kx T) = te_verify T" "kx_verifyFunc (tunnel_kx T) = te_verifyFunc T"
    by (simp_all add: tunnel_kx_def)
  ultimately show ?thesis using tunnel_wiring [of T] unfolding registry_env_def registry_ok_def by metis
qed

lemma tunnel_run_auth_inv:
  assumes "encrypt (snd tm)" and "\<forall>T\<in>fst ` set ops. registry_env verify V T" and "auth_inv verify V (fst tm)"
  shows "auth_inv verify V (fst (tunnel_run ops tm))"
  using assms
proof (induction ops arbitrary: tm)
  case (Cons x ops)
  have "kx_effect (fst x) (fst tm) (fst (tunnel_step x tm))"
    using tunnel_step_effect [OF Cons.prems(1), of "fst x" "snd x"] by simp
  then have "auth_inv verify V (fst (tunnel_step x tm))"
    using auth_inv_effect [OF _ registry_env_ok] Cons.prems(2,3) by simp
  then show ?case using Cons tunnel_step_encrypt by (simp add: tunnel_run_Cons)
qed (simp add: tunnel_run_def)

lemma tunnel_run_windows:
  assumes "encrypt (snd tm)" and "windows_ok (fst tm)"
  shows "windows_ok (fst (tunnel_run ops tm)) \<and> refusals_kept (fst tm) (fst (tunnel_run ops tm))"
  using assms
proof (induction ops arbitrary: tm)
  case (Cons x ops)
  have "kx_effect (fst x) (fst tm) (fst (tunnel_step x tm))"
    using tunnel_step_effect [OF Cons.prems(1), of "fst x" "snd x"] by simp
  then have "windows_ok (fst (tunnel_step x tm))" "refusals_kept (fst tm) (fst (tunnel_step x tm))"
    using windows_effect Cons.prems(2) by blast+
  then show ?case
    using Cons.IH [OF tunnel_step_encrypt [OF Cons.prems(1)]] refusals_kept_trans by (auto simp: tunnel_run_Cons)
qed (simp add: tunnel_run_def refusals_kept_def)

end
