(* ===== verification/Admission.thy ===== *)
theory Admission
  imports Kx_Limit Port_Manager
begin

text \<open>
  Who may connect: the configuration with its defaults, the SYN rate limits, the reply window
  (\<^verbatim>\<open>src/pkg/daemon/replywindow.go\<close>), the trust gates and the port policy
  (\<^verbatim>\<open>src/pkg/daemon/daemon.go\<close>).

  The handshake service, the registry client and the policy plug-in are not under \<^verbatim>\<open>src/\<close>: they
  are the functions of the record \<open>Services\<close>. The registry's answer is the boolean the code uses,
  whether or not an error came with it.

  The refill of the shared SYN bucket is \<^verbatim>\<open>int(elapsed.Seconds() * float64(limit))\<close>, which for some
  elapsed times is one less than the exact quotient: the double product is the argument \<open>scaled\<close>.
  For the per-source bucket (ten per second) the two agree.
\<close>

section \<open>Configuration\<close>

record Config =
  KeepaliveInterval :: duration
  IdleTimeout :: duration
  SYNRateLimit :: int
  MaxConnectionsPerPort :: int
  MaxTotalConnections :: int
  TimeWaitDuration :: duration
  Public :: bool
  StrictDataPlaneTrust :: bool

definition DefaultKeepaliveInterval :: duration where "DefaultKeepaliveInterval = 60 * second"
definition DefaultIdleTimeout :: duration where "DefaultIdleTimeout = 120 * second"
definition DefaultSYNRateLimit :: int where "DefaultSYNRateLimit = 100"
definition DefaultMaxConnectionsPerPort :: int where "DefaultMaxConnectionsPerPort = 1024"
definition DefaultMaxTotalConnections :: int where "DefaultMaxTotalConnections = 65536"
definition DefaultTimeWaitDuration :: duration where "DefaultTimeWaitDuration = 10 * second"

definition keepaliveInterval :: "Config \<Rightarrow> duration" where
  "keepaliveInterval c = (if KeepaliveInterval c > 0 then KeepaliveInterval c else DefaultKeepaliveInterval)"

definition idleTimeout :: "Config \<Rightarrow> duration" where
  "idleTimeout c = (if IdleTimeout c > 0 then IdleTimeout c else DefaultIdleTimeout)"

definition synRateLimit :: "Config \<Rightarrow> int" where
  "synRateLimit c = (if SYNRateLimit c > 0 then SYNRateLimit c else DefaultSYNRateLimit)"

definition maxConnectionsPerPort :: "Config \<Rightarrow> int" where
  "maxConnectionsPerPort c =
    (if MaxConnectionsPerPort c > 0 then MaxConnectionsPerPort c else DefaultMaxConnectionsPerPort)"

definition maxTotalConnections :: "Config \<Rightarrow> int" where
  "maxTotalConnections c =
    (if MaxTotalConnections c > 0 then MaxTotalConnections c else DefaultMaxTotalConnections)"

definition timeWaitDuration :: "Config \<Rightarrow> duration" where
  "timeWaitDuration c = (if TimeWaitDuration c > 0 then TimeWaitDuration c else DefaultTimeWaitDuration)"

section \<open>SYN rate limits\<close>

definition perSourceSYNLimit :: int where "perSourceSYNLimit = 10"
definition perSourceSYNBurst :: int where "perSourceSYNBurst = 64"
definition maxPerSrcSYNEntries :: nat where "maxPerSrcSYNEntries = 4096"
definition SYNBucketAge :: duration where "SYNBucketAge = 10 * second"

text \<open>The buckets have the fields of those of the key-exchange limiters.\<close>

type_synonym srcSYNBucket = srcKxBucket

definition allowSYN ::
    "(duration \<Rightarrow> int \<Rightarrow> int) \<Rightarrow> Config \<Rightarrow> instant \<Rightarrow> int \<times> instant \<Rightarrow> bool \<times> int \<times> instant" where
  "allowSYN scaled cfg now st =
    (case st of (synTokens, synLastFill) \<Rightarrow>
     let limit = synRateLimit cfg;
         elapsed = time_sub now synLastFill;
         refill = scaled elapsed limit;
         (tok, fill) =
           (if elapsed > 0 \<and> refill > 0
            then (if synTokens + refill > limit then limit else synTokens + refill, now)
            else (synTokens, synLastFill)) in
     if tok > 0 then (True, tok - 1, fill) else (False, tok, fill))"

definition syn_refill :: "instant \<Rightarrow> srcSYNBucket \<Rightarrow> srcSYNBucket" where
  "syn_refill now b =
    (let elapsed = time_sub now (lastFill b) in
     if elapsed > 0 then
       let refill = elapsed * perSourceSYNLimit div second in
       if refill > 0 then
         b\<lparr> tokens := (if tokens b + refill > perSourceSYNBurst then perSourceSYNBurst else tokens b + refill),
            lastFill := now \<rparr>
       else b
     else b)"

definition allowSYNFromSource ::
    "instant \<Rightarrow> node_id \<Rightarrow> (node_id \<rightharpoonup> srcSYNBucket) \<Rightarrow> bool \<times> (node_id \<rightharpoonup> srcSYNBucket)" where
  "allowSYNFromSource now srcNode perSrcSYN =
    (case perSrcSYN srcNode of
       None \<Rightarrow>
         if map_len perSrcSYN \<ge> maxPerSrcSYNEntries then (False, perSrcSYN)
         else (True, perSrcSYN(srcNode \<mapsto> \<lparr> tokens = perSourceSYNBurst - 1, lastFill = now \<rparr>))
     | Some b \<Rightarrow> (case bucket_take (syn_refill now b) of (ok, b') \<Rightarrow> (ok, perSrcSYN(srcNode \<mapsto> b'))))"

definition reapPerSrcSYN :: "instant \<Rightarrow> (node_id \<rightharpoonup> srcSYNBucket) \<Rightarrow> node_id \<rightharpoonup> srcSYNBucket" where
  "reapPerSrcSYN now perSrcSYN = map_prune (\<lambda>b. lastFill b < now - SYNBucketAge) perSrcSYN"

definition SetSYNWhitelist :: "node_id list \<Rightarrow> node_id set" where
  "SetSYNWhitelist nodeIDs = set nodeIDs - {0}"

section \<open>The reply window\<close>

definition replyWindow :: duration where "replyWindow = 5 * (60 * second)"
definition maxReplyWindowPeers :: nat where "maxReplyWindowPeers = 4096"

record service_ports =
  PortDataExchange :: u16
  PortHandshake :: u16
  PortPing :: u16

definition replyWindowPort :: "service_ports \<Rightarrow> u16 \<Rightarrow> bool" where
  "replyWindowPort sp port \<longleftrightarrow> port = PortDataExchange sp \<or> port = PortHandshake sp"

type_synonym outboundContacts = "node_id \<rightharpoonup> instant"

definition pruneLocked :: "instant \<Rightarrow> outboundContacts \<Rightarrow> outboundContacts" where
  "pruneLocked now at = map_prune (\<lambda>t. time_sub now t \<ge> replyWindow) at"

definition note_contact :: "node_id \<Rightarrow> instant \<Rightarrow> outboundContacts \<Rightarrow> outboundContacts" where
  "note_contact peer now at =
    (if at peer = None \<and> map_len at \<ge> maxReplyWindowPeers then
       let at1 = pruneLocked now at in
       if map_len at1 \<ge> maxReplyWindowPeers then at1 else at1(peer \<mapsto> now)
     else at(peer \<mapsto> now))"

definition recent :: "node_id \<Rightarrow> instant \<Rightarrow> outboundContacts \<Rightarrow> bool" where
  "recent peer now at = (case at peer of None \<Rightarrow> False | Some t \<Rightarrow> time_sub now t < replyWindow)"

definition replyWindowAdmits :: "service_ports \<Rightarrow> instant \<Rightarrow> node_id \<Rightarrow> u16 \<Rightarrow> outboundContacts \<Rightarrow> bool" where
  "replyWindowAdmits sp now srcNode dstPort at \<longleftrightarrow> replyWindowPort sp dstPort \<and> recent srcNode now at"

section \<open>Trust\<close>

text \<open>A handshake service answers with the peer's key if it can, otherwise by the node ID alone.\<close>

datatype HandshakeService =
    IsTrustedWithKey "node_id \<Rightarrow> string \<Rightarrow> bool"
  | IsTrusted "node_id \<Rightarrow> bool"

datatype PolicyEventType = PolicyEventConnect | PolicyEventDial | PolicyEventDatagram

record PolicyRunner =
  NetworkID :: u16
  HasMember :: "node_id \<Rightarrow> bool"
  EvaluatePortGate :: "PolicyEventType \<Rightarrow> u16 \<Rightarrow> node_id \<Rightarrow> nat \<Rightarrow> string \<Rightarrow> string list \<Rightarrow> string list \<Rightarrow> bool"

record PolicyManager =
  pm_Get :: "u16 \<Rightarrow> PolicyRunner option"
  pm_All :: "PolicyRunner list"

record Services =
  handshakes :: "HandshakeService option"
  CheckTrust :: "(node_id \<Rightarrow> node_id \<Rightarrow> bool) option"
  peerPubKeyCached :: "node_id \<Rightarrow> bytes option"
  policyManager :: "PolicyManager option"
  nodeInfoTagsFor :: "node_id \<Rightarrow> string list"

text \<open>Base64 with the standard alphabet and padding.\<close>

definition base64_alphabet :: string where
  "base64_alphabet = ''ABCDEFGHIJKLMNOPQRSTUVWXYZabcdefghijklmnopqrstuvwxyz0123456789+/''"

definition base64_digits :: "nat \<Rightarrow> nat \<Rightarrow> string" where
  "base64_digits n bits = map (\<lambda>i. base64_alphabet ! (bits div 64 ^ (3 - i) mod 64)) [0..<n]"

fun EncodeToString :: "bytes \<Rightarrow> string" where
  "EncodeToString [] = ''''"
| "EncodeToString [x] = base64_digits 2 (unat x * 65536) @ ''==''"
| "EncodeToString [x, y] = base64_digits 3 (unat x * 65536 + unat y * 256) @ ''=''"
| "EncodeToString (x # y # z # rest) =
    base64_digits 4 (unat x * 65536 + unat y * 256 + unat z) @ EncodeToString rest"

definition cachedPeerKeyB64 :: "Services \<Rightarrow> node_id \<Rightarrow> string" where
  "cachedPeerKeyB64 S nodeID =
    (case peerPubKeyCached S nodeID of None \<Rightarrow> '''' | Some pk \<Rightarrow> if pk = [] then '''' else EncodeToString pk)"

definition handshakeTrusts :: "Services \<Rightarrow> node_id \<Rightarrow> bool" where
  "handshakeTrusts S srcNode =
    (case handshakes S of
       None \<Rightarrow> False
     | Some (IsTrusted trusted) \<Rightarrow> trusted srcNode
     | Some (IsTrustedWithKey trusted) \<Rightarrow> trusted srcNode (cachedPeerKeyB64 S srcNode))"

definition registry_trusts :: "Services \<Rightarrow> node_id \<Rightarrow> node_id \<Rightarrow> bool" where
  "registry_trusts S nodeID srcNode = (case CheckTrust S of None \<Rightarrow> False | Some check \<Rightarrow> check nodeID srcNode)"

definition isTrustedPeer :: "Services \<Rightarrow> node_id \<Rightarrow> node_id \<Rightarrow> bool" where
  "isTrustedPeer S nodeID srcNode \<longleftrightarrow> handshakeTrusts S srcNode \<or> registry_trusts S nodeID srcNode"

definition admitDataPlanePeer :: "Services \<Rightarrow> Config \<Rightarrow> node_id \<Rightarrow> node_id \<Rightarrow> bool" where
  "admitDataPlanePeer S cfg nodeID srcNode =
    (if \<not> StrictDataPlaneTrust cfg \<or> Public cfg then True else isTrustedPeer S nodeID srcNode)"

section \<open>Port policy\<close>

text \<open>A fetch of a network's policy: its ports, or \<open>None\<close> for an error.\<close>

type_synonym netPolicyResult = "u16 \<times> u16 list option"

definition mergeNetworkPolicies :: "(u16 \<rightharpoonup> u16 list) \<Rightarrow> netPolicyResult list \<Rightarrow> u16 \<rightharpoonup> u16 list" where
  "mergeNetworkPolicies prior results =
    fold (\<lambda>(netID, res) policies.
      case res of
        None \<Rightarrow> (case prior netID of Some p \<Rightarrow> policies(netID \<mapsto> p) | None \<Rightarrow> policies)
      | Some ports \<Rightarrow> policies(netID \<mapsto> ports)) results Map.empty"

definition isPortAllowed :: "(u16 \<rightharpoonup> u16 list) \<Rightarrow> u16 \<Rightarrow> u16 \<Rightarrow> bool" where
  "isPortAllowed netPolicies netID port =
    (case netPolicies netID of None \<Rightarrow> True | Some ports \<Rightarrow> if ports = [] then True else port \<in> set ports)"

definition evaluatePortPolicy ::
    "Services \<Rightarrow> (u16 \<rightharpoonup> u16 list) \<Rightarrow> (u16 \<rightharpoonup> string list) \<Rightarrow> PolicyEventType \<Rightarrow> u16 \<Rightarrow> u16 \<Rightarrow> node_id \<Rightarrow>
     nat \<Rightarrow> string \<Rightarrow> bool" where
  "evaluatePortPolicy S netPolicies memberTags eventType netID port peer payloadSize direction =
    (case policyManager S of
       None \<Rightarrow> isPortAllowed netPolicies netID port
     | Some pm \<Rightarrow>
       let others = filter (\<lambda>pr. NetworkID pr \<noteq> netID \<and> HasMember pr peer) (pm_All pm);
           tags = (\<lambda>n. case memberTags n of None \<Rightarrow> [] | Some ts \<Rightarrow> ts);
           gate = (\<lambda>n pr. EvaluatePortGate pr eventType port peer payloadSize direction (tags n) (nodeInfoTagsFor S peer)) in
       if pm_Get pm netID = None \<and> others = [] then isPortAllowed netPolicies netID port
       else (case pm_Get pm netID of None \<Rightarrow> True | Some pr \<Rightarrow> gate netID pr) \<and>
            list_all (\<lambda>pr. gate (NetworkID pr) pr) others)"

section \<open>The rate limits hold\<close>

text \<open>The shared bucket, with the double product cut at the exact quotient.\<close>

definition capped :: "(duration \<Rightarrow> int \<Rightarrow> int) \<Rightarrow> duration \<Rightarrow> int \<Rightarrow> int" where
  "capped scaled elapsed limit = min (scaled elapsed limit) (elapsed * limit div second)"

definition shared_good :: "instant \<Rightarrow> int \<times> instant \<Rightarrow> bool" where
  "shared_good now st \<longleftrightarrow> 0 \<le> fst st \<and> snd st \<le> now"

definition shared_budget :: "int \<Rightarrow> instant \<Rightarrow> int \<times> instant \<Rightarrow> int" where
  "shared_budget limit now st = fst st * second + limit * (now - snd st)"

lemma synRateLimit_pos: "0 < synRateLimit cfg"
  by (simp add: synRateLimit_def DefaultSYNRateLimit_def)

lemma div_second_le: "x div second * second \<le> x"
  by (simp add: minus_mod_eq_div_mult [symmetric])

lemma allowSYN_pays:
  assumes "shared_good now st" and "allowSYN (capped scaled) cfg now st = (ok, st')"
  shows "shared_good now st'"
    and "shared_budget (synRateLimit cfg) now st' + (if ok then second else 0) \<le> shared_budget (synRateLimit cfg) now st"
proof -
  let ?l = "synRateLimit cfg" and ?e = "time_sub now (snd st)"
  obtain tok fill where st: "st = (tok, fill)" by force
  define r where "r = capped scaled ?e ?l"
  define tok1 fill1 where "tok1 = (if ?e > 0 \<and> r > 0 then min ?l (tok + r) else tok)"
    and "fill1 = (if ?e > 0 \<and> r > 0 then now else fill)"
  have e: "?e \<le> now - fill" using assms(1) st by (auto simp: time_sub_def shared_good_def)
  have "?l * ?e \<le> ?l * (now - fill)" using e synRateLimit_pos [of cfg] by (intro mult_left_mono) auto
  moreover have "r * second \<le> ?l * ?e"
    using div_second_le [of "?e * ?l"] mult_right_mono [of r "?e * ?l div second" second]
    by (simp add: r_def capped_def mult.commute)
  moreover have "min ?l (tok + r) * second \<le> (tok + r) * second" by (intro mult_right_mono) auto
  ultimately have b: "shared_budget ?l now (tok1, fill1) \<le> shared_budget ?l now st"
    by (auto simp: shared_budget_def st tok1_def fill1_def algebra_simps)
  have g: "0 \<le> tok1" "fill1 \<le> now"
    using assms(1) synRateLimit_pos [of cfg] by (auto simp: tok1_def fill1_def shared_good_def st)
  have res: "allowSYN (capped scaled) cfg now st = (if tok1 > 0 then (True, tok1 - 1, fill1) else (False, tok1, fill1))"
    unfolding allowSYN_def st prod.case Let_def tok1_def fill1_def using r_def st by (auto simp: min_def)
  show "shared_good now st'" using res assms(2) g by (auto simp: shared_good_def split: if_splits)
  show "shared_budget ?l now st' + (if ok then second else 0) \<le> shared_budget ?l now st"
    using res assms(2) b by (auto simp: shared_budget_def algebra_simps split: if_splits)
qed

interpretation shared_limit: rate_limiter "\<lambda>now (_ :: unit). allowSYN (capped scaled) cfg now" "\<lambda>_. ()"
  shared_good "\<lambda>_. shared_budget (synRateLimit cfg)" "synRateLimit cfg" second for scaled cfg
proof unfold_locales
  show "shared_good now s \<Longrightarrow> now \<le> now' \<Longrightarrow> shared_good now' s" for now now' s
    by (auto simp: shared_good_def)
  show "shared_good now s \<Longrightarrow> 0 \<le> shared_budget (synRateLimit cfg) now s" for now s
    using synRateLimit_pos [of cfg] by (auto simp: shared_good_def shared_budget_def)
  show "now \<le> now' \<Longrightarrow> shared_budget (synRateLimit cfg) now' s
      \<le> shared_budget (synRateLimit cfg) now s + synRateLimit cfg * (now' - now)" for now now' s
    by (simp add: shared_budget_def algebra_simps)
qed (use allowSYN_pays in \<open>blast | simp\<close>)+

text \<open>The buckets per source. A run is a sequence of arrivals (a node) and reaps (\<open>None\<close>).\<close>

definition source_step ::
    "instant \<Rightarrow> node_id option \<Rightarrow> (node_id \<rightharpoonup> srcSYNBucket) \<Rightarrow> bool \<times> (node_id \<rightharpoonup> srcSYNBucket)" where
  "source_step now x perSrcSYN =
    (case x of Some srcNode \<Rightarrow> allowSYNFromSource now srcNode perSrcSYN
     | None \<Rightarrow> (False, reapPerSrcSYN now perSrcSYN))"

definition syn_budget :: "instant \<Rightarrow> srcSYNBucket option \<Rightarrow> int" where
  "syn_budget now ob =
    (case ob of None \<Rightarrow> 64 * second | Some b \<Rightarrow> tokens b * second + 10 * (now - lastFill b))"

lemma syn_refill_budget:
  assumes "0 \<le> tokens b" and "lastFill b \<le> now"
  shows "0 \<le> tokens (syn_refill now b)" and "lastFill (syn_refill now b) \<le> now"
    and "syn_budget now (Some (syn_refill now b)) \<le> syn_budget now (Some b)"
proof -
  let ?e = "time_sub now (lastFill b)"
  have e: "?e \<le> now - lastFill b" using assms(2) by (auto simp: time_sub_def)
  have "min 64 (tokens b + ?e * 10 div second) * second \<le> (tokens b + ?e * 10 div second) * second"
    by (intro mult_right_mono) auto
  also have "\<dots> \<le> tokens b * second + ?e * 10" using div_second_le [of "?e * 10"] by (simp add: algebra_simps)
  finally show "syn_budget now (Some (syn_refill now b)) \<le> syn_budget now (Some b)"
    using e by (auto simp: syn_refill_def perSourceSYNLimit_def perSourceSYNBurst_def Let_def syn_budget_def min_def)
  show "0 \<le> tokens (syn_refill now b)" "lastFill (syn_refill now b) \<le> now"
    using assms by (auto simp: syn_refill_def perSourceSYNBurst_def Let_def)
qed

lemma source_step_laws:
  assumes "buckets_good now lim" and "source_step now x lim = (ok, lim')"
  shows "buckets_good now lim'"
    and "syn_budget now (lim' k) + (if ok \<and> x = Some k then second else 0) \<le> syn_budget now (lim k)"
proof -
  have "buckets_good now lim' \<and> syn_budget now (lim' k) + (if ok \<and> x = Some k then second else 0) \<le> syn_budget now (lim k)"
  proof (cases x)
    case None
    then have l: "ok = False" "lim' = reapPerSrcSYN now lim" using assms(2) by (auto simp: source_step_def)
    have "syn_budget now (lim' k) \<le> syn_budget now (lim k)"
    proof (cases "lim k")
      case (Some b)
      then have "0 \<le> tokens b * second" using assms(1) by (auto simp: buckets_good_def)
      then show ?thesis
        unfolding l(2) by (auto simp: reapPerSrcSYN_def map_prune_def syn_budget_def SYNBucketAge_def Some)
    qed (simp add: l(2) reapPerSrcSYN_def map_prune_def)
    then show ?thesis using None l prune_good [OF assms(1)] by (simp add: reapPerSrcSYN_def)
  next
    case (Some i)
    then have step: "allowSYNFromSource now i lim = (ok, lim')" using assms(2) by (simp add: source_step_def)
    show ?thesis
    proof (cases "lim i")
      case None
      then show ?thesis
        using step assms(1) Some
        by (auto simp: allowSYNFromSource_def buckets_good_def syn_budget_def perSourceSYNBurst_def split: if_splits)
    next
      case b: (Some b)
      obtain ok' b' where t: "bucket_take (syn_refill now b) = (ok', b')" by force
      have g: "0 \<le> tokens b" "lastFill b \<le> now" using assms(1) b by (auto simp: buckets_good_def)
      note R = syn_refill_budget [OF g]
      have "tokens b' \<ge> 0 \<and> lastFill b' = lastFill (syn_refill now b) \<and>
          syn_budget now (Some b') + (if ok' then second else 0) \<le> syn_budget now (Some (syn_refill now b))"
        using t R(1) by (auto simp: bucket_take_def syn_budget_def algebra_simps split: if_splits)
      moreover have "lim' = lim(i \<mapsto> b')" "ok = ok'" using step b t by (auto simp: allowSYNFromSource_def)
      ultimately show ?thesis using R assms(1) b Some by (auto simp: buckets_good_def)
    qed
  qed
  then show "buckets_good now lim'"
    and "syn_budget now (lim' k) + (if ok \<and> x = Some k then second else 0) \<le> syn_budget now (lim k)" by auto
qed

interpretation source_syn: rate_limiter source_step "\<lambda>x. x"
  buckets_good "\<lambda>x now lim. case x of None \<Rightarrow> 0 | Some k \<Rightarrow> syn_budget now (lim k)" 10 second
proof unfold_locales
  fix now now' :: instant and s :: "node_id \<rightharpoonup> srcSYNBucket" and x k :: "node_id option" and ok s'
  show "buckets_good now s \<Longrightarrow> now \<le> now' \<Longrightarrow> buckets_good now' s" by (rule buckets_good_later)
  show "buckets_good now s \<Longrightarrow> 0 \<le> (case k of None \<Rightarrow> 0 | Some k \<Rightarrow> syn_budget now (s k))"
    by (auto simp: buckets_good_def syn_budget_def split: option.splits)
  show "now \<le> now' \<Longrightarrow> (case k of None \<Rightarrow> 0 | Some k \<Rightarrow> syn_budget now' (s k))
      \<le> (case k of None \<Rightarrow> 0 | Some k \<Rightarrow> syn_budget now (s k)) + 10 * (now' - now)"
    by (auto simp: syn_budget_def split: option.splits)
  assume g: "buckets_good now s" and st: "source_step now x s = (ok, s')"
  show "buckets_good now s'" using source_step_laws(1) [OF g st] .
  show "(case x of None \<Rightarrow> 0 | Some k \<Rightarrow> syn_budget now (s' k)) + (if ok then second else 0)
      \<le> (case x of None \<Rightarrow> 0 | Some k \<Rightarrow> syn_budget now (s k))"
  proof (cases x)
    case (Some i)
    then show ?thesis using source_step_laws(2) [OF g st, of i] by simp
  qed (use st in \<open>simp add: source_step_def\<close>)
  show "(case k of None \<Rightarrow> 0 | Some k \<Rightarrow> syn_budget now (s' k)) \<le> (case k of None \<Rightarrow> 0 | Some k \<Rightarrow> syn_budget now (s k))"
  proof (cases k)
    case (Some i)
    have "0 \<le> second" by simp
    then show ?thesis using source_step_laws(2) [OF g st, of i] Some by (simp split: if_splits)
  qed simp
qed

text \<open>The SYNs of one source that pass its bucket, and those that pass the shared one.\<close>

fun source_passes :: "node_id \<Rightarrow> (instant \<times> node_id option) list \<Rightarrow> (node_id \<rightharpoonup> srcSYNBucket) \<Rightarrow> nat" where
  "source_passes k [] m = 0"
| "source_passes k ((now, x) # calls) m =
    (case source_step now x m of (ok, m') \<Rightarrow> (if ok \<and> x = Some k then 1 else 0) + source_passes k calls m')"

fun shared_passes :: "(duration \<Rightarrow> int \<Rightarrow> int) \<Rightarrow> Config \<Rightarrow> instant list \<Rightarrow> int \<times> instant \<Rightarrow> nat" where
  "shared_passes scaled cfg [] st = 0"
| "shared_passes scaled cfg (now # ts) st =
    (case allowSYN scaled cfg now st of (ok, st') \<Rightarrow> (if ok then 1 else 0) + shared_passes scaled cfg ts st')"

lemma source_passes_accepted: "source_passes k calls m = source_syn.accepted (Some k) calls m"
  by (induction k calls m rule: source_passes.induct) (auto split: prod.splits)

lemma shared_passes_accepted:
  "shared_passes (capped scaled) cfg ts st = shared_limit.accepted scaled cfg () (map (\<lambda>t. (t, ())) ts) st"
  by (induction "capped scaled" cfg ts st rule: shared_passes.induct) (auto split: prod.splits)

lemma capped_scaled: "(\<And>e l. scaled e l \<le> e * l div second) \<Longrightarrow> capped scaled = scaled"
  by (simp add: capped_def min_def fun_eq_iff antisym)

text \<open>A history of policy fetches, the newest first, and what it says of a network.\<close>

fun last_known :: "u16 \<Rightarrow> netPolicyResult list list \<Rightarrow> u16 list option" where
  "last_known n [] = None"
| "last_known n (results # older) =
    (case map_of results n of
       None \<Rightarrow> None
     | Some None \<Rightarrow> last_known n older
     | Some (Some ports) \<Rightarrow> Some ports)"

lemma merge_lookup:
  assumes "distinct (map fst results)"
  shows "mergeNetworkPolicies prior results n =
    (case map_of results n of None \<Rightarrow> None | Some None \<Rightarrow> prior n | Some (Some ports) \<Rightarrow> Some ports)"
proof -
  define step where "step = (\<lambda>(netID, res) policies.
      case res of
        None \<Rightarrow> (case prior netID of Some p \<Rightarrow> policies(netID \<mapsto> p) | None \<Rightarrow> policies)
      | Some ports \<Rightarrow> policies(netID \<mapsto> ports :: u16 list))"
  have frame: "n \<notin> fst ` set rs \<Longrightarrow> fold step rs acc n = acc n" for rs acc
    by (induction rs arbitrary: acc) (auto simp: step_def split: option.splits)
  have "\<lbrakk> distinct (map fst rs); acc n = None \<rbrakk> \<Longrightarrow> fold step rs acc n =
      (case map_of rs n of None \<Rightarrow> None | Some None \<Rightarrow> prior n | Some (Some ports) \<Rightarrow> Some ports)" for rs acc
  proof (induction rs arbitrary: acc)
    case (Cons r rs)
    obtain i res where r: "r = (i, res)" by force
    show ?case
    proof (cases "i = n")
      case True
      then have "fold step rs (step r acc) n = step r acc n" using Cons.prems r by (intro frame) auto
      then show ?thesis using True r Cons.prems(2) by (auto simp: step_def split: option.splits)
    next
      case False
      then have "step r acc n = None" using r Cons.prems(2) by (auto simp: step_def split: option.splits)
      then show ?thesis using Cons.IH [of "step r acc"] Cons.prems r False by simp
    qed
  qed simp
  from this [OF assms, of Map.empty] show ?thesis by (simp add: mergeNetworkPolicies_def step_def)
qed

section \<open>Properties\<close>


definition sample_cfg :: Config where
  "sample_cfg = \<lparr> KeepaliveInterval = 0, IdleTimeout = 0, SYNRateLimit = 2, MaxConnectionsPerPort = 0,
    MaxTotalConnections = 0, TimeWaitDuration = 0, Public = False, StrictDataPlaneTrust = False \<rparr>"




end
