(* ===== verification/Stream_Send.thy ===== *)
theory Stream_Send
  imports Conn_Send
begin

text \<open>
  Writing to a stream (\<^verbatim>\<open>SendData\<close> to \<^verbatim>\<open>releaseHeldFINIfAcked\<close> of
  \<^verbatim>\<open>src/pkg/daemon/daemon.go\<close>): Nagle's algorithm, segmentation, waiting for the window with
  zero-window probes, and the close with its held FIN.

  The state is the connection and the packets handed to the tunnel so far. The tunnel's answer to
  a packet is the argument \<open>send\<close>: a packet it refuses is logged all the same, as one that was
  lost. A writer that waits for the window is woken by an event of the list \<open>evs\<close>, which carries
  the time and what the other goroutines did to the connection meanwhile; with no event left it is
  still waiting (\<open>Blocked\<close>). They cannot touch the Nagle buffer: \<^verbatim>\<open>SendMu\<close> and
  \<^verbatim>\<open>WriteMu\<close> are held.
\<close>

section \<open>Segments\<close>

definition ZeroWinProbeInitial :: duration where "ZeroWinProbeInitial = 500 * millisecond"
definition ZeroWinProbeMax :: duration where "ZeroWinProbeMax = 30 * second"
definition MaxZeroWindowProbes :: nat where "MaxZeroWindowProbes = 30"
definition nagleWritePiece :: nat where "nagleWritePiece = 56 * nat SendSegmentSize"

datatype stream_error = ErrNotEstablished | ErrConnClosed | ErrSendBufFull | ErrTunnelSend

datatype write_result = Returned "stream_error option" | Blocked

type_synonym wire = "Connection \<times> packet list"

type_synonym link = "packet \<Rightarrow> bool"

definition transmitSegment :: "link \<Rightarrow> instant \<Rightarrow> bytes \<Rightarrow> wire \<Rightarrow> stream_error option \<times> wire" where
  "transmitSegment send now data cw =
    (case cw of (c, w) \<Rightarrow>
     let sq = SendSeq c;
         c1 = c\<lparr> SendSeq := SendSeq c + of_nat (length data) \<rparr>;
         pkt = stream_packet {FlagACK} c1 sq (RecvAck c1) (RecvWindow c1) data;
         c2 = TrackSend now sq data c1 in
     if \<not> send pkt then (Some ErrTunnelSend, (c2, w @ [pkt]))
     else (None,
       (c2\<lparr> LastActivity := now,
            Stats := (Stats c2)\<lparr> BytesSent := BytesSent (Stats c2) + of_nat (length data),
                                 SegsSent := SegsSent (Stats c2) + 1 \<rparr>,
            ACKTimer := None, PendingACKs := 0 \<rparr>, w @ [pkt])))"

datatype wait =
    WindowSignal instant "Connection \<Rightarrow> Connection"
  | ProbeTimer instant "Connection \<Rightarrow> Connection"
  | StopClosed

text \<open>What others did while a writer waited.\<close>

definition others :: "(Connection \<Rightarrow> Connection) \<Rightarrow> Connection \<Rightarrow> Connection" where
  "others f c = (f c)\<lparr> NagleBuf := NagleBuf c \<rparr>"

text \<open>
  \<open>probeInterval\<close> is what the probe timer is set to; it decides when the next \<open>ProbeTimer\<close>
  comes.
\<close>

fun sendSegment ::
    "link \<Rightarrow> wait list \<Rightarrow> instant \<Rightarrow> duration \<Rightarrow> nat \<Rightarrow> bytes \<Rightarrow> wire \<Rightarrow> write_result \<times> wait list \<times> instant \<times> wire" where
  "sendSegment send evs now probeInterval probeCount data (c, w) =
    (if WindowAvailable c then
       (case transmitSegment send now data (c, w) of (err, cw) \<Rightarrow> (Returned err, evs, now, cw))
     else case evs of
       [] \<Rightarrow> (Blocked, [], now, (c, w))
     | StopClosed # evs' \<Rightarrow> (Returned (Some ErrConnClosed), evs', now, (c, w))
     | WindowSignal now' f # evs' \<Rightarrow>
         let c1 = others f c in
         sendSegment send evs' now' ZeroWinProbeInitial 0 data (c1\<lparr> WindowCh := map_option (\<lambda>_. False) (WindowCh c1) \<rparr>, w)
     | ProbeTimer now' f # evs' \<Rightarrow>
         let c1 = others f c;
             w1 = w @ [stream_packet {FlagACK} c1 (SendSeq c1) (RecvAck c1) (RecvWindow c1) []] in
         if Suc probeCount \<ge> MaxZeroWindowProbes then
           (Returned (Some ErrConnClosed), evs', now',
            (c1\<lparr> State := StateClosed \<rparr>, w1 @ [stream_packet {FlagRST} c1 0 0 0 []]))
         else
           sendSegment send evs' now'
             (if probeInterval * 2 > ZeroWinProbeMax then ZeroWinProbeMax else probeInterval * 2)
             (Suc probeCount) data (c1, w1))"

declare sendSegment.simps [simp del]

section \<open>Nagle\<close>

lemma transmitSegment_buf: "NagleBuf (fst (snd (transmitSegment send now data (c, w)))) = NagleBuf c"
  by (simp add: transmitSegment_def TrackSend_def Let_def)

text \<open>One iteration of the wait.\<close>

lemma sendSegment_open:
  "WindowAvailable c \<Longrightarrow> sendSegment send evs now iv n data (c, w) =
    (case transmitSegment send now data (c, w) of (err, cw) \<Rightarrow> (Returned err, evs, now, cw))"
  by (simp add: sendSegment.simps)

lemma sendSegment_full:
  assumes "\<not> WindowAvailable c"
  shows "sendSegment send [] now iv n data (c, w) = (Blocked, [], now, (c, w))"
    and "sendSegment send (StopClosed # evs) now iv n data (c, w) = (Returned (Some ErrConnClosed), evs, now, (c, w))"
    and "sendSegment send (WindowSignal now' f # evs) now iv n data (c, w) =
      sendSegment send evs now' ZeroWinProbeInitial 0 data
        ((others f c)\<lparr> WindowCh := map_option (\<lambda>_. False) (WindowCh (others f c)) \<rparr>, w)"
    and "sendSegment send (ProbeTimer now' f # evs) now iv n data (c, w) =
      (let c1 = others f c;
           w1 = w @ [stream_packet {FlagACK} c1 (SendSeq c1) (RecvAck c1) (RecvWindow c1) []] in
       if Suc n \<ge> MaxZeroWindowProbes then
         (Returned (Some ErrConnClosed), evs, now',
          (c1\<lparr> State := StateClosed \<rparr>, w1 @ [stream_packet {FlagRST} c1 0 0 0 []]))
       else sendSegment send evs now' (if iv * 2 > ZeroWinProbeMax then ZeroWinProbeMax else iv * 2) (Suc n) data (c1, w1))"
  using assms by (simp_all add: sendSegment.simps [of send "[]"] sendSegment.simps [of send "_ # evs"] Let_def)

lemma sendSegment_buf:
  "NagleBuf (fst (snd (snd (snd (sendSegment send evs now iv n data (c, w)))))) = NagleBuf c"
proof (induction evs arbitrary: now iv n c w)
  case Nil
  then show ?case
    using transmitSegment_buf [of send now data c w]
    by (cases "WindowAvailable c") (auto simp: sendSegment_open sendSegment_full split: prod.splits)
next
  case (Cons ev evs)
  show ?case
  proof (cases "WindowAvailable c")
    case True
    then show ?thesis
      using transmitSegment_buf [of send now data c w] by (auto simp: sendSegment_open split: prod.splits)
  next
    case False
    then show ?thesis by (cases ev) (simp_all add: sendSegment_full Cons.IH others_def Let_def)
  qed
qed

text \<open>
  The loop of \<^verbatim>\<open>flushNagle\<close>. The first component of the result is \<^verbatim>\<open>held\<close>. Starting the
  goroutine \<^verbatim>\<open>flushHeldTail\<close> sets \<open>tailFlusher\<close>.
\<close>

function flushNagle ::
    "link \<Rightarrow> bool \<Rightarrow> bool \<Rightarrow> wait list \<Rightarrow> instant \<Rightarrow> wire \<Rightarrow>
     bool \<times> write_result \<times> wait list \<times> instant \<times> wire" where
  "flushNagle send force asFlusher evs now (c, w) =
    (if NagleBuf c = [] then
       (False, Returned None, evs, now, (if asFlusher then c\<lparr> tailFlusher := False \<rparr> else c, w))
     else if int (length (NagleBuf c)) \<ge> SendSegmentSize then
       (if asFlusher then (True, Returned None, evs, now, (c, w))
        else
          let n = nat SendSegmentSize in
          case sendSegment send evs now ZeroWinProbeInitial 0 (take n (NagleBuf c))
                 (c\<lparr> NagleBuf := drop n (NagleBuf c) \<rparr>, w) of
            (Returned None, evs', now', (c', w')) \<Rightarrow> flushNagle send force asFlusher evs' now' (c', w')
          | (r, evs', now', cw') \<Rightarrow> (False, r, evs', now', cw'))
     else if \<not> force \<and> nagleHoldsTail c then
       (True, Returned None, evs, now, (if \<not> asFlusher then c\<lparr> tailFlusher := True \<rparr> else c, w))
     else
       let segment = NagleBuf c;
           c1 = c\<lparr> NagleBuf := [] \<rparr> in
       if asFlusher then
         (case transmitSegment send now segment (c1\<lparr> tailFlusher := False \<rparr>, w) of
            (err, cw) \<Rightarrow> (False, Returned err, evs, now, cw))
       else
         (case sendSegment send evs now ZeroWinProbeInitial 0 segment (c1, w) of
            (r, rest) \<Rightarrow> (False, r, rest)))"
  by pat_completeness auto
termination
proof (relation "measure (\<lambda>(_, _, _, _, _, c, _). length (NagleBuf c))", goal_cases)
  case (2 send force asFlusher evs now c w n r rest e evs' rest1 now' cw c' w')
  then have eq: "sendSegment send evs now ZeroWinProbeInitial 0 (take n (NagleBuf c))
      (c\<lparr> NagleBuf := drop n (NagleBuf c) \<rparr>, w) = (Returned None, evs', now', c', w')" by simp
  have "NagleBuf c' = drop n (NagleBuf c)"
    using sendSegment_buf [of send evs now ZeroWinProbeInitial 0 "take n (NagleBuf c)"
        "c\<lparr> NagleBuf := drop n (NagleBuf c) \<rparr>" w] unfolding eq by simp
  with 2 show ?case by (auto simp: SendSegmentSize_def)
qed simp

declare flushNagle.simps [simp del]

text \<open>One iteration of the loop.\<close>

lemma flushNagle_cases:
  obtains (empty) "NagleBuf c = []" "flushNagle send force asFl evs now (c, w) =
      (False, Returned None, evs, now, (if asFl then c\<lparr> tailFlusher := False \<rparr> else c, w))"
  | (left) "int (length (NagleBuf c)) \<ge> SendSegmentSize" "asFl"
      "flushNagle send force asFl evs now (c, w) = (True, Returned None, evs, now, (c, w))"
  | (full) n r evs' now' c' w' where "n = nat SendSegmentSize" "n \<le> length (NagleBuf c)" "\<not> asFl"
      "sendSegment send evs now ZeroWinProbeInitial 0 (take n (NagleBuf c)) (c\<lparr> NagleBuf := drop n (NagleBuf c) \<rparr>, w) =
        (r, evs', now', (c', w'))"
      "NagleBuf c' = drop n (NagleBuf c)"
      "flushNagle send force asFl evs now (c, w) = (if r = Returned None then flushNagle send force asFl evs' now' (c', w')
        else (False, r, evs', now', (c', w')))"
  | (held) "NagleBuf c \<noteq> []" "int (length (NagleBuf c)) < SendSegmentSize" "\<not> force" "nagleHoldsTail c"
      "flushNagle send force asFl evs now (c, w) =
        (True, Returned None, evs, now, (if \<not> asFl then c\<lparr> tailFlusher := True \<rparr> else c, w))"
  | (tail) r evs' now' c' w' where "NagleBuf c \<noteq> []" "int (length (NagleBuf c)) < SendSegmentSize" "\<not> asFl"
      "force \<or> \<not> nagleHoldsTail c" "NagleBuf c' = []"
      "sendSegment send evs now ZeroWinProbeInitial 0 (NagleBuf c) (c\<lparr> NagleBuf := [] \<rparr>, w) = (r, evs', now', (c', w'))"
      "flushNagle send force asFl evs now (c, w) = (False, r, evs', now', (c', w'))"
  | (flusher) err c' w' where "NagleBuf c \<noteq> []" "int (length (NagleBuf c)) < SendSegmentSize" asFl
      "force \<or> \<not> nagleHoldsTail c" "NagleBuf c' = []"
      "transmitSegment send now (NagleBuf c) (c\<lparr> NagleBuf := [], tailFlusher := False \<rparr>, w) = (err, (c', w'))"
      "flushNagle send force asFl evs now (c, w) = (False, Returned err, evs, now, (c', w'))"
proof (cases "NagleBuf c = []")
  case True
  then show ?thesis by (rule empty) (simp add: flushNagle.simps True)
next
  case ne: False
  show ?thesis
  proof (cases "int (length (NagleBuf c)) \<ge> SendSegmentSize")
    case big: True
    show ?thesis
    proof (cases asFl)
      case True
      then show ?thesis using big ne by (intro left) (simp_all add: flushNagle.simps [of send force True])
    next
      case False
      define n where "n = nat SendSegmentSize"
      obtain r evs' now' c' w' where s: "sendSegment send evs now ZeroWinProbeInitial 0 (take n (NagleBuf c))
          (c\<lparr> NagleBuf := drop n (NagleBuf c) \<rparr>, w) = (r, evs', now', (c', w'))" by (metis prod.exhaust)
      have "NagleBuf c' = drop n (NagleBuf c)"
        using sendSegment_buf [of send evs now ZeroWinProbeInitial 0 "take n (NagleBuf c)"
          "c\<lparr> NagleBuf := drop n (NagleBuf c) \<rparr>" w] unfolding s by simp
      moreover have "n \<le> length (NagleBuf c)" using big by (simp add: n_def)
      ultimately show ?thesis
        using ne big False s
        by (intro full [OF n_def _ _ s])
          (simp_all add: flushNagle.simps [of send force False evs now c] n_def [symmetric] Let_def
            split: write_result.splits option.splits)
    qed
  next
    case small: False
    show ?thesis
    proof (cases "\<not> force \<and> nagleHoldsTail c")
      case True
      then show ?thesis using ne small by (intro held) (simp_all, (subst flushNagle.simps, simp)+)
    next
      case go: False
      show ?thesis
      proof (cases asFl)
        case True
        obtain err c' w' where t: "transmitSegment send now (NagleBuf c) (c\<lparr> NagleBuf := [], tailFlusher := False \<rparr>, w)
            = (err, (c', w'))" by (metis prod.exhaust)
        moreover have "NagleBuf c' = []"
          using transmitSegment_buf [of send now "NagleBuf c" "c\<lparr> NagleBuf := [], tailFlusher := False \<rparr>" w]
          unfolding t by simp
        moreover have "flushNagle send force asFl evs now (c, w) = (False, Returned err, evs, now, (c', w'))"
          by (subst flushNagle.simps) (use ne small go True t in \<open>simp add: Let_def\<close>)
        ultimately show ?thesis using ne small go True by (intro flusher [of c' err w']) simp_all
      next
        case False
        obtain r evs' now' c' w' where t: "sendSegment send evs now ZeroWinProbeInitial 0 (NagleBuf c)
            (c\<lparr> NagleBuf := [] \<rparr>, w) = (r, evs', now', (c', w'))" by (metis prod.exhaust)
        moreover have "NagleBuf c' = []"
          using sendSegment_buf [of send evs now ZeroWinProbeInitial 0 "NagleBuf c" "c\<lparr> NagleBuf := [] \<rparr>" w]
          unfolding t by simp
        moreover have "flushNagle send force asFl evs now (c, w) = (False, r, evs', now', (c', w'))"
          by (subst flushNagle.simps) (use ne small go False t in \<open>simp add: Let_def\<close>)
        ultimately show ?thesis using ne small go False by (intro tail [of c' r evs' now' w']) simp_all
      qed
    qed
  qed
qed

text \<open>An error leaves less to send, so retrying ends.\<close>

lemma flushNagle_shorter:
  "flushNagle send force asFl evs now (c, w) = (held, r, evs', now', (c', w')) \<Longrightarrow>
    length (NagleBuf c') \<le> length (NagleBuf c) \<and>
    (r \<noteq> Returned None \<longrightarrow> length (NagleBuf c') < length (NagleBuf c))"
proof (induction "length (NagleBuf c)" arbitrary: evs now c w rule: less_induct)
  case less
  show ?case
  proof (cases rule: flushNagle_cases [of c send force asFl evs now w])
    case (full n r1 evs1 now1 c1 w1)
    then have lt: "length (NagleBuf c1) < length (NagleBuf c)" by (simp add: SendSegmentSize_def)
    show ?thesis
    proof (cases "r1 = Returned None")
      case True
      then show ?thesis using less.hyps [OF lt] less.prems full(6) lt by fastforce
    qed (use less.prems full(6) lt in simp)
  qed (use less.prems in \<open>auto split: if_splits\<close>)
qed

section \<open>Writing\<close>

definition connEstablished :: "Connection \<Rightarrow> bool" where
  "connEstablished c \<longleftrightarrow> State c = StateEstablished"

definition sendDataPiece ::
    "link \<Rightarrow> bool \<Rightarrow> bytes \<Rightarrow> wait list \<Rightarrow> instant \<Rightarrow> wire \<Rightarrow> write_result \<times> wait list \<times> instant \<times> wire" where
  "sendDataPiece send tailNow data evs now cw =
    (case cw of (c, w) \<Rightarrow>
     if int (length (NagleBuf c)) + int (length data) > MaxNagleBuf then (Returned (Some ErrSendBufFull), evs, now, (c, w))
     else snd (flushNagle send tailNow False evs now (c\<lparr> NagleBuf := NagleBuf c @ data \<rparr>, w)))"

function drainAfterSendError ::
    "link \<Rightarrow> stream_error option \<Rightarrow> bool \<Rightarrow> wait list \<Rightarrow> instant \<Rightarrow> wire \<Rightarrow> write_result \<times> wait list \<times> instant \<times> wire" where
  "drainAfterSendError send err tailNow evs now (c, w) =
    (case err of None \<Rightarrow> (Returned None, evs, now, (c, w))
     | Some e \<Rightarrow>
       if e = ErrConnClosed \<or> e = ErrSendBufFull \<or> \<not> connEstablished c then (Returned (Some e), evs, now, (c, w))
       else case flushNagle send tailNow False evs now (c, w) of
         (_, Returned err', evs', now', cw') \<Rightarrow>
           (case err' of None \<Rightarrow> (Returned None, evs', now', cw')
            | Some e' \<Rightarrow> drainAfterSendError send (Some e') tailNow evs' now' cw')
       | (_, Blocked, rest) \<Rightarrow> (Blocked, rest))"
  by pat_completeness auto
termination
proof (relation "measure (\<lambda>(_, _, _, _, _, c, _). length (NagleBuf c))", goal_cases)
  case (2 send err tailNow evs now c w e held x res y err' evs' z now' cw' e')
  then show ?case
    using flushNagle_shorter [of send tailNow False evs now c w held "Returned (Some e')" evs' now' "fst cw'" "snd cw'"]
    by (cases cw') auto
qed simp

declare drainAfterSendError.simps [simp del]

text \<open>The loop over the pieces of a large write, and its last piece.\<close>

function send_pieces ::
    "link \<Rightarrow> bool \<Rightarrow> bytes \<Rightarrow> wait list \<Rightarrow> instant \<Rightarrow> wire \<Rightarrow> write_result \<times> wait list \<times> instant \<times> wire" where
  "send_pieces send tailNow data evs now cw =
    (let drained = (\<lambda>data. case sendDataPiece send tailNow data evs now cw of
         (Returned err, evs', now', cw') \<Rightarrow> drainAfterSendError send err tailNow evs' now' cw'
       | (Blocked, rest) \<Rightarrow> (Blocked, rest)) in
     if length data > nagleWritePiece then
       (case drained (take nagleWritePiece data) of
          (Returned None, evs', now', cw') \<Rightarrow>
            if \<not> connEstablished (fst cw') then (Returned (Some ErrConnClosed), evs', now', cw')
            else send_pieces send tailNow (drop nagleWritePiece data) evs' now' cw'
        | res \<Rightarrow> res)
     else drained data)"
  by pat_completeness auto
termination
  by (relation "measure (\<lambda>(_, _, data, _). length data)") (auto simp: nagleWritePiece_def SendSegmentSize_def)

declare send_pieces.simps [simp del]

function sendDataImmediate ::
    "link \<Rightarrow> bytes \<Rightarrow> wait list \<Rightarrow> instant \<Rightarrow> wire \<Rightarrow> write_result \<times> wait list \<times> instant \<times> wire" where
  "sendDataImmediate send data evs now cw =
    (if data = [] then (Returned None, evs, now, cw)
     else
       let n = nat SendSegmentSize in
       case sendSegment send evs now ZeroWinProbeInitial 0 (take n data) cw of
         (Returned None, evs', now', cw') \<Rightarrow> sendDataImmediate send (drop n data) evs' now' cw'
       | res \<Rightarrow> res)"
  by pat_completeness auto
termination
  by (relation "measure (\<lambda>(_, data, _). length data)") (auto simp: SendSegmentSize_def)

declare sendDataImmediate.simps [simp del]

text \<open>\<^verbatim>\<open>SendData\<close>; the second check of the state, once \<^verbatim>\<open>WriteMu\<close> is held, is the one here.\<close>

definition SendData ::
    "link \<Rightarrow> bytes \<Rightarrow> wait list \<Rightarrow> instant \<Rightarrow> wire \<Rightarrow> write_result \<times> wait list \<times> instant \<times> wire" where
  "SendData send data evs now cw =
    (if \<not> connEstablished (fst cw) then (Returned (Some ErrNotEstablished), evs, now, cw)
     else if NoDelay (fst cw) then sendDataImmediate send data evs now cw
     else send_pieces send (int (length data) \<ge> SendSegmentSize) data evs now cw)"

section \<open>Held remainders\<close>

datatype tail_event =
    NagleSignal instant "Connection \<Rightarrow> Connection"
  | NagleTimer instant "Connection \<Rightarrow> Connection"
  | RetxStopped

text \<open>
  The goroutine \<^verbatim>\<open>flushHeldTail\<close>. It holds no lock while it waits, so others may also write
  to the buffer. With no event left it is still waiting: \<open>False\<close>.
\<close>

fun flushHeldTail :: "link \<Rightarrow> bool \<Rightarrow> tail_event list \<Rightarrow> wire \<Rightarrow> bool \<times> wire" where
  "flushHeldTail send force [] cw = (False, cw)"
| "flushHeldTail send force (RetxStopped # evs) (c, w) = (True, (c\<lparr> tailFlusher := False \<rparr>, w))"
| "flushHeldTail send force (NagleSignal now f # evs) (c, w) =
    (case flushNagle send force True [] now ((f c)\<lparr> NagleCh := map_option (\<lambda>_. False) (NagleCh (f c)) \<rparr>, w) of
       (held, _, _, _, cw) \<Rightarrow> if \<not> held then (True, cw) else flushHeldTail send force evs cw)"
| "flushHeldTail send force (NagleTimer now f # evs) (c, w) =
    (case flushNagle send True True [] now (f c, w) of
       (held, _, _, _, cw) \<Rightarrow> if \<not> held then (True, cw) else flushHeldTail send True evs cw)"

fun transmit_all :: "link \<Rightarrow> instant \<Rightarrow> nat \<Rightarrow> bytes \<Rightarrow> wire \<Rightarrow> wire" where
  "transmit_all send now n tail cw =
    (if tail = [] \<or> n = 0 then cw
     else transmit_all send now n (drop n tail) (snd (transmitSegment send now (take n tail) cw)))"

text \<open>\<open>locked\<close>: one of the attempts to take \<^verbatim>\<open>SendMu\<close> succeeded.\<close>

definition sendHeldTailBeforeClose :: "link \<Rightarrow> bool \<Rightarrow> instant \<Rightarrow> wire \<Rightarrow> wire" where
  "sendHeldTailBeforeClose send locked now cw =
    (case cw of (c, w) \<Rightarrow>
     if State c \<noteq> StateEstablished then (c, w)
     else if \<not> locked then (c, w)
     else transmit_all send now (nat SendSegmentSize) (NagleBuf c) (c\<lparr> NagleBuf := [] \<rparr>, w))"

section \<open>Closing\<close>

text \<open>The FIN is tracked whether or not the tunnel took it.\<close>

definition sendFIN :: "instant \<Rightarrow> packet \<Rightarrow> wire \<Rightarrow> wire" where
  "sendFIN now fin cw =
    (case cw of (c, w) \<Rightarrow>
     (c\<lparr> Unacked := Unacked c @ [\<lparr> edata = [0], eseq = Seq fin, sentAt = now, origSentAt = now, attempts = 1,
         sacked = False, isFIN = True \<rparr>] \<rparr>, w @ [fin]))"

definition releaseHeldFIN :: "instant \<Rightarrow> wire \<Rightarrow> wire" where
  "releaseHeldFIN now cw =
    (case cw of (c, w) \<Rightarrow>
     let c1 = c\<lparr> heldFIN := None, finLingerTimer := None \<rparr> in
     case heldFIN c of None \<Rightarrow> (c1, w)
     | Some fin \<Rightarrow> if State c = StateTimeWait \<or> State c = StateClosed then (c1, w) else sendFIN now fin (c1, w))"

definition releaseHeldFINIfAcked :: "instant \<Rightarrow> wire \<Rightarrow> wire" where
  "releaseHeldFINIfAcked now cw =
    (if heldFIN (fst cw) \<noteq> None \<and> \<not> unackedHasData (fst cw) then releaseHeldFIN now cw else cw)"

definition stopFINHold :: "Connection \<Rightarrow> Connection" where
  "stopFINHold c = c\<lparr> finPending := False, finHoldTimer := None \<rparr>"

text \<open>
  \<^verbatim>\<open>CloseConnection\<close>. \<open>linger\<close> is \<^verbatim>\<open>d.finLinger\<close>, \<open>stopping\<close> the daemon's shutdown. The result
  says whether the event \<^verbatim>\<open>file.delivered\<close> is published (for the port \<open>dataExchange\<close>).
\<close>

definition CloseConnection ::
    "link \<Rightarrow> bool \<Rightarrow> bool \<Rightarrow> duration \<Rightarrow> u16 \<Rightarrow> instant \<Rightarrow> wire \<Rightarrow> bool \<times> wire" where
  "CloseConnection send locked stopping linger dataExchange now cw =
    (case sendHeldTailBeforeClose send locked now cw of (c, w) \<Rightarrow>
     let hold = (unackedHasData c \<and> \<not> stopping);
         open = (State c = StateEstablished);
         fin = stream_packet {FlagFIN} c (SendSeq c) 0 0 [];
         c1 = (if open then c\<lparr> SendSeq := SendSeq c + 1 \<rparr> else c);
         c2 = (if open \<and> hold then c1\<lparr> heldFIN := Some fin, finLingerTimer := Some (now + linger) \<rparr> else c1);
         cw3 = (if \<not> open then (c2, w)
                else if hold then releaseHeldFINIfAcked now (c2, w) else sendFIN now fin (c2, w));
         c4 = CloseRecvBuf (stopFINHold (fst cw3)) in
     (open \<and> RemotePort c = dataExchange,
      (c4\<lparr> ACKTimer := None, State := StateFinWait, LastActivity := now \<rparr>, snd cw3)))"

end
