(* ===== verification/Stream_Flow.thy ===== *)
theory Stream_Flow
  imports Stream_Send "HOL-Library.Sublist"
begin

text \<open>
  The bytes of a stream from the writer to the reader: what \<^verbatim>\<open>SendData\<close> puts on the wire is
  what was written, in order, with consecutive sequence numbers; with the receiver of
  \<open>Conn_Recv\<close> behind a network that loses, repeats and reorders packets, the reader gets a prefix
  of what was written.
\<close>

section \<open>What a writer sends\<close>

definition payloads :: "packet list \<Rightarrow> bytes" where
  "payloads w = concat (map Payload w)"

lemma payloads_simps [simp]: "payloads [] = []" "payloads (w @ w') = payloads w @ payloads w'"
  "payloads [pkt] = Payload pkt" "payloads (pkt # w) = Payload pkt @ payloads w"
  by (simp_all add: payloads_def)

text \<open>The packets with data carry consecutive sequence numbers from \<open>b\<close> on.\<close>

fun in_sequence :: "u32 \<Rightarrow> packet list \<Rightarrow> bool" where
  "in_sequence b [] = True"
| "in_sequence b (pkt # w) \<longleftrightarrow> (Payload pkt \<noteq> [] \<longrightarrow> Seq pkt = b) \<and> in_sequence (b + of_nat (length (Payload pkt))) w"

lemma in_sequence_append:
  "in_sequence b (w @ w') \<longleftrightarrow> in_sequence b w \<and> in_sequence (b + of_nat (length (payloads w))) w'"
  by (induction b w rule: in_sequence.induct) (simp_all add: ac_simps)

text \<open>
  What is outstanding, and what the data packets of \<open>v\<close> make outstanding: sequence number, data
  and whether it is a FIN.
\<close>

type_synonym key = "u32 \<times> bytes \<times> bool"

definition keys :: "Connection \<Rightarrow> key set" where
  "keys c = ekey ` set (Unacked c)"

definition data_keys :: "packet list \<Rightarrow> key set" where
  "data_keys v = (\<lambda>p. (Seq p, Payload p, False)) ` {p \<in> set v. Payload p \<noteq> []}"

lemma data_keys_simps [simp]: "data_keys [] = {}" "data_keys (v @ v') = data_keys v \<union> data_keys v'"
  "Payload p = [] \<Longrightarrow> data_keys (p # v) = data_keys v"
  by (auto simp: data_keys_def)

definition in_segments :: "packet list \<Rightarrow> bool" where
  "in_segments v \<longleftrightarrow> (\<forall>p\<in>set v. length (Payload p) \<le> nat SendSegmentSize)"

text \<open>
  Other goroutines acknowledge, resend, deliver or close, but do not send new data, and take off
  the list only what satisfies \<open>ok\<close>.
\<close>

definition calm :: "(key \<Rightarrow> bool) \<Rightarrow> Connection \<Rightarrow> Connection \<Rightarrow> bool" where
  "calm ok c c' \<longleftrightarrow> SendSeq c' = SendSeq c \<and> NoDelay c' = NoDelay c \<and> keys c' \<subseteq> keys c \<and> keys c - keys c' \<subseteq> Collect ok"

definition quiet :: "(key \<Rightarrow> bool) \<Rightarrow> (Connection \<Rightarrow> Connection) \<Rightarrow> bool" where
  "quiet ok f \<longleftrightarrow> (\<forall>c. calm ok c (f c))"

fun wait_quiet :: "(key \<Rightarrow> bool) \<Rightarrow> wait \<Rightarrow> bool" where
  "wait_quiet ok (WindowSignal now f) = quiet ok f"
| "wait_quiet ok (ProbeTimer now f) = quiet ok f"
| "wait_quiet ok StopClosed = True"

text \<open>
  \<open>sends ok c w c' w' d\<close>: between the two states the bytes \<open>d\<close> went out, in order and in segments,
  and are outstanding.
\<close>

definition sends ::
    "(key \<Rightarrow> bool) \<Rightarrow> Connection \<Rightarrow> packet list \<Rightarrow> Connection \<Rightarrow> packet list \<Rightarrow> bytes \<Rightarrow> bool" where
  "sends ok c w c' w' d \<longleftrightarrow> (\<exists>v. w' = w @ v \<and> payloads v = d \<and> in_sequence (SendSeq c) v \<and> in_segments v \<and>
    SendSeq c' = SendSeq c + of_nat (length d) \<and> NoDelay c' = NoDelay c \<and> keys c' \<subseteq> keys c \<union> data_keys v \<and>
    (keys c \<union> data_keys v) - keys c' \<subseteq> Collect ok)"

lemma calm_same [simp, intro]: "\<lbrakk> SendSeq c' = SendSeq c; NoDelay c' = NoDelay c; Unacked c' = Unacked c \<rbrakk> \<Longrightarrow> calm ok c c'"
  by (simp add: calm_def keys_def)

lemma sends_calm: "calm ok c c' \<Longrightarrow> sends ok c w c' w []"
  by (auto simp: sends_def calm_def in_segments_def)

lemmas sends_refl = sends_calm [OF calm_same]

lemma sends_trans: "\<lbrakk> sends ok c w c1 w1 d; sends ok c1 w1 c2 w2 e \<rbrakk> \<Longrightarrow> sends ok c w c2 w2 (d @ e)"
proof -
  assume "sends ok c w c1 w1 d" and "sends ok c1 w1 c2 w2 e"
  then obtain v v' where "w1 = w @ v" "payloads v = d" "in_sequence (SendSeq c) v" "in_segments v"
      "SendSeq c1 = SendSeq c + of_nat (length d)" "NoDelay c1 = NoDelay c" "keys c1 \<subseteq> keys c \<union> data_keys v"
      "(keys c \<union> data_keys v) - keys c1 \<subseteq> Collect ok"
    and "w2 = w1 @ v'" "payloads v' = e" "in_sequence (SendSeq c1) v'" "in_segments v'"
      "SendSeq c2 = SendSeq c1 + of_nat (length e)" "NoDelay c2 = NoDelay c1" "keys c2 \<subseteq> keys c1 \<union> data_keys v'"
      "(keys c1 \<union> data_keys v') - keys c2 \<subseteq> Collect ok"
    unfolding sends_def by blast
  then show ?thesis
    unfolding sends_def
    by (intro exI [of _ "v @ v'"] conjI) (auto simp: in_sequence_append in_segments_def)
qed

lemma sends_empty: "\<lbrakk> Payload pkt = []; calm ok c c' \<rbrakk> \<Longrightarrow> sends ok c w c' (w @ [pkt]) []"
  by (auto simp: sends_def calm_def in_segments_def)

lemma sends_upd [simp]:
  "sends ok (c\<lparr> NagleBuf := b \<rparr>) w c' w' d = sends ok c w c' w' d"
  "sends ok (c\<lparr> NagleBuf := b, tailFlusher := t \<rparr>) w c' w' d = sends ok c w c' w' d"
  by (simp_all add: sends_def keys_def)

lemma transmitSegment_sends:
  assumes "transmitSegment send now data (c, w) = (err, (c', w'))" and "data \<noteq> []"
    and "length data \<le> nat SendSegmentSize"
  shows "sends ok c w c' w' data" and "err \<in> {None, Some ErrTunnelSend}" and "NagleBuf c' = NagleBuf c"
    and "State c' = State c"
proof -
  define pkt where "pkt = stream_packet {FlagACK} (c\<lparr> SendSeq := SendSeq c + of_nat (length data) \<rparr>) (SendSeq c)
    (RecvAck c) (RecvWindow (c\<lparr> SendSeq := SendSeq c + of_nat (length data) \<rparr>)) data"
  have "keys c' = insert (SendSeq c, data, False) (keys c)" "SendSeq c' = SendSeq c + of_nat (length data)"
      "NoDelay c' = NoDelay c" "w' = w @ [pkt]"
    using assms by (auto simp: transmitSegment_def pkt_def TrackSend_def keys_def ekey_def stream_packet_def Let_def
        split: if_splits)
  moreover have "Payload pkt = data" "Seq pkt = SendSeq c" by (simp_all add: pkt_def stream_packet_def)
  ultimately show "sends ok c w c' w' data"
    unfolding sends_def using assms(2,3) by (intro exI [of _ "[pkt]"]) (auto simp: in_segments_def data_keys_def)
  show "err \<in> {None, Some ErrTunnelSend}" "NagleBuf c' = NagleBuf c" "State c' = State c"
    using assms by (auto simp: transmitSegment_def TrackSend_def Let_def split: if_splits)
qed

lemma sendSegment_sends:
  assumes "sendSegment send evs now iv n data (c, w) = (r, evs', now', (c', w'))" and "list_all (wait_quiet ok) evs"
    and data: "data \<noteq> []" "length data \<le> nat SendSegmentSize"
  shows "list_all (wait_quiet ok) evs' \<and>
    (if r = Returned None \<or> r = Returned (Some ErrTunnelSend) then sends ok c w c' w' data
     else (r = Blocked \<or> r = Returned (Some ErrConnClosed)) \<and> sends ok c w c' w' [])"
  using assms(1,2)
proof (induction evs arbitrary: now iv n c w)
  case Nil
  show ?case
  proof (cases "WindowAvailable c")
    case True
    with Nil show ?thesis
      by (auto simp: sendSegment_open split: prod.splits dest: transmitSegment_sends [OF _ data])
  next
    case False
    with Nil show ?thesis by (auto simp: sendSegment_full sends_refl)
  qed
next
  case (Cons ev evs)
  show ?case
  proof (cases "WindowAvailable c")
    case True
    with Cons.prems show ?thesis
      by (auto simp: sendSegment_open split: prod.splits dest: transmitSegment_sends [OF _ data])
  next
    case False
    note eq = sendSegment_full [OF False, of send]
    show ?thesis
    proof (cases ev)
      case (WindowSignal now1 f)
      let ?c1 = "(others f c)\<lparr> WindowCh := map_option (\<lambda>_. False) (WindowCh (others f c)) \<rparr>"
      have q: "calm ok c ?c1" using Cons.prems(2) WindowSignal by (simp add: others_def quiet_def calm_def keys_def)
      show ?thesis
        using Cons.IH [of now1 ZeroWinProbeInitial 0 ?c1 w] Cons.prems WindowSignal eq(3) sends_trans [OF sends_calm [OF q]]
        by (auto split: if_splits)
    next
      case (ProbeTimer now1 f)
      let ?c1 = "others f c"
      let ?w1 = "w @ [stream_packet {FlagACK} ?c1 (SendSeq ?c1) (RecvAck ?c1) (RecvWindow ?c1) []]"
      have q: "calm ok c ?c1" using Cons.prems(2) ProbeTimer by (simp add: others_def quiet_def calm_def keys_def)
      have p: "sends ok c w ?c1 ?w1 []" by (rule sends_empty) (simp_all add: stream_packet_def q)
      show ?thesis
      proof (cases "Suc n \<ge> MaxZeroWindowProbes")
        case True
        have "sends ok ?c1 ?w1 (?c1\<lparr> State := StateClosed \<rparr>) (?w1 @ [stream_packet {FlagRST} ?c1 0 0 0 []]) []"
          by (rule sends_empty) (simp_all add: stream_packet_def)
        with True Cons.prems ProbeTimer eq(4) sends_trans [OF p] show ?thesis by (auto simp: Let_def)
      next
        case False
        then show ?thesis
          using Cons.IH [of now1 _ "Suc n" ?c1 ?w1] Cons.prems ProbeTimer eq(4) sends_trans [OF p]
          by (simp add: Let_def split: if_splits)
      qed
    next
      case StopClosed
      then show ?thesis using Cons.prems eq(2) by (auto simp: sends_refl)
    qed
  qed
qed

text \<open>
  The outcome of a flush of the buffer \<open>buf\<close>: the bytes \<open>d\<close> sent are a prefix of it, and unless
  the writer waits or the connection is gone the rest is still in the buffer.
\<close>

definition flushed :: "(key \<Rightarrow> bool) \<Rightarrow> bytes \<Rightarrow> Connection \<Rightarrow> packet list \<Rightarrow> write_result \<Rightarrow> Connection \<Rightarrow> packet list \<Rightarrow> bool" where
  "flushed ok buf c w r c' w' \<longleftrightarrow> (\<exists>d. sends ok c w c' w' d \<and> prefix d buf \<and>
    (r = Returned None \<or> r = Returned (Some ErrTunnelSend) \<longrightarrow> d @ NagleBuf c' = buf))"

lemma flushed_sent:
  assumes "sends ok c w c' w' d"
  shows "d @ NagleBuf c' = buf \<Longrightarrow> flushed ok buf c w r c' w'"
    and "\<lbrakk> prefix d buf; r \<noteq> Returned None; r \<noteq> Returned (Some ErrTunnelSend) \<rbrakk> \<Longrightarrow> flushed ok buf c w r c' w'"
  unfolding flushed_def using assms by (blast intro: prefixI [OF sym])+

lemma flushed_after:
  assumes "sends ok c w c1 w1 d" and "flushed ok buf c1 w1 r c' w'"
  shows "flushed ok (d @ buf) c w r c' w'"
proof -
  from assms(2) obtain e where e: "sends ok c1 w1 c' w' e" "prefix e buf"
      "r = Returned None \<or> r = Returned (Some ErrTunnelSend) \<longrightarrow> e @ NagleBuf c' = buf" by (auto simp: flushed_def)
  show ?thesis
    unfolding flushed_def using sends_trans [OF assms(1) e(1)] e(2,3) by (intro exI [of _ "d @ e"]) auto
qed

lemma flushed_cong: "\<lbrakk> SendSeq c1 = SendSeq c; NoDelay c1 = NoDelay c; Unacked c1 = Unacked c \<rbrakk> \<Longrightarrow> flushed ok buf c1 w r c' w' = flushed ok buf c w r c' w'"
  by (simp add: flushed_def sends_def keys_def)

lemma flushNagle_flushed:
  assumes "flushNagle send force asFl evs now (c, w) = (held, r, evs', now', (c', w'))" and "list_all (wait_quiet ok) evs"
  shows "list_all (wait_quiet ok) evs' \<and> flushed ok (NagleBuf c) c w r c' w' \<and>
    r \<in> {Blocked, Returned None, Returned (Some ErrTunnelSend), Returned (Some ErrConnClosed)}"
  using assms
proof (induction "length (NagleBuf c)" arbitrary: evs now c w rule: less_induct)
  case less
  show ?case
  proof (cases rule: flushNagle_cases [of c send force asFl evs now w])
    case (full n r1 evs1 now1 c1 w1)
    let ?d = "take n (NagleBuf c)"
    have lt: "length (NagleBuf c1) < length (NagleBuf c)" using full(1,2,5) by (simp add: SendSegmentSize_def)
    have buf: "?d @ NagleBuf c1 = NagleBuf c" using full(5) by simp
    have seg: "?d \<noteq> []" "length ?d \<le> nat SendSegmentSize" using full(1,2) by (auto simp: SendSegmentSize_def)
    note S = sendSegment_sends [OF full(4) less.prems(2) seg, unfolded sends_upd]
    show ?thesis
    proof (cases "r1 = Returned None")
      case True
      with S have s1: "sends ok c w c1 w1 ?d" and q1: "list_all (wait_quiet ok) evs1" by simp_all
      from less.hyps [OF lt _ q1] full(6) True less.prems(1)
      show ?thesis using flushed_after [OF s1, of "NagleBuf c1"] buf by simp
    next
      case False
      then have "(held, r, evs', now', (c', w')) = (False, r1, evs1, now1, (c1, w1))" using full(6) less.prems(1) by simp
      then show ?thesis
        using S False buf flushed_sent [of ok c w c1 w1 "?d" "NagleBuf c" r1] flushed_sent(2) [of ok c w c1 w1 "[]" "NagleBuf c" r1]
        by (auto split: if_splits)
    qed
  next
    case (tail r1 evs1 now1 c1 w1)
    have seg: "length (NagleBuf c) \<le> nat SendSegmentSize" using tail(2) by simp
    note S = sendSegment_sends [OF tail(6) less.prems(2) tail(1) seg, unfolded sends_upd]
    have "(held, r, evs', now', (c', w')) = (False, r1, evs1, now1, (c1, w1))" using tail(7) less.prems(1) by simp
    then show ?thesis
      using S tail(5) flushed_sent [of ok c w c1 w1 "NagleBuf c" "NagleBuf c" r1]
        flushed_sent(2) [of ok c w c1 w1 "[]" "NagleBuf c" r1]
      by (auto split: if_splits)
  next
    case (flusher err c1 w1)
    have seg: "length (NagleBuf c) \<le> nat SendSegmentSize" using flusher(2) by simp
    note S = transmitSegment_sends [OF flusher(6,1) seg, unfolded sends_upd]
    have "(held, r, evs', now', (c', w')) = (False, Returned err, evs, now, (c1, w1))" using flusher(7) less.prems(1) by simp
    then show ?thesis
      using S flusher(5) flushed_sent(1) [of ok c w c1 w1 "NagleBuf c" "NagleBuf c" "Returned err"] less.prems(2) by auto
  qed (use less.prems flushed_sent(1) [of ok c w _ w "[]", OF sends_refl] in \<open>auto split: if_splits\<close>)
qed

lemma drain_flushed:
  assumes "drainAfterSendError send err tailNow evs now (c, w) = (r, evs', now', (c', w'))" and "list_all (wait_quiet ok) evs"
  shows "list_all (wait_quiet ok) evs' \<and> flushed ok (NagleBuf c) c w r c' w' \<and> (err = None \<longrightarrow> r = Returned None)"
  using assms
proof (induction "length (NagleBuf c)" arbitrary: err evs now c w rule: less_induct)
  case less
  have stay: "flushed ok (NagleBuf c) c w r c w" for r by (rule flushed_sent(1) [OF sends_refl]) simp_all
  show ?case
  proof (cases "\<exists>e. err = Some e \<and> \<not> (e = ErrConnClosed \<or> e = ErrSendBufFull \<or> \<not> connEstablished c)")
    case False
    then show ?thesis
      using less.prems stay by (auto simp: drainAfterSendError.simps split: option.splits if_splits)
  next
    case True
    then obtain e where e: "err = Some e" "e \<noteq> ErrConnClosed" "e \<noteq> ErrSendBufFull" "connEstablished c" by auto
    obtain held r1 evs1 now1 c1 w1 where f: "flushNagle send tailNow False evs now (c, w) = (held, r1, evs1, now1, (c1, w1))"
      by (metis prod.exhaust)
    note F = flushNagle_flushed [OF f less.prems(2)]
    have eq: "drainAfterSendError send err tailNow evs now (c, w) =
        (case r1 of Blocked \<Rightarrow> (Blocked, evs1, now1, (c1, w1))
         | Returned None \<Rightarrow> (Returned None, evs1, now1, (c1, w1))
         | Returned (Some e') \<Rightarrow> drainAfterSendError send (Some e') tailNow evs1 now1 (c1, w1))"
      by (subst drainAfterSendError.simps) (simp add: e f split: write_result.splits option.splits)
    show ?thesis
    proof (cases "\<exists>e'. r1 = Returned (Some e')")
      case True
      then obtain e' where e': "r1 = Returned (Some e')" by blast
      have lt: "length (NagleBuf c1) < length (NagleBuf c)" using flushNagle_shorter [OF f] e' by simp
      from F obtain d where d: "sends ok c w c1 w1 d" "prefix d (NagleBuf c)"
          "e' = ErrTunnelSend \<longrightarrow> d @ NagleBuf c1 = NagleBuf c" by (auto simp: flushed_def e')
      from less.hyps [OF lt, of "Some e'" evs1 now1 w1] less.prems(1) F eq e'
      have I: "list_all (wait_quiet ok) evs'" "flushed ok (NagleBuf c1) c1 w1 r c' w'" by auto
      show ?thesis
      proof (cases "e' = ErrTunnelSend")
        case True
        then show ?thesis using flushed_after [OF d(1) I(2)] d(3) I(1) e(1) by simp
      next
        case False
        then have "e' = ErrConnClosed" using F e' by auto
        then have "(r, evs', now', (c', w')) = (Returned (Some ErrConnClosed), evs1, now1, (c1, w1))"
          using less.prems(1) eq e' by (simp add: drainAfterSendError.simps)
        then show ?thesis using F e' e(1) False by (auto simp: \<open>e' = ErrConnClosed\<close>)
      qed
    next
      case False
      then show ?thesis using less.prems(1) F eq e(1) by (auto split: write_result.splits option.splits)
    qed
  qed
qed

text \<open>The outcome of a write: \<open>buf\<close> is what was in the buffer and what was written.\<close>

definition wrote :: "(key \<Rightarrow> bool) \<Rightarrow> bytes \<Rightarrow> Connection \<Rightarrow> packet list \<Rightarrow> write_result \<Rightarrow> Connection \<Rightarrow> packet list \<Rightarrow> bool" where
  "wrote ok buf c w r c' w' \<longleftrightarrow> (\<exists>d. sends ok c w c' w' d \<and> prefix d buf \<and> (r = Returned None \<longrightarrow> d @ NagleBuf c' = buf))"

lemma flushed_wrote: "flushed ok buf c w r c' w' \<Longrightarrow> wrote ok buf c w r c' w'"
  by (auto simp: flushed_def wrote_def)

lemma wrote_after: "\<lbrakk> sends ok c w c1 w1 d; wrote ok buf c1 w1 r c' w' \<rbrakk> \<Longrightarrow> wrote ok (d @ buf) c w r c' w'"
  unfolding wrote_def using sends_trans by (metis append.assoc same_prefix_prefix)

lemma wrote_prefix: "\<lbrakk> wrote ok buf c w r c' w'; prefix buf buf'; r \<noteq> Returned None \<rbrakk> \<Longrightarrow> wrote ok buf' c w r c' w'"
  unfolding wrote_def by (metis prefix_order.trans)

text \<open>One piece with the draining after an error.\<close>

definition drained_piece ::
    "link \<Rightarrow> bool \<Rightarrow> bytes \<Rightarrow> wait list \<Rightarrow> instant \<Rightarrow> wire \<Rightarrow> write_result \<times> wait list \<times> instant \<times> wire" where
  "drained_piece send tailNow data evs now cw =
    (case sendDataPiece send tailNow data evs now cw of
       (Returned err, evs', now', cw') \<Rightarrow> drainAfterSendError send err tailNow evs' now' cw'
     | (Blocked, rest) \<Rightarrow> (Blocked, rest))"

lemma drained_piece_wrote:
  assumes "drained_piece send tailNow data evs now (c, w) = (r, evs', now', (c', w'))" and "list_all (wait_quiet ok) evs"
  shows "list_all (wait_quiet ok) evs' \<and> wrote ok (NagleBuf c @ data) c w r c' w'"
proof (cases "int (length (NagleBuf c)) + int (length data) > MaxNagleBuf")
  case True
  then have "drained_piece send tailNow data evs now (c, w) = (Returned (Some ErrSendBufFull), evs, now, (c, w))"
    by (simp add: drained_piece_def sendDataPiece_def drainAfterSendError.simps)
  then show ?thesis using assms by (auto simp: wrote_def intro: exI [of _ "[]"] sends_refl)
next
  case False
  let ?c = "c\<lparr> NagleBuf := NagleBuf c @ data \<rparr>"
  obtain held r1 evs1 now1 c1 w1 where f: "flushNagle send tailNow False evs now (?c, w) = (held, r1, evs1, now1, (c1, w1))"
    by (metis prod.exhaust)
  note F = flushNagle_flushed [OF f assms(2)]
  have fl: "flushed ok (NagleBuf c @ data) c w r1 c1 w1" using F flushed_cong [of ?c c ok] by simp
  have eq: "drained_piece send tailNow data evs now (c, w) =
      (case r1 of Returned err \<Rightarrow> drainAfterSendError send err tailNow evs1 now1 (c1, w1) | Blocked \<Rightarrow> (Blocked, evs1, now1, (c1, w1)))"
    using False by (simp add: drained_piece_def sendDataPiece_def f split: write_result.splits)
  show ?thesis
  proof (cases "r1 = Returned None \<or> r1 = Returned (Some ErrTunnelSend)")
    case True
    then obtain err where r1: "r1 = Returned err" by auto
    from fl True obtain d where d: "sends ok c w c1 w1 d" "d @ NagleBuf c1 = NagleBuf c @ data" by (auto simp: flushed_def)
    have dr: "drainAfterSendError send err tailNow evs1 now1 (c1, w1) = (r, evs', now', (c', w'))"
      using assms(1) eq r1 by simp
    from drain_flushed [OF dr] F have "list_all (wait_quiet ok) evs'" "flushed ok (NagleBuf c1) c1 w1 r c' w'" by auto
    then show ?thesis using wrote_after [OF d(1) flushed_wrote] d(2) by metis
  next
    case False
    then have "r1 = Blocked \<or> r1 = Returned (Some ErrConnClosed)" using F by auto
    then have "(r, evs', now', (c', w')) = (r1, evs1, now1, (c1, w1))"
      using assms(1) eq by (auto simp: drainAfterSendError.simps)
    then show ?thesis using flushed_wrote [OF fl] F by simp
  qed
qed

lemma send_pieces_eq:
  "send_pieces send tailNow data evs now cw =
    (if length data > nagleWritePiece then
       (case drained_piece send tailNow (take nagleWritePiece data) evs now cw of
          (Returned None, evs', now', cw') \<Rightarrow>
            if \<not> connEstablished (fst cw') then (Returned (Some ErrConnClosed), evs', now', cw')
            else send_pieces send tailNow (drop nagleWritePiece data) evs' now' cw'
        | res \<Rightarrow> res)
     else drained_piece send tailNow data evs now cw)"
  by (subst send_pieces.simps) (simp add: drained_piece_def Let_def)

lemma send_pieces_wrote:
  assumes "send_pieces send tailNow data evs now (c, w) = (r, evs', now', (c', w'))" and "list_all (wait_quiet ok) evs"
  shows "list_all (wait_quiet ok) evs' \<and> wrote ok (NagleBuf c @ data) c w r c' w'"
  using assms
proof (induction "length data" arbitrary: data evs now c w rule: less_induct)
  case less
  show ?case
  proof (cases "length data > nagleWritePiece")
    case False
    then show ?thesis using less.prems drained_piece_wrote by (simp add: send_pieces_eq)
  next
    case True
    let ?p = "take nagleWritePiece data" and ?q = "drop nagleWritePiece data"
    obtain r1 evs1 now1 c1 w1 where f: "drained_piece send tailNow ?p evs now (c, w) = (r1, evs1, now1, (c1, w1))"
      by (metis prod.exhaust)
    note F = drained_piece_wrote [OF f less.prems(2)]
    have eq: "send_pieces send tailNow data evs now (c, w) = (if r1 = Returned None then
          (if \<not> connEstablished c1 then (Returned (Some ErrConnClosed), evs1, now1, (c1, w1))
           else send_pieces send tailNow ?q evs1 now1 (c1, w1)) else (r1, evs1, now1, (c1, w1)))"
      using True by (subst send_pieces_eq) (simp add: f split: write_result.splits option.splits)
    show ?thesis
    proof (cases "r1 = Returned None \<and> connEstablished c1")
      case go: True
      with F obtain d where d: "sends ok c w c1 w1 d" "d @ NagleBuf c1 = NagleBuf c @ ?p" by (auto simp: wrote_def)
      have lt: "length ?q < length data" using True by (simp add: nagleWritePiece_def SendSegmentSize_def)
      have "send_pieces send tailNow ?q evs1 now1 (c1, w1) = (r, evs', now', (c', w'))" using less.prems(1) eq go by simp
      from less.hyps [OF lt this] F have I: "list_all (wait_quiet ok) evs'" "wrote ok (NagleBuf c1 @ ?q) c1 w1 r c' w'" by auto
      have "d @ NagleBuf c1 @ ?q = NagleBuf c @ data" using d(2) by (metis append.assoc append_take_drop_id)
      then show ?thesis using wrote_after [OF d(1) I(2)] I(1) by simp
    next
      case False
      then have res: "evs' = evs1" "c' = c1" "w' = w1" "r \<noteq> Returned None"
        using less.prems(1) eq by (auto split: if_splits)
      from F obtain d where "sends ok c w c1 w1 d" "prefix d (NagleBuf c @ ?p)" by (auto simp: wrote_def)
      moreover have "prefix (NagleBuf c @ ?p) (NagleBuf c @ data)" by (simp add: take_is_prefix)
      ultimately have "\<exists>d. sends ok c w c1 w1 d \<and> prefix d (NagleBuf c @ data)" by (meson prefix_order.trans)
      then show ?thesis using F res by (simp add: wrote_def)
    qed
  qed
qed

lemma sendDataImmediate_wrote:
  assumes "sendDataImmediate send data evs now (c, w) = (r, evs', now', (c', w'))" and "list_all (wait_quiet ok) evs"
    and "NagleBuf c = []"
  shows "list_all (wait_quiet ok) evs' \<and> wrote ok data c w r c' w' \<and> NagleBuf c' = []"
  using assms
proof (induction "length data" arbitrary: data evs now c w rule: less_induct)
  case less
  show ?case
  proof (cases "data = []")
    case True
    then show ?thesis
      using less.prems by (auto simp: sendDataImmediate.simps wrote_def intro: sends_refl)
  next
    case False
    define n where "n = nat SendSegmentSize"
    obtain r1 evs1 now1 c1 w1 where f: "sendSegment send evs now ZeroWinProbeInitial 0 (take n data) (c, w) = (r1, evs1, now1, (c1, w1))"
      by (metis prod.exhaust)
    have seg: "take n data \<noteq> []" "length (take n data) \<le> nat SendSegmentSize"
      using False by (auto simp: n_def SendSegmentSize_def)
    note S = sendSegment_sends [OF f less.prems(2) seg]
    have buf: "NagleBuf c1 = []" using sendSegment_buf [of send evs now ZeroWinProbeInitial 0 "take n data" c w] less.prems(3) f by simp
    have eq: "sendDataImmediate send data evs now (c, w) =
        (if r1 = Returned None then sendDataImmediate send (drop n data) evs1 now1 (c1, w1) else (r1, evs1, now1, (c1, w1)))"
      using False by (subst sendDataImmediate.simps) (simp add: n_def [symmetric] f Let_def split: write_result.splits option.splits)
    show ?thesis
    proof (cases "r1 = Returned None")
      case True
      have lt: "length (drop n data) < length data" using False by (simp add: n_def SendSegmentSize_def)
      have "sendDataImmediate send (drop n data) evs1 now1 (c1, w1) = (r, evs', now', (c', w'))" using less.prems(1) eq True by simp
      from less.hyps [OF lt this _ buf] S True have I: "list_all (wait_quiet ok) evs'" "wrote ok (drop n data) c1 w1 r c' w'" "NagleBuf c' = []" by auto
      moreover have "sends ok c w c1 w1 (take n data)" using S True by simp
      ultimately show ?thesis using wrote_after by (metis append_take_drop_id)
    next
      case False
      then have res: "r = r1" "evs' = evs1" "c' = c1" "w' = w1" using less.prems(1) eq by auto
      have "\<exists>d. sends ok c w c1 w1 d \<and> prefix d data"
        using S False by (auto split: if_splits intro: take_is_prefix)
      then show ?thesis using S res False buf by (auto simp: wrote_def)
    qed
  qed
qed

lemma SendData_wrote:
  assumes "SendData send data evs now (c, w) = (r, evs', now', (c', w'))" and "list_all (wait_quiet ok) evs"
    and "NoDelay c \<longrightarrow> NagleBuf c = []"
  shows "list_all (wait_quiet ok) evs' \<and> wrote ok (NagleBuf c @ data) c w r c' w' \<and> (NoDelay c' \<longrightarrow> NagleBuf c' = [])"
proof (cases "connEstablished c")
  case False
  then show ?thesis
    using assms by (auto simp: SendData_def wrote_def intro: exI [of _ "[]"] sends_refl)
next
  case True
  show ?thesis
  proof (cases "NoDelay c")
    case nd: True
    then show ?thesis
      using assms True sendDataImmediate_wrote [of send data evs now c w r evs' now' c' w' ok] by (simp add: SendData_def)
  next
    case False
    then have "list_all (wait_quiet ok) evs' \<and> wrote ok (NagleBuf c @ data) c w r c' w'"
      using assms True send_pieces_wrote [OF _ assms(2)] by (simp add: SendData_def)
    moreover from this have "NoDelay c' = NoDelay c" by (auto simp: wrote_def sends_def)
    ultimately show ?thesis using False by simp
  qed
qed

lemma transmit_all_sends:
  assumes "0 < n" and "transmit_all send now n tail (c, w) = (c', w')" and "n \<le> nat SendSegmentSize"
  shows "sends ok c w c' w' tail \<and> NagleBuf c' = NagleBuf c \<and> State c' = State c"
  using assms
proof (induction "length tail" arbitrary: tail c w rule: less_induct)
  case less
  show ?case
  proof (cases "tail = []")
    case True
    then show ?thesis using less.prems by (simp add: sends_refl)
  next
    case False
    obtain err c1 w1 where t: "transmitSegment send now (take n tail) (c, w) = (err, (c1, w1))" by (metis prod.exhaust)
    have lt: "length (drop n tail) < length tail" using False less.prems(1) by simp
    have "transmit_all send now n (drop n tail) (c1, w1) = (c', w')"
      using less.prems False by (simp add: t)
    note I = less.hyps [OF lt less.prems(1) this less.prems(3)]
    have "take n tail \<noteq> []" "length (take n tail) \<le> nat SendSegmentSize" using False less.prems by auto
    from I transmitSegment_sends [OF t this]
    show ?thesis using sends_trans [of ok c w c1 w1 "take n tail" c' w' "drop n tail"] by simp
  qed
qed

lemma sendHeldTailBeforeClose_sends:
  assumes "sendHeldTailBeforeClose send locked now (c, w) = (c', w')"
  shows "\<exists>d. sends ok c w c' w' d \<and> d @ NagleBuf c' = NagleBuf c \<and> State c' = State c \<and>
    (State c = StateEstablished \<and> locked \<longrightarrow> d = NagleBuf c)"
proof (cases "State c = StateEstablished \<and> locked")
  case True
  then have "transmit_all send now (nat SendSegmentSize) (NagleBuf c) (c\<lparr> NagleBuf := [] \<rparr>, w) = (c', w')"
    using assms by (simp add: sendHeldTailBeforeClose_def)
  from transmit_all_sends [OF _ this] show ?thesis by (auto simp: SendSegmentSize_def)
next
  case False
  then have "c' = c" "w' = w" using assms by (auto simp: sendHeldTailBeforeClose_def split: if_splits)
  then show ?thesis using False by (auto simp: sends_refl intro: exI [of _ "[]"])
qed

section \<open>Segments that can arrive\<close>

text \<open>
  A packet of the stream \<open>f\<close>: data written at some offset below \<open>n\<close>, with the sequence number
  that belongs there.
\<close>

definition stream_data :: "(nat \<Rightarrow> u8) \<Rightarrow> u32 \<Rightarrow> nat \<Rightarrow> u32 \<Rightarrow> bytes \<Rightarrow> bool" where
  "stream_data f b n sq data \<longleftrightarrow> (\<exists>off m. sq = b + of_nat off \<and> data = map f [off..<m] \<and> off \<le> m \<and> m \<le> n)"

lemma map_upt_split:
  assumes "xs @ ys = map f [k..<m]" and "k \<le> m"
  shows "xs = map f [k..<k + length xs]" and "ys = map f [k + length xs..<m]" and "k + length xs \<le> m"
proof -
  have "length xs + length ys = m - k" using arg_cong [OF assms(1), of length] by simp
  then show le: "k + length xs \<le> m" using assms(2) by simp
  have "[k..<m] = [k..<k + length xs] @ [k + length xs..<m]"
    using le upt_add_eq_append [of k "k + length xs" "m - (k + length xs)"] by simp
  then have "xs @ ys = map f [k..<k + length xs] @ map f [k + length xs..<m]" using assms(1) by simp
  then show "xs = map f [k..<k + length xs]" "ys = map f [k + length xs..<m]" by (auto simp: append_eq_append_conv)
qed

lemma in_sequence_data:
  assumes "in_sequence b' v" and "b' = b + of_nat k" and "payloads v = map f [k..<m]" and "k \<le> m" and "m \<le> n"
    and "pkt \<in> set v" and "Payload pkt \<noteq> []"
  shows "stream_data f b n (Seq pkt) (Payload pkt)"
  using assms
proof (induction b' v arbitrary: k rule: in_sequence.induct)
  case (2 b' p v)
  have "Payload p @ payloads v = map f [k..<m]" using 2(4) by simp
  note sp = map_upt_split [OF this 2(5)]
  show ?case
  proof (cases "pkt = p")
    case True
    then show ?thesis
      unfolding stream_data_def using 2(2,3,6,8) sp
      by (intro exI [of _ k] exI [of _ "k + length (Payload p)"]) auto
  next
    case False
    show ?thesis
      by (rule 2(1) [OF _ _ sp(2,3) 2(6)]) (use 2 False in auto)
  qed
qed simp

end
