(* ===== verification/Stream_End.thy ===== *)
theory Stream_End
  imports Stream_Flow
begin

text \<open>
  A stream from end to end. \<open>send_run\<close> are the runs of a writer: writes, acknowledgements,
  selective acknowledgements, retransmission timeouts, held remainders that are flushed, and
  whatever else leaves the data alone. \<open>recv_from\<close> are the runs of a receiver that gets packets
  from the writer's wire, lost, repeated and in any order. What the reader gets is a prefix of what
  was written, and no byte that was written is forgotten before it has arrived.
\<close>

section \<open>The writer\<close>

text \<open>An acknowledgement number up to \<open>b + A\<close> covers the entry.\<close>

definition acked_below :: "u32 \<Rightarrow> nat \<Rightarrow> key \<Rightarrow> bool" where
  "acked_below b A = (\<lambda>(sq, data, fin). \<exists>a\<le>A. seqAfterOrEqual (b + of_nat a) (sq + of_nat (length data)))"

fun tail_alone :: "tail_event \<Rightarrow> bool" where
  "tail_alone (NagleSignal now f) \<longleftrightarrow> f = id"
| "tail_alone (NagleTimer now f) \<longleftrightarrow> f = id"
| "tail_alone RetxStopped = True"

text \<open>
  \<open>send_run send f b A c0 n cw\<close>: from \<open>c0\<close> the first \<open>n\<close> bytes of \<open>f\<close> were written, and every
  acknowledgement number was at most \<open>b + A\<close>. What others do while the flusher of a remainder
  waits are steps of their own.
\<close>

inductive send_run :: "link \<Rightarrow> (nat \<Rightarrow> u8) \<Rightarrow> u32 \<Rightarrow> nat \<Rightarrow> Connection \<Rightarrow> nat \<Rightarrow> wire \<Rightarrow> bool"
  for send f b A c0 where
  start: "send_run send f b A c0 0 (c0, [])"
| writes: "\<lbrakk> send_run send f b A c0 n (c, w); n \<le> m; list_all (wait_quiet (acked_below b A)) evs;
    SendData send (map f [n..<m]) evs now (c, w) = (Returned None, evs', now', cw') \<rbrakk>
    \<Longrightarrow> send_run send f b A c0 m cw'"
| ack: "\<lbrakk> send_run send f b A c0 n (c, w); a \<le> A; ProcessAck now (b + of_nat a) pure c = Some (pkts, c') \<rbrakk>
    \<Longrightarrow> send_run send f b A c0 n (c', w @ pkts)"
| sack: "send_run send f b A c0 n (c, w) \<Longrightarrow> send_run send f b A c0 n (ProcessSACK blocks c, w)"
| timeout: "\<lbrakk> send_run send f b A c0 n (c, w); retransmitUnacked now rnd c = Some (pkts, c') \<rbrakk>
    \<Longrightarrow> send_run send f b A c0 n (c', w @ pkts)"
| tail: "\<lbrakk> send_run send f b A c0 n (c, w); tail_alone ev; flushHeldTail send force [ev] (c, w) = (ended, cw') \<rbrakk>
    \<Longrightarrow> send_run send f b A c0 n cw'"
| others_do: "\<lbrakk> send_run send f b A c0 n (c, w); calm (acked_below b A) c c'; NagleBuf c' = NagleBuf c \<rbrakk>
    \<Longrightarrow> send_run send f b A c0 n (c', w)"

subsection \<open>Acknowledgements and timeouts\<close>

text \<open>What a step of the acknowledgement path leaves alone.\<close>

definition view :: "Connection \<Rightarrow> u32 \<times> bool \<times> bytes" where
  "view c = (SendSeq c, NoDelay c, NagleBuf c)"

lemma view_simps [simp]:
  "view (signal_window_if c) = view c" "view (signal_nagle_if c) = view c" "view (add_dup_stats x y c) = view c"
  "view (inflate c) = view c" "view (enter_fast_recovery sq c) = view c" "view (updateRTT t c) = view c"
  "view (advance_ack ak c) = view c" "view (drop_acked now ak c) = view c" "view (c\<lparr> CongWin := cw \<rparr>) = view c"
  "view (c\<lparr> WindowCh := ch \<rparr>) = view c" "view (c\<lparr> DupAckCount := k \<rparr>) = view c" "view (c\<lparr> Unacked := es \<rparr>) = view c"
  "view (c\<lparr> Stats := st \<rparr>) = view c"
  by (simp_all add: view_def signal_window_if_def signal_nagle_if_def add_dup_stats_def inflate_def
      enter_fast_recovery_def updateRTT_def advance_ack_def drop_acked_def Let_def)

lemma view_fastRetransmit [simp]: "view (snd (snd (fastRetransmit now ra c))) = view c"
  using fastRetransmit_frame(1) [of now ra c] view_simps(12) by metis

lemma view_rtt_sample [simp]: "view (rtt_sample now ak c) = view c"
  by (simp add: rtt_sample_def Let_def split: option.splits)

lemma view_dup_ack [simp]: "view (snd (dup_ack now c)) = view c"
  by (simp add: dup_ack_def Let_def split_beta)

lemma view_recovery_ack [simp]: "view (snd (recovery_ack now ra n x y c)) = view c"
  by (simp add: recovery_ack_def)

lemma new_ack_view:
  assumes "new_ack now ak c = Some (pkts, d)"
  shows "view d = view c" and "map ekey (Unacked d) = map ekey (filter (\<lambda>e. \<not> covered ak e) (Unacked c))"
proof -
  from assms obtain c4 c5 where
    c4: "recovery_ack now (RecvAck c) (bytes_acked ak c) (InRecovery c) (FastRecovery c) (acked_state now ak c) = (pkts, c4)"
    and c5: "c5 = c4 \<or> grow_window (bytes_acked ak c) c4 = Some c5"
    and d: "d = signal_nagle_if (c5\<lparr> WindowCh := chan_signal (WindowCh c5) \<rparr>)" by (elim new_ack_SomeD)
  have "view c5 = view c4" "Unacked c5 = Unacked c4"
    using c5 by (auto simp: grow_window_def Let_def split: if_splits)
  moreover have "view c4 = view c" using view_recovery_ack [of now "RecvAck c" _ _ _ "acked_state now ak c"] c4
    by (metis acked_state_def snd_conv view_rtt_sample view_simps(7,8))
  moreover have "map ekey (Unacked c4) = map ekey (Unacked (acked_state now ak c))"
    using recovery_ack_ekey [of now "RecvAck c" "bytes_acked ak c" "InRecovery c" "FastRecovery c" "acked_state now ak c"] c4 by simp
  ultimately show "view d = view c" "map ekey (Unacked d) = map ekey (filter (\<lambda>e. \<not> covered ak e) (Unacked c))"
    using d by (simp_all add: acked_state_ekey)
qed

lemma keys_map: "keys c = set (map ekey (Unacked c))"
  by (simp add: keys_def)

lemma repeats_keys: "\<lbrakk> repeats c p; Payload p \<noteq> [] \<rbrakk> \<Longrightarrow> (Seq p, Payload p, False) \<in> keys c"
  by (force simp: repeats_def keys_def ekey_def split: if_splits)

lemma ProcessAck_calm:
  assumes "ProcessAck now (b + of_nat a) pure c = Some (pkts, c')" and "a \<le> A"
  shows "calm (acked_below b A) c c'" and "NagleBuf c' = NagleBuf c" and "data_keys pkts \<subseteq> keys c"
proof -
  let ?ak = "b + of_nat a :: u32"
  have rep: "\<forall>p\<in>set pkts. repeats c p"
    using assms new_ack_repeats [of now ?ak c] dup_ack_repeats [of now c] by (auto simp: ProcessAck_def split: if_splits)
  then show "data_keys pkts \<subseteq> keys c" by (auto simp: data_keys_def intro: repeats_keys)
  have "view c' = view c \<and> (keys c' = keys c \<or> map ekey (Unacked c') = map ekey (filter (\<lambda>e. \<not> covered ?ak e) (Unacked c)))"
    using assms new_ack_view [of now ?ak c pkts c'] view_dup_ack [of now c] dup_ack_ekey [of now c]
    by (auto simp: ProcessAck_def keys_map simp del: set_map view_dup_ack split: if_splits)
  moreover have "keys c' \<subseteq> keys c \<and> keys c - keys c' \<subseteq> Collect (acked_below b A)"
    if eq: "map ekey (Unacked c') = map ekey (filter (\<lambda>e. \<not> covered ?ak e) (Unacked c))"
  proof -
    have k: "keys c' = ekey ` {e \<in> set (Unacked c). \<not> covered ?ak e}" using arg_cong [OF eq, of set] by (simp add: keys_def)
    have "acked_below b A (ekey e)" if "covered ?ak e" for e
      using that assms(2) by (auto simp: acked_below_def ekey_def covered_def entry_end_def)
    with k show ?thesis by (auto simp: keys_def)
  qed
  ultimately show "calm (acked_below b A) c c'" "NagleBuf c' = NagleBuf c" by (auto simp: calm_def view_def)
qed

lemma timeout_rst:
  assumes "retransmitUnacked now rnd c = Some (pkts, c')" and "p \<in> set pkts"
  shows "Flags p = {FlagRST} \<longrightarrow> Payload p = []"
proof -
  define c1 where "c1 = forget_sacks now c"
  have "pkts = [] \<or> (\<exists>pkt. pkts = [pkt] \<and> (Flags pkt = {FlagRST} \<longrightarrow> Payload pkt = []))"
    using assms(1)
    by (auto simp: retransmitUnacked_def c1_def [symmetric] send_if_def stream_packet_def Let_def
        split: if_splits option.splits)
  then show ?thesis using assms(2) by (elim disjE exE conjE) simp_all
qed

lemma retransmitUnacked_calm:
  assumes "retransmitUnacked now rnd c = Some (pkts, c')"
  shows "calm ok c c'" and "NagleBuf c' = NagleBuf c" and "data_keys pkts \<subseteq> keys c"
proof -
  show "data_keys pkts \<subseteq> keys c"
  proof
    fix k assume "k \<in> data_keys pkts"
    then obtain p where p: "p \<in> set pkts" "Payload p \<noteq> []" "k = (Seq p, Payload p, False)" by (auto simp: data_keys_def)
    have "Flags p = {FlagRST} \<longrightarrow> Payload p = []" using timeout_rst [OF assms p(1)] .
    with retransmitUnacked_repeats [OF assms p(1)] p show "k \<in> keys c" by (auto intro: repeats_keys)
  qed
  define c1 where "c1 = forget_sacks now c"
  have c1: "view c1 = view c" "map ekey (Unacked c1) = map ekey (Unacked c)"
    using forget_sacks_frame [of now c] view_simps(12) by (metis c1_def)+
  have "map ekey (Unacked c') = map ekey (Unacked c) \<and> view c' = view c"
    using assms c1
    by (auto simp: retransmitUnacked_def c1_def [symmetric] Let_def split_first_Some view_def split: if_splits option.splits)
  then show "calm ok c c'" "NagleBuf c' = NagleBuf c" by (auto simp: calm_def view_def keys_map simp del: set_map)
qed

lemma ProcessSACK_calm: "calm ok c (ProcessSACK blocks c)" "NagleBuf (ProcessSACK blocks c) = NagleBuf c"
proof -
  have "map ekey (Unacked (ProcessSACK blocks c)) = map ekey (Unacked c)"
    by (simp add: ProcessSACK_def Let_def)
  moreover have "view (ProcessSACK blocks c) = view c" by (simp add: ProcessSACK_def Let_def)
  ultimately show "calm ok c (ProcessSACK blocks c)" "NagleBuf (ProcessSACK blocks c) = NagleBuf c"
    by (auto simp: calm_def view_def keys_map simp del: set_map)
qed

subsection \<open>What a run keeps\<close>

text \<open>The entry has the byte at offset \<open>i\<close> of the stream.\<close>

definition holds :: "(nat \<Rightarrow> u8) \<Rightarrow> u32 \<Rightarrow> nat \<Rightarrow> key \<Rightarrow> nat \<Rightarrow> bool" where
  "holds f b n = (\<lambda>(sq, data, fin) i. \<exists>off m. sq = b + of_nat off \<and> data = map f [off..<m] \<and> off \<le> i \<and> i < m \<and> m \<le> n)"

lemma holds_acked:
  assumes "holds f b n k i" and "acked_below b A k" and "n < 2 ^ 31" and "A < 2 ^ 31"
  shows "i < A"
proof -
  obtain sq data fin where k: "k = (sq, data, fin)" by (metis prod.exhaust)
  from assms(1) obtain off where off: "sq = b + of_nat off" "i < off + length data" "off + length data \<le> n"
    by (auto simp: holds_def k)
  from assms(2) obtain a where a: "a \<le> A" "seqAfterOrEqual (b + of_nat a) (b + of_nat (off + length data))"
    by (auto simp: acked_below_def k off(1) add.assoc)
  have "off + length data \<le> a" using piece_not_before [OF a(2)] assms(3,4) off(3) a(1) by linarith
  with off a(1) show ?thesis by linarith
qed

lemma holds_mono: "\<lbrakk> holds f b n k i; n \<le> m \<rbrakk> \<Longrightarrow> holds f b m k i"
  unfolding holds_def split_beta by (elim exE conjE, intro exI conjI) (assumption+, rule le_trans)

definition stream_packets :: "(nat \<Rightarrow> u8) \<Rightarrow> u32 \<Rightarrow> nat \<Rightarrow> packet list \<Rightarrow> bool" where
  "stream_packets f b n w \<longleftrightarrow> (\<forall>(sq, data, fin)\<in>data_keys w. stream_data f b n sq data \<and> length data \<le> nat SendSegmentSize)"

definition sender_inv :: "(nat \<Rightarrow> u8) \<Rightarrow> u32 \<Rightarrow> nat \<Rightarrow> nat \<Rightarrow> Connection \<Rightarrow> packet list \<Rightarrow> bool" where
  "sender_inv f b A n c w \<longleftrightarrow> (\<exists>k\<le>n. SendSeq c = b + of_nat k \<and> NagleBuf c = map f [k..<n] \<and> stream_packets f b k w \<and>
    keys c \<subseteq> data_keys w \<and> (NoDelay c \<longrightarrow> NagleBuf c = []) \<and> (\<forall>i<k. i < A \<or> (\<exists>key\<in>keys c. holds f b k key i)))"

lemma stream_data_mono: "\<lbrakk> stream_data f b n sq data; n \<le> m \<rbrakk> \<Longrightarrow> stream_data f b m sq data"
  unfolding stream_data_def by (elim exE conjE, intro exI conjI) (assumption+, rule le_trans)

lemma stream_packets_mono: "\<lbrakk> stream_packets f b n w; n \<le> m \<rbrakk> \<Longrightarrow> stream_packets f b m w"
  unfolding stream_packets_def using stream_data_mono by fast

lemma sender_inv_calm:
  assumes "sender_inv f b A n c w" and "calm (acked_below b A) c c'" and "NagleBuf c' = NagleBuf c"
    and "data_keys pkts \<subseteq> keys c" and "n < 2 ^ 31" and "A < 2 ^ 31"
  shows "sender_inv f b A n c' (w @ pkts)"
proof -
  from assms(1) obtain k where k: "k \<le> n" "SendSeq c = b + of_nat k" "NagleBuf c = map f [k..<n]" "stream_packets f b k w"
      "keys c \<subseteq> data_keys w" "NoDelay c \<longrightarrow> NagleBuf c = []" "\<forall>i<k. i < A \<or> (\<exists>key\<in>keys c. holds f b k key i)"
    unfolding sender_inv_def by blast
  have same: "data_keys (w @ pkts) = data_keys w" using assms(4) k(5) by auto
  have "i < A \<or> (\<exists>key\<in>keys c'. holds f b k key i)" if "i < k" for i
  proof -
    from k(7) that consider "i < A" | key where "key \<in> keys c" "holds f b k key i" by blast
    then show ?thesis
    proof cases
      case 2
      then show ?thesis using assms(2,5,6) holds_acked [of f b k key i A] k(1) by (auto simp: calm_def)
    qed simp
  qed
  with k same assms(2,3) show ?thesis
    unfolding sender_inv_def by (intro exI [of _ k]) (auto simp: calm_def stream_packets_def)
qed

text \<open>New packets in sequence carry the next bytes, and hold them.\<close>

lemma in_sequence_packets:
  assumes "in_sequence (b + of_nat k) v" and "in_segments v" and "payloads v = map f [k..<m]" and "k \<le> m" and "m \<le> n"
  shows "stream_packets f b n v"
  unfolding stream_packets_def data_keys_def
  using in_sequence_data [OF assms(1) refl assms(3-5)] assms(2) by (auto simp: in_segments_def)

lemma in_sequence_holds:
  assumes "in_sequence b' v" and "b' = b + of_nat k" and "payloads v = map f [k..<m]" and "k \<le> i" and "i < m" and "m \<le> n"
  shows "\<exists>key\<in>data_keys v. holds f b n key i"
  using assms
proof (induction b' v arbitrary: k rule: in_sequence.induct)
  case (2 b' p v)
  let ?l = "length (Payload p)"
  have "Payload p @ payloads v = map f [k..<m]" "k \<le> m" using 2(4,5,6) by simp_all
  note sp = map_upt_split [OF this]
  show ?case
  proof (cases "i < k + ?l")
    case True
    then have ne: "Payload p \<noteq> []" using 2(5) by auto
    have "holds f b n (Seq p, Payload p, False) i"
      unfolding holds_def using True ne 2(2,3,5,7) sp by (simp only: prod.case, intro exI [of _ k] exI [of _ "k + ?l"], simp)
    moreover have "(Seq p, Payload p, False) \<in> data_keys (p # v)" using ne by (auto simp: data_keys_def)
    ultimately show ?thesis by blast
  next
    case False
    have "\<exists>key\<in>data_keys v. holds f b n key i"
      by (rule 2(1) [of "k + ?l"]) (use 2 False sp in auto)
    then show ?thesis by (auto simp: data_keys_def)
  qed
qed simp

lemma stream_packets_append: "stream_packets f b n (w @ v) \<longleftrightarrow> stream_packets f b n w \<and> stream_packets f b n v"
  unfolding stream_packets_def data_keys_simps by (rule ball_Un)

lemma sender_inv_sends:
  assumes inv: "sender_inv f b A n c w" and s: "sends (acked_below b A) c w c' w' d"
    and buf: "d @ NagleBuf c' = NagleBuf c @ map f [n..<m]" and "n \<le> m" and "NoDelay c' \<longrightarrow> NagleBuf c' = []"
    and "m < 2 ^ 31" and "A < 2 ^ 31"
  shows "sender_inv f b A m c' w'"
proof -
  from inv obtain k where k: "k \<le> n" "SendSeq c = b + of_nat k" "NagleBuf c = map f [k..<n]" "stream_packets f b k w"
      "keys c \<subseteq> data_keys w" "\<forall>i<k. i < A \<or> (\<exists>key\<in>keys c. holds f b k key i)"
    unfolding sender_inv_def by blast
  from s obtain v where v: "w' = w @ v" "payloads v = d" "in_sequence (SendSeq c) v" "in_segments v"
      "SendSeq c' = SendSeq c + of_nat (length d)" "keys c' \<subseteq> keys c \<union> data_keys v"
      "(keys c \<union> data_keys v) - keys c' \<subseteq> Collect (acked_below b A)"
    unfolding sends_def by blast
  have "[k..<m] = [k..<n] @ [n..<m]" using k(1) assms(4) upt_add_eq_append [of k n "m - n"] by simp
  then have "d @ NagleBuf c' = map f [k..<m]" using buf k(3) by simp
  note d = map_upt_split [OF this le_trans [OF k(1) assms(4)]]
  define k' where "k' = k + length d"
  have seg: "stream_packets f b k' v"
    using in_sequence_packets [of b k v f k' k'] v(2-4) k(2) d(1) by (simp add: k'_def)
  have "i < A \<or> (\<exists>key\<in>keys c'. holds f b k' key i)" if "i < k'" for i
  proof -
    have "i < A \<or> (\<exists>key\<in>keys c \<union> data_keys v. holds f b k' key i)"
    proof (cases "i < k")
      case True
      moreover have "holds f b k key i \<Longrightarrow> holds f b k' key i" for key by (erule holds_mono) (simp add: k'_def)
      ultimately show ?thesis using k(6) by blast
    next
      case False
      then show ?thesis using in_sequence_holds [OF v(3) k(2), of f k' i k'] that v(2) d(1) by (auto simp: k'_def)
    qed
    then show ?thesis using v(7) holds_acked [of f b k' _ i A] assms(6,7) d(3) by (auto simp: k'_def)
  qed
  then show ?thesis
    unfolding sender_inv_def using d v(1,5,6) k(2,4,5) seg stream_packets_mono [OF k(4), of k'] assms(5)
    by (intro exI [of _ k']) (auto simp: k'_def stream_packets_append)
qed

lemma sender_inv_SendData:
  assumes inv: "sender_inv f b A n c w" and "n \<le> m" and q: "list_all (wait_quiet (acked_below b A)) evs"
    and run: "SendData send (map f [n..<m]) evs now (c, w) = (r, evs', now', (c', w'))" and "m < 2 ^ 31" and "A < 2 ^ 31"
  shows "stream_packets f b m w' \<and> (r = Returned None \<longrightarrow> sender_inv f b A m c' w')"
proof -
  from inv have nd: "NoDelay c \<longrightarrow> NagleBuf c = []" unfolding sender_inv_def by blast
  from inv obtain k where k: "k \<le> n" "SendSeq c = b + of_nat k" "NagleBuf c = map f [k..<n]" "stream_packets f b k w"
    unfolding sender_inv_def by blast
  note W = SendData_wrote [OF run q nd]
  from W obtain d where d: "sends (acked_below b A) c w c' w' d" "prefix d (NagleBuf c @ map f [n..<m])"
      "r = Returned None \<longrightarrow> d @ NagleBuf c' = NagleBuf c @ map f [n..<m]" by (auto simp: wrote_def)
  have "[k..<m] = [k..<n] @ [n..<m]" using k(1) assms(2) upt_add_eq_append [of k n "m - n"] by simp
  then obtain e where "d @ e = map f [k..<m]" using d(2) k(3) by (auto elim: prefixE)
  note e = map_upt_split [OF this le_trans [OF k(1) assms(2)]]
  obtain v where v: "w' = w @ v" "payloads v = d" "in_sequence (SendSeq c) v" "in_segments v" using d(1) by (auto simp: sends_def)
  have "stream_packets f b m v" using in_sequence_packets [of b k v f "k + length d" m] v(2-4) k(2) e(1,3) by simp
  then have "stream_packets f b m w'"
    using v(1) stream_packets_mono [OF k(4), of m] k(1) assms(2) by (simp add: stream_packets_append)
  moreover have "sender_inv f b A m c' w'" if "r = Returned None"
    using sender_inv_sends [OF inv d(1) _ assms(2)] d(3) that W assms(5,6) by blast
  ultimately show ?thesis by blast
qed

lemma flusher_flushed:
  assumes "flushNagle send force True [] now (c, w) = (held, r, evs', now', (c', w'))"
  shows "\<exists>d. sends ok c w c' w' d \<and> d @ NagleBuf c' = NagleBuf c"
proof (cases rule: flushNagle_cases [of c send force True "[]" now w])
  case (flusher err c1 w1)
  have "length (NagleBuf c) \<le> nat SendSegmentSize" using flusher(2) by simp
  from transmitSegment_sends(1) [OF flusher(6,1) this] have "sends ok c w c1 w1 (NagleBuf c)" by simp
  then show ?thesis using flusher(5,7) assms by auto
qed (use assms sends_refl [of _ c ok w] in \<open>auto intro!: exI [of _ "[]"]\<close>)

lemma flushHeldTail_flushed:
  assumes "flushHeldTail send force [ev] (c, w) = (ended, (c', w'))" and "tail_alone ev"
  shows "\<exists>d. sends ok c w c' w' d \<and> d @ NagleBuf c' = NagleBuf c"
proof (cases ev)
  case (NagleSignal now g)
  let ?c = "c\<lparr> NagleCh := map_option (\<lambda>_. False) (NagleCh c) \<rparr>"
  obtain held r evs1 now1 c1 w1 where f: "flushNagle send force True [] now (?c, w) = (held, r, evs1, now1, (c1, w1))"
    by (metis prod.exhaust)
  have "c1 = c'" "w1 = w'" using assms NagleSignal f by (auto split: if_splits)
  with flusher_flushed [OF f, of ok] show ?thesis by (auto simp: sends_def keys_def)
next
  case (NagleTimer now g)
  obtain held r evs1 now1 c1 w1 where f: "flushNagle send True True [] now (c, w) = (held, r, evs1, now1, (c1, w1))"
    by (metis prod.exhaust)
  have "c1 = c'" "w1 = w'" using assms NagleTimer f by (auto split: if_splits)
  with flusher_flushed [OF f, of ok] show ?thesis by simp
next
  case RetxStopped
  then show ?thesis using assms sends_refl [of c' c ok w] by (auto intro!: exI [of _ "[]"])
qed

lemma sender_inv_start: "\<lbrakk> SendSeq c = b; NagleBuf c = []; Unacked c = [] \<rbrakk> \<Longrightarrow> sender_inv f b A 0 c []"
  by (simp add: sender_inv_def stream_packets_def keys_def)

lemma send_run_inv:
  assumes "send_run send f b A c0 n cw" and "sender_inv f b A 0 c0 []" and "A < 2 ^ 31" and "n < 2 ^ 31"
  shows "sender_inv f b A n (fst cw) (snd cw)"
  using assms
proof (induction rule: send_run.induct)
  case (writes n c w m evs now evs' now' cw')
  then have "sender_inv f b A n c w" by simp
  from sender_inv_SendData [OF this writes.hyps(2,3), of send now "Returned None" evs' now' "fst cw'" "snd cw'"] writes
  show ?case by simp
next
  case (ack n c w a now pure pkts c')
  then show ?case using sender_inv_calm [OF _ ProcessAck_calm, of f b A n c w now a pure pkts c'] by simp
next
  case (sack n c w blocks)
  then show ?case using sender_inv_calm [OF _ ProcessSACK_calm, of f b A n c w "[]"] by simp
next
  case (timeout n c w now rnd pkts c')
  then show ?case using sender_inv_calm [OF _ retransmitUnacked_calm, of f b A n c w now rnd pkts c'] by simp
next
  case (tail n c w ev force ended cw')
  then have inv: "sender_inv f b A n c w" by simp
  obtain c' w' where cw: "cw' = (c', w')" by (metis prod.exhaust)
  from flushHeldTail_flushed [OF tail.hyps(3)[unfolded cw] tail.hyps(2), of "acked_below b A"]
  obtain d where d: "sends (acked_below b A) c w c' w' d" "d @ NagleBuf c' = NagleBuf c" by blast
  have "NoDelay c' \<longrightarrow> NagleBuf c' = []" using inv d by (auto simp: sender_inv_def sends_def)
  then show ?case using sender_inv_sends [OF inv d(1), of n] d(2) tail.prems cw by simp
next
  case (others_do n c w c')
  then show ?case using sender_inv_calm [of f b A n c w c' "[]"] by simp
qed simp

section \<open>The receiver\<close>

text \<open>
  A receiver that gets packets of the wire \<open>w\<close>, any of them, any number of times and in any
  order, a reader that takes what is queued, and the close of the receive buffer.
\<close>

inductive recv_from :: "packet list \<Rightarrow> Connection \<Rightarrow> bytes \<Rightarrow> Connection \<Rightarrow> bool" for w r0 where
  start: "recv_from w r0 [] r0"
| arrive: "\<lbrakk> recv_from w r0 out r; pkt \<in> set w; Payload pkt \<noteq> [];
    DeliverInOrder drained (Seq pkt) (Payload pkt) r = (ack, taken, r') \<rbrakk> \<Longrightarrow> recv_from w r0 (out @ concat taken) r'"
| reads: "recv_from w r0 out r \<Longrightarrow>
    recv_from w r0 (out @ concat (take k (RecvBuf r))) (r\<lparr> RecvBuf := drop k (RecvBuf r) \<rparr>)"
| closes: "recv_from w r0 out r \<Longrightarrow> recv_from w r0 out (CloseRecvBuf r)"

text \<open>
  A receiver whose bytes are those of every stream that agrees with \<open>f\<close> below \<open>n\<close> has at most
  \<open>n\<close> of them.
\<close>

lemma received_bound:
  assumes "\<And>g. \<forall>i<n. g i = f i \<Longrightarrow> recv_inv g b (received out r) out r"
  shows "received out r \<le> n"
proof (rule ccontr)
  assume "\<not> received out r \<le> n"
  define g where "g = f(n := f n + 1)"
  have "map f [0..<received out r] = map g [0..<received out r]"
    using assms [of f] assms [of g] by (auto simp: recv_inv_def g_def)
  then have "f n = g n" using \<open>\<not> received out r \<le> n\<close> by (auto dest!: map_eq_conv [THEN iffD1])
  then show False by (simp add: g_def)
qed

lemma stream_packets_agree:
  assumes "stream_packets f b n w" and "\<forall>i<n. g i = f i"
  shows "stream_packets g b n w"
proof -
  have "stream_data g b n sq data" if "stream_data f b n sq data" for sq data
  proof -
    from that obtain off m where "sq = b + of_nat off" "data = map f [off..<m]" "off \<le> m" "m \<le> n"
      by (auto simp: stream_data_def)
    then show ?thesis unfolding stream_data_def using assms(2) by (intro exI [of _ off] exI [of _ m]) auto
  qed
  then show ?thesis using assms(1) unfolding stream_packets_def by fast
qed

lemma recv_from_run:
  assumes "recv_from w r0 out r" and w: "stream_packets f b n w" and "n < 2 ^ 31"
    and r0: "ExpectedSeq r0 = b" "RecvBuf r0 = []" "OOOBuf r0 = []" and "\<forall>i<n. g i = f i"
  shows "recv_run g b r0 out r"
  using assms(1,7)
proof (induction arbitrary: g rule: recv_from.induct)
  case (arrive out r pkt drained ack taken r')
  have inv: "recv_inv g b (received out r) out r" if "\<forall>i<n. g i = f i" for g
    using recv_run_inv [OF arrive.IH [OF that]] r0 by (simp add: recv_inv_def)
  have le: "received out r \<le> n" by (rule received_bound [OF inv])
  have "(Seq pkt, Payload pkt, False) \<in> data_keys w" using arrive.hyps(2,3) by (auto simp: data_keys_def)
  then obtain off m where off: "Seq pkt = b + of_nat off" "Payload pkt = map g [off..<m]" "off \<le> m" "m \<le> n"
      "length (Payload pkt) \<le> nat SendSegmentSize"
    using stream_packets_agree [OF w arrive.prems] unfolding stream_packets_def stream_data_def by fast
  then have "piece g b off \<lparr> rseq = Seq pkt, rdata = Payload pkt \<rparr>" by (simp add: piece_def SendSegmentSize_def)
  then show ?case
    using recv_run.arrive [OF arrive.IH [OF arrive.prems] _ _ _ arrive.hyps(4)] off(3,4) le assms(3) by simp
qed (auto intro: recv_run.intros)

lemma recv_from_inv:
  assumes "recv_from w r0 out r" and "stream_packets f b n w" and "n < 2 ^ 31"
    and "ExpectedSeq r0 = b" "RecvBuf r0 = []" "OOOBuf r0 = []"
  shows "recv_inv f b (received out r) out r" and "received out r \<le> n"
proof -
  have inv: "recv_inv g b (received out r) out r" if "\<forall>i<n. g i = f i" for g
    using recv_run_inv [OF recv_from_run [OF assms that]] assms(4-6) by (simp add: recv_inv_def)
  show "recv_inv f b (received out r) out r" by (rule inv) simp
  show "received out r \<le> n" by (rule received_bound [OF inv])
qed

section \<open>Properties\<close>

text \<open>A small write on an idle connection goes out at once; a second one is held.\<close>

lemma SendData_small:
  assumes "connEstablished c" and "\<not> NoDelay c" and "NagleBuf c = []" and "data \<noteq> []"
    and "int (length data) < SendSegmentSize"
  shows "\<not> nagleHoldsTail c \<Longrightarrow> WindowAvailable c \<Longrightarrow> send pkt \<Longrightarrow>
      pkt = stream_packet {FlagACK} (c\<lparr> SendSeq := SendSeq c + of_nat (length data) \<rparr>) (SendSeq c) (RecvAck c)
        (RecvWindow (c\<lparr> SendSeq := SendSeq c + of_nat (length data) \<rparr>)) data \<Longrightarrow>
      SendData send data evs now (c, w) = (Returned None, evs, now, snd (transmitSegment send now data (c, w)))"
    and "nagleHoldsTail c \<Longrightarrow>
      SendData send data evs now (c, w) = (Returned None, evs, now, (c\<lparr> NagleBuf := data, tailFlusher := True \<rparr>, w))"
proof -
  let ?c = "c\<lparr> NagleBuf := data \<rparr>"
  have same: "nagleHoldsTail ?c = nagleHoldsTail c" "c\<lparr> NagleBuf := [] \<rparr> = c"
    using assms(3) by (simp_all add: nagleHoldsTail_def)
  have eq: "SendData send data evs now (c, w) = drained_piece send False data evs now (c, w)"
    using assms by (simp add: SendData_def send_pieces_eq nagleWritePiece_def SendSegmentSize_def)
  have small: "int (length (NagleBuf c)) + int (length data) \<le> MaxNagleBuf"
    using assms(3,5) by (simp add: MaxNagleBuf_def MaxSegmentSize_def SendSegmentSize_def)
  show "SendData send data evs now (c, w) = (Returned None, evs, now, (c\<lparr> NagleBuf := data, tailFlusher := True \<rparr>, w))"
    if "nagleHoldsTail c"
  proof -
    have "flushNagle send False False evs now (?c, w) = (True, Returned None, evs, now, (?c\<lparr> tailFlusher := True \<rparr>, w))"
      by (subst flushNagle.simps) (use assms that same in simp)
    then show ?thesis
      using eq small assms(3) by (simp add: drained_piece_def sendDataPiece_def drainAfterSendError.simps)
  qed
  show "SendData send data evs now (c, w) = (Returned None, evs, now, snd (transmitSegment send now data (c, w)))"
    if "\<not> nagleHoldsTail c" "WindowAvailable c" "send pkt"
      "pkt = stream_packet {FlagACK} (c\<lparr> SendSeq := SendSeq c + of_nat (length data) \<rparr>) (SendSeq c) (RecvAck c)
        (RecvWindow (c\<lparr> SendSeq := SendSeq c + of_nat (length data) \<rparr>)) data"
  proof -
    obtain err c' w' where t: "transmitSegment send now data (c, w) = (err, (c', w'))" by (metis prod.exhaust)
    have "err = None" using t that(3,4) by (auto simp: transmitSegment_def Let_def split: if_splits)
    have s: "sendSegment send evs now ZeroWinProbeInitial 0 data (c\<lparr> NagleBuf := [] \<rparr>, w) = (Returned None, evs, now, (c', w'))"
      unfolding same(2) using that(2) t \<open>err = None\<close> by (simp add: sendSegment_open)
    have "flushNagle send False False evs now (?c, w) = (False, Returned None, evs, now, (c', w'))"
      by (subst flushNagle.simps) (use assms that(1) same(1) s in \<open>simp add: Let_def\<close>)
    then show ?thesis
      using eq small assms(3) t by (simp add: drained_piece_def sendDataPiece_def drainAfterSendError.simps)
  qed
qed

definition sample_writer :: Connection where
  "sample_writer = sample_conn\<lparr> State := StateEstablished \<rparr>"

definition sample_sent :: wire where
  "sample_sent = snd (transmitSegment (\<lambda>_. True) 5 [0, 1, 2] (sample_writer, []))"

definition sample_held :: wire where
  "sample_held = ((fst sample_sent)\<lparr> NagleBuf := [3, 4], tailFlusher := True \<rparr>, snd sample_sent)"

lemmas sample_writer_defs = sample_writer_def sample_conn_def new_connection_def

lemma sample_packet: "\<exists>pkt. snd sample_sent = [pkt] \<and> Seq pkt = 0 \<and> Payload pkt = [0, 1, 2]"
  by (simp add: sample_sent_def transmitSegment_def stream_packet_def sample_writer_defs Let_def)

lemma sample_writes:
  "SendData (\<lambda>_. True) (map of_nat [0..<3]) [] 5 (sample_writer, []) = (Returned None, [], 5, sample_sent)"
  "SendData (\<lambda>_. True) (map of_nat [3..<5]) [] 6 sample_sent = (Returned None, [], 6, sample_held)"
proof -
  have "SendData (\<lambda>_. True) [0, 1, 2] [] 5 (sample_writer, []) = (Returned None, [], 5, sample_sent)"
    unfolding sample_sent_def
    by (rule SendData_small(1) [OF _ _ _ _ _ _ _ _ refl])
      (simp_all add: sample_writer_defs connEstablished_def SendSegmentSize_def nagleHoldsTail_def WindowAvailable_def
        EffectiveWindow_def InitialCongWin_def MaxSegmentsOutstanding_def MaxSegmentSize_def MaxOOOBuf_def Let_def)
  then show "SendData (\<lambda>_. True) (map of_nat [0..<3]) [] 5 (sample_writer, []) = (Returned None, [], 5, sample_sent)"
    by (simp add: upt_rec)
  have "SendData (\<lambda>_. True) [3, 4] [] 6 (fst sample_sent, snd sample_sent) = (Returned None, [], 6, sample_held)"
    unfolding sample_held_def
    by (rule SendData_small(2))
      (simp_all add: sample_sent_def transmitSegment_def TrackSend_def sample_writer_defs connEstablished_def
        SendSegmentSize_def nagleHoldsTail_def entry_len_def Let_def)
  then show "SendData (\<lambda>_. True) (map of_nat [3..<5]) [] 6 sample_sent = (Returned None, [], 6, sample_held)"
    by (simp add: upt_rec)
qed

lemma sample_run: "send_run (\<lambda>_. True) of_nat 0 A sample_writer 3 sample_sent"
  by (rule send_run.writes [OF send_run.start _ _ sample_writes(1)]) simp_all

lemma sample_arrives:
  "\<exists>r. recv_from (snd sample_sent) sample_conn [0, 1, 2] r \<and> received [0, 1, 2] r = 3"
proof -
  obtain pkt where pkt: "snd sample_sent = [pkt]" "Seq pkt = 0" "Payload pkt = [0, 1, 2]" using sample_packet by blast
  obtain ack taken r where d: "DeliverInOrder 0 (Seq pkt) (Payload pkt) sample_conn = (ack, taken, r)" "taken = []" "RecvBuf r = [[0, 1, 2]]"
    by (simp add: pkt DeliverInOrder_def deliver_phase1_def deliver_phase2_def deliver_phase3_eq drain_ooo.simps RecvBufSize_def Let_def)
  have "recv_from (snd sample_sent) sample_conn ([] @ concat taken) r"
    by (rule recv_from.arrive [OF recv_from.start _ _ d(1)]) (simp_all add: pkt)
  from recv_from.reads [OF this, of 1] d show ?thesis by (auto simp: received_def)
qed





end
