(* ===== verification/Stream_Handle.thy ===== *)
theory Stream_Handle
  imports Admission Stream_End
begin

text \<open>
  The packet handlers of the daemon (\<^verbatim>\<open>handlePacket\<close> to \<^verbatim>\<open>sendRST\<close> of
  \<^verbatim>\<open>src/pkg/daemon/daemon.go\<close>): the handshake of a connection, its data, its end, datagrams and
  pings.

  The branches of \<^verbatim>\<open>handleStreamPacket\<close> that concern one connection are functions on it; they return
  the packets sent, what the reader took meanwhile, and whether the event \<^verbatim>\<open>conn.fin\<close> is published.
  \<open>None\<close> is a panic. The whole handler is a function on the daemon's state \<open>Daemon\<close>; \<open>sentPkts\<close> is
  what it handed to the tunnel, in order, with the node it is for.
\<close>

section \<open>One connection\<close>

definition DelayedACKTimeout :: duration where "DelayedACKTimeout = 5 * millisecond"
definition defaultFinHoldIdle :: duration where "defaultFinHoldIdle = 15 * second"

text \<open>The peer's receive window; a writer that waits for it is woken if it opened.\<close>

definition peer_window :: "u16 \<Rightarrow> Connection \<Rightarrow> Connection" where
  "peer_window win c =
    (let prevWin = PeerRecvWin c;
         c1 = c\<lparr> PeerRecvWin := uint win * SendSegmentSize \<rparr> in
     if prevWin \<noteq> -1 \<and> PeerRecvWin c1 > prevWin \<and> WindowAvailable c1
     then c1\<lparr> WindowCh := chan_signal (WindowCh c1) \<rparr> else c1)"

definition sendDelayedACK :: "Connection \<Rightarrow> packet \<times> Connection" where
  "sendDelayedACK c =
    (let c1 = c\<lparr> ACKTimer := None, PendingACKs := 0 \<rparr>;
         ack = stream_packet {FlagACK} c1 (SendSeq c1) (RecvAck c1) (RecvWindow c1) [];
         blocks = SACKBlocks c1 in
     if blocks \<noteq> [] then
       (ack\<lparr> Payload := EncodeSACK blocks \<rparr>,
        c1\<lparr> Stats := (Stats c1)\<lparr> SACKSent := SACKSent (Stats c1) + of_nat (length blocks) \<rparr> \<rparr>)
     else (ack, c1))"

definition acceptFIN :: "instant \<Rightarrow> u32 \<Rightarrow> Connection \<Rightarrow> packet list \<times> bool \<times> Connection" where
  "acceptFIN now fin_seq c0 =
    (let c = CloseRecvBuf (stopFINHold c0);
         wasFinWait = (State c = StateFinWait);
         wasTimeWait = (State c = StateTimeWait);
         c1 = c\<lparr> State := StateTimeWait, KeepaliveUnacked := 0 \<rparr>;
         c2 = (if \<not> wasTimeWait then c1\<lparr> LastActivity := now \<rparr> else c1);
         c3 = (if wasFinWait then c2\<lparr> Unacked := [] \<rparr> else c2) in
     (if \<not> wasTimeWait then [stream_packet {FlagFIN, FlagACK} c3 (SendSeq c3) (fin_seq + 1) 0 []] else [],
      \<not> wasTimeWait, c3))"

definition expireHeldFIN :: "instant \<Rightarrow> duration \<Rightarrow> Connection \<Rightarrow> packet list \<times> bool \<times> Connection" where
  "expireHeldFIN now finHoldIdle c =
    (if \<not> finPending c then ([], False, c)
     else if State c \<noteq> StateEstablished then ([], False, c\<lparr> finPending := False, finHoldTimer := None \<rparr>)
     else
       let wait = finHoldIdle - time_sub now (finHeard c) in
       if wait > 0 then ([], False, c\<lparr> finHoldTimer := Some (now + wait) \<rparr>)
       else acceptFIN now (finSeq c) (c\<lparr> finPending := False, finHoldTimer := None \<rparr>))"

text \<open>The FIN branch.\<close>

definition fin_arrives :: "instant \<Rightarrow> duration \<Rightarrow> packet \<Rightarrow> Connection \<Rightarrow> packet list \<times> bool \<times> Connection" where
  "fin_arrives now finHoldIdle pkt c =
    (let receiving = (State c = StateEstablished);
         early = (receiving \<and> \<not> RecvClosed c \<and> seqAfter (Seq pkt) (ExpectedSeq c)) in
     if early then
       let c1 = (if \<not> finPending c
                 then c\<lparr> finPending := True, finSeq := Seq pkt, finHoldTimer := Some (now + finHoldIdle) \<rparr> else c);
           (ack, c2) = sendDelayedACK (c1\<lparr> finHeard := now \<rparr>) in
       ([ack], False, c2)
     else acceptFIN now (Seq pkt) c)"

text \<open>The end of a data packet: a held FIN that is reached, or the acknowledgement policy.\<close>

definition ack_policy :: "instant \<Rightarrow> Connection \<Rightarrow> packet list \<times> Connection" where
  "ack_policy now c =
    (if OOOBuf c \<noteq> [] then (case sendDelayedACK c of (ack, c') \<Rightarrow> ([ack], c'))
     else
       let c1 = c\<lparr> PendingACKs := PendingACKs c + 1 \<rparr> in
       if PendingACKs c1 \<ge> DelayedACKThreshold then (case sendDelayedACK c1 of (ack, c') \<Rightarrow> ([ack], c'))
       else if QuickACKs c1 > 0 then
         (case sendDelayedACK (c1\<lparr> QuickACKs := QuickACKs c1 - 1 \<rparr>) of (ack, c') \<Rightarrow> ([ack], c'))
       else if ACKTimer c1 = None then ([], c1\<lparr> ACKTimer := Some (now + DelayedACKTimeout) \<rparr>)
       else ([], c1))"

definition ack_timer_fires :: "Connection \<Rightarrow> packet \<times> Connection" where
  "ack_timer_fires c = sendDelayedACK (c\<lparr> QuickACKs := QuickACKBudget \<rparr>)"

definition data_arrives ::
    "instant \<Rightarrow> nat \<Rightarrow> packet \<Rightarrow> Connection \<Rightarrow> packet list \<times> bytes list \<times> bool \<times> Connection" where
  "data_arrives now drained pkt c =
    (if State c \<noteq> StateEstablished then ([], [], False, c)
     else
       let c1 = c\<lparr> LastActivity := now,
             Stats := (Stats c)\<lparr> BytesRecv := BytesRecv (Stats c) + of_nat (length (Payload pkt)),
                                 SegsRecv := SegsRecv (Stats c) + 1 \<rparr> \<rparr> in
       case DeliverInOrder drained (Seq pkt) (Payload pkt) c1 of (cumAck, taken, c2) \<Rightarrow>
       let c3 = c2\<lparr> RecvAck := cumAck \<rparr>;
           finReady = (finPending c3 \<and> \<not> seqAfter (finSeq c3) cumAck) in
       if finReady then
         (case acceptFIN now (finSeq c3) (c3\<lparr> finPending := False, finHoldTimer := None \<rparr>) of
            (pkts, ev, c4) \<Rightarrow> (pkts, taken, ev, c4))
       else
         (case ack_policy now (if finPending c3 then c3\<lparr> finHeard := now \<rparr> else c3) of
            (pkts, c4) \<Rightarrow> (pkts, taken, False, c4)))"

text \<open>The ACK branch.\<close>

definition ack_arrives ::
    "instant \<Rightarrow> nat \<Rightarrow> packet \<Rightarrow> Connection \<Rightarrow> (packet list \<times> bytes list \<times> bool \<times> Connection) option" where
  "ack_arrives now drained pkt c =
    (let c1 = c\<lparr> LastActivity := now, KeepaliveUnacked := 0 \<rparr>;
         prevPeerWin = PeerRecvWin c1;
         c2 = peer_window (Window pkt) c1;
         sack = DecodeSACK (Payload pkt);
         isPureACK = (Payload pkt = [] \<or> sack \<noteq> None);
         isPureACK = (if sack = None \<and> PeerRecvWin c2 \<noteq> prevPeerWin then False else isPureACK) in
     case ProcessAck now (Ack pkt) isPureACK c2 of
       None \<Rightarrow> None
     | Some (resent, c3) \<Rightarrow>
       (case releaseHeldFINIfAcked now (c3, resent) of (c4, pkts) \<Rightarrow>
        case sack of
          Some blocks \<Rightarrow> Some (pkts, [], False, ProcessSACK blocks c4)
        | None \<Rightarrow>
          if Payload pkt \<noteq> [] then
            (case data_arrives now drained pkt c4 of (pkts', taken, ev, c5) \<Rightarrow> Some (pkts @ pkts', taken, ev, c5))
          else Some (pkts, [], False, c4)))"

text \<open>The SYN-ACK branch, for a connection in the state \<open>StateSynSent\<close>.\<close>

definition synack_arrives :: "packet \<Rightarrow> Connection \<Rightarrow> packet \<times> Connection" where
  "synack_arrives pkt c =
    (let c1 = signalDial (c\<lparr> RecvAck := Seq pkt + 1, State := StateEstablished \<rparr>);
         c2 = peer_window (Window pkt) (c1\<lparr> ExpectedSeq := Seq pkt + 1 \<rparr>) in
     (\<lparr> Flags = {FlagACK}, Protocol = ProtoStream, Src = LocalAddr c2, Dst = Src pkt, SrcPort = DstPort pkt,
        DstPort = SrcPort pkt, Seq = SendSeq c1, Ack = RecvAck c1, Window = RecvWindow c2, Payload = [] \<rparr>, c2))"

section \<open>The daemon\<close>

datatype daemon_event =
    SynRejected u16
  | SynPortRejected node_id u16 u16
  | SynRateLimited u16
  | ConnSynReceived u32
  | ConnEstablished u32
  | AcceptQueueFull u16 u64
  | ConnFin u32
  | ConnRst u32
  | ConnIdleTimeout u32
  | ConnDeadPeer u32
  | FileDelivered u32
  | DatagramRejected u16
  | DatagramPortRejected node_id u16 u16
  | DataDatagram Addr u16 u16 nat

record Daemon =
  config :: Config
  dNodeID :: node_id
  ports :: PortManager
  synBucket :: "int \<times> instant"
  perSrcSYN :: "node_id \<rightharpoonup> srcSYNBucket"
  synWhitelistAll :: bool
  synWhitelist :: "node_id set option"
  outbound :: outboundContacts
  netPolicies :: "u16 \<rightharpoonup> u16 list"
  memberTags :: "u16 \<rightharpoonup> string list"
  AcceptQueueDrops :: u64
  finHoldIdle :: duration
  sentPkts :: "(node_id \<times> packet) list"
  busEvents :: "daemon_event list"
  ipcDatagrams :: "(Addr \<times> u16 \<times> u16 \<times> bytes) list"
  readLog :: "(u32 \<times> bytes) list"

text \<open>The clock, the services, and constants of other modules.\<close>

record daemon_env =
  de_now :: instant
  de_services :: Services
  de_scaled :: "duration \<Rightarrow> int \<Rightarrow> int"
  de_ports :: service_ports
  de_emin :: u16
  de_emax :: u16
  de_drained :: nat

definition publish_event :: "daemon_event \<Rightarrow> Daemon \<Rightarrow> Daemon" where
  "publish_event ev d = d\<lparr> busEvents := busEvents d @ [ev] \<rparr>"

definition tunnel_send :: "node_id \<Rightarrow> packet \<Rightarrow> Daemon \<Rightarrow> Daemon" where
  "tunnel_send i pkt d = d\<lparr> sentPkts := sentPkts d @ [(i, pkt)] \<rparr>"

definition put_conn :: "Connection \<Rightarrow> Daemon \<Rightarrow> Daemon" where
  "put_conn c d = d\<lparr> ports := set_connection c (ports d) \<rparr>"

definition remove_conn :: "daemon_env \<Rightarrow> u32 \<Rightarrow> Daemon \<Rightarrow> Daemon" where
  "remove_conn E i d = d\<lparr> ports := snd (RemoveConnection (de_emin E) (de_emax E) i (ports d)) \<rparr>"

definition sendRST :: "packet \<Rightarrow> Daemon \<Rightarrow> Daemon" where
  "sendRST orig d =
    tunnel_send (Node (Src orig))
      \<lparr> Flags = {FlagRST}, Protocol = ProtoStream, Src = Dst orig, Dst = Src orig, SrcPort = DstPort orig,
        DstPort = SrcPort orig, Seq = 0, Ack = 0, Window = 0, Payload = [] \<rparr> d"

text \<open>The answer to a SYN.\<close>

definition synack_packet :: "packet \<Rightarrow> u32 \<Rightarrow> Connection \<Rightarrow> packet" where
  "synack_packet pkt sq c =
    \<lparr> Flags = {FlagSYN, FlagACK}, Protocol = ProtoStream, Src = Dst pkt, Dst = Src pkt, SrcPort = DstPort pkt,
      DstPort = SrcPort pkt, Seq = sq, Ack = RecvAck c, Window = RecvWindow c, Payload = [] \<rparr>"

definition syn_whitelisted :: "node_id \<Rightarrow> Daemon \<Rightarrow> bool" where
  "syn_whitelisted i d =
    (if synWhitelistAll d then True else case synWhitelist d of None \<Rightarrow> False | Some wl \<Rightarrow> i \<in> wl)"

text \<open>A connection for a SYN that passed every check.\<close>

definition syn_accept :: "daemon_env \<Rightarrow> packet \<Rightarrow> Listener \<Rightarrow> Daemon \<Rightarrow> Daemon" where
  "syn_accept E pkt ln d =
    (case NewConnection (de_emin E) (de_emax E) (de_now E) (DstPort pkt) (Src pkt) (SrcPort pkt) (ports d) of
       (conn, pm) \<Rightarrow>
     let c1 = conn\<lparr> LocalAddr := Dst pkt, State := StateSynReceived, RecvAck := Seq pkt + 1, ExpectedSeq := Seq pkt + 1 \<rparr>;
         d1 = publish_event (ConnSynReceived (ID c1)) (d\<lparr> ports := pm \<rparr>);
         c2 = peer_window (Window pkt) c1;
         d2 = tunnel_send (Node (Src pkt)) (synack_packet pkt (SendSeq c2) c2) d1;
         c3 = c2\<lparr> SynAckSeq := SendSeq c2, SynAckSeqSet := True, SendSeq := SendSeq c2 + 1, State := StateEstablished \<rparr>;
         d3 = publish_event (ConnEstablished (ID c3)) d2;
         c4 = startRetxLoop c3 in
     case TrySend (ID c4) ln of (ok, ln') \<Rightarrow>
       let d4 = put_conn c4 d3;
           d5 = d4\<lparr> ports := (ports d4)\<lparr> listeners := (listeners (ports d4))(DstPort pkt \<mapsto> ln') \<rparr> \<rparr> in
       if ok then d5
       else
         let d6 = d5\<lparr> AcceptQueueDrops := AcceptQueueDrops d5 + 1 \<rparr>;
             d7 = remove_conn E (ID c4) (put_conn (c4\<lparr> State := StateClosed \<rparr>) d6) in
         publish_event (AcceptQueueFull (DstPort pkt) (AcceptQueueDrops d7)) (sendRST pkt d7))"

text \<open>The gates, in the order of the code.\<close>

definition syn_trusted :: "daemon_env \<Rightarrow> packet \<Rightarrow> Daemon \<Rightarrow> bool" where
  "syn_trusted E pkt d \<longleftrightarrow>
    Public (config d) \<or> handshakeTrusts (de_services E) (Node (Src pkt)) \<or>
    replyWindowAdmits (de_ports E) (de_now E) (Node (Src pkt)) (DstPort pkt) (outbound d) \<or>
    registry_trusts (de_services E) (dNodeID d) (Node (Src pkt))"

definition syn_rate_gates :: "daemon_env \<Rightarrow> packet \<Rightarrow> Daemon \<Rightarrow> bool \<times> Daemon" where
  "syn_rate_gates E pkt d =
    (if syn_whitelisted (Node (Src pkt)) d then (True, d)
     else case allowSYNFromSource (de_now E) (Node (Src pkt)) (perSrcSYN d) of
       (False, m) \<Rightarrow> (False, d\<lparr> perSrcSYN := m \<rparr>)
     | (True, m) \<Rightarrow>
       (case allowSYN (de_scaled E) (config d) (de_now E) (synBucket d) of
          (True, b) \<Rightarrow> (True, d\<lparr> perSrcSYN := m, synBucket := b \<rparr>)
        | (False, b) \<Rightarrow> (False, publish_event (SynRateLimited (SrcPort pkt)) (d\<lparr> perSrcSYN := m, synBucket := b \<rparr>))))"

definition syn_gates :: "daemon_env \<Rightarrow> packet \<Rightarrow> Listener \<Rightarrow> Daemon \<Rightarrow> Daemon" where
  "syn_gates E pkt ln d =
    (if \<not> syn_trusted E pkt d then publish_event (SynRejected (DstPort pkt)) d
     else if \<not> evaluatePortPolicy (de_services E) (netPolicies d) (memberTags d) PolicyEventConnect (Network (Dst pkt))
                 (DstPort pkt) (Node (Src pkt)) 0 ''''
     then publish_event (SynPortRejected (Node (Src pkt)) (DstPort pkt) (Network (Dst pkt))) d
     else case syn_rate_gates E pkt d of
       (False, d1) \<Rightarrow> d1
     | (True, d1) \<Rightarrow>
       if int (ConnectionCountForPort (DstPort pkt) (ports d1)) \<ge> maxConnectionsPerPort (config d1) then sendRST pkt d1
       else if int (TotalActiveConnections (ports d1)) \<ge> maxTotalConnections (config d1) then sendRST pkt d1
       else syn_accept E pkt ln d1)"

text \<open>The SYN branch.\<close>

definition handle_syn :: "daemon_env \<Rightarrow> packet \<Rightarrow> Daemon \<Rightarrow> Daemon" where
  "handle_syn E pkt d =
    (case GetListener (DstPort pkt) (ports d) of
       None \<Rightarrow> sendRST pkt d
     | Some ln \<Rightarrow>
       (case FindConnection (DstPort pkt) (Src pkt) (SrcPort pkt) (ports d) of
          None \<Rightarrow> syn_gates E pkt ln d
        | Some ex \<Rightarrow>
          if finPending ex then
            syn_gates E pkt ln (remove_conn E (ID ex) (put_conn (CloseRecvBuf (stopFINHold (ex\<lparr> State := StateClosed \<rparr>))) d))
          else if State ex = StateSynReceived \<or> State ex = StateEstablished then
            tunnel_send (Node (Src pkt))
              (synack_packet pkt (if SynAckSeqSet ex then SynAckSeq ex else SendSeq ex - 1) ex) d
          else syn_gates E pkt ln d))"

text \<open>What a branch on one connection did, put into the daemon's state.\<close>

definition conn_done :: "Connection \<Rightarrow> packet list \<Rightarrow> bytes list \<Rightarrow> bool \<Rightarrow> Daemon \<Rightarrow> Daemon" where
  "conn_done c pkts taken ev d =
    (let d1 = put_conn c d;
         d2 = (if ev then publish_event (ConnFin (ID c)) d1 else d1);
         d3 = d2\<lparr> readLog := readLog d2 @ map (\<lambda>x. (ID c, x)) taken \<rparr> in
     fold (tunnel_send (Node (RemoteAddr c))) pkts d3)"

definition handleStreamPacket :: "daemon_env \<Rightarrow> packet \<Rightarrow> Daemon \<Rightarrow> Daemon option" where
  "handleStreamPacket E pkt d =
    (if HasFlag FlagSYN pkt \<and> \<not> HasFlag FlagACK pkt then Some (handle_syn E pkt d)
     else case FindConnection (DstPort pkt) (Src pkt) (SrcPort pkt) (ports d) of
       None \<Rightarrow> Some d
     | Some conn \<Rightarrow>
       if HasFlag FlagSYN pkt \<and> HasFlag FlagACK pkt then
         (if State conn \<noteq> StateSynSent then Some d
          else case synack_arrives pkt conn of (ack, c) \<Rightarrow> Some (tunnel_send (Node (Src pkt)) ack (put_conn c d)))
       else if HasFlag FlagFIN pkt then
         (case fin_arrives (de_now E) (finHoldIdle d) pkt conn of (pkts, ev, c) \<Rightarrow> Some (conn_done c pkts [] ev d))
       else if HasFlag FlagRST pkt then
         (let c = CloseRecvBuf (stopFINHold (signalDial (conn\<lparr> State := StateClosed \<rparr>))) in
          Some (publish_event (ConnRst (ID conn)) (remove_conn E (ID conn) (put_conn c d))))
       else if HasFlag FlagACK pkt then
         map_option (\<lambda>(pkts, taken, ev, c). conn_done c pkts taken ev d)
           (ack_arrives (de_now E) (de_drained E) pkt conn)
       else Some d)"

definition handleDatagramPacket :: "daemon_env \<Rightarrow> packet \<Rightarrow> Daemon \<Rightarrow> Daemon" where
  "handleDatagramPacket E pkt d =
    (if Payload pkt = [] then d
     else if \<not> Public (config d) \<and> \<not> isTrustedPeer (de_services E) (dNodeID d) (Node (Src pkt)) then
       publish_event (DatagramRejected (DstPort pkt)) d
     else if \<not> evaluatePortPolicy (de_services E) (netPolicies d) (memberTags d) PolicyEventDatagram (Network (Dst pkt))
                 (DstPort pkt) (Node (Src pkt)) (length (Payload pkt)) ''in''
     then publish_event (DatagramPortRejected (Node (Src pkt)) (DstPort pkt) (Network (Dst pkt))) d
     else
       let d1 = publish_event (DataDatagram (Src pkt) (SrcPort pkt) (DstPort pkt) (length (Payload pkt))) d in
       d1\<lparr> ipcDatagrams := ipcDatagrams d1 @ [(Src pkt, SrcPort pkt, DstPort pkt, Payload pkt)] \<rparr>)"

definition handleControlPacket :: "daemon_env \<Rightarrow> packet \<Rightarrow> Daemon \<Rightarrow> Daemon" where
  "handleControlPacket E pkt d =
    (if DstPort pkt \<noteq> PortPing (de_ports E) then d
     else if HasFlag FlagACK pkt then d
     else if \<not> admitDataPlanePeer (de_services E) (config d) (dNodeID d) (Node (Src pkt)) then d
     else
       let src = (if Node (Dst pkt) = 0 then (Dst pkt)\<lparr> Node := dNodeID d \<rparr> else Dst pkt) in
       tunnel_send (Node (Src pkt))
         \<lparr> Flags = {FlagACK}, Protocol = ProtoControl, Src = src, Dst = Src pkt, SrcPort = PortPing (de_ports E),
           DstPort = SrcPort pkt, Seq = Seq pkt, Ack = Seq pkt + 1, Window = 0, Payload = Payload pkt \<rparr> d)"

text \<open>The dispatch of \<^verbatim>\<open>handlePacket\<close>; the peer table of the tunnel is not part of this state.\<close>

definition dispatch :: "daemon_env \<Rightarrow> packet \<Rightarrow> Daemon \<Rightarrow> Daemon option" where
  "dispatch E pkt d =
    (case Protocol pkt of
       ProtoStream \<Rightarrow> handleStreamPacket E pkt d
     | ProtoDatagram \<Rightarrow> Some (handleDatagramPacket E pkt d)
     | ProtoControl \<Rightarrow> Some (handleControlPacket E pkt d)
     | ProtoOther _ \<Rightarrow> Some d)"

end
