(* ===== verification/Stream_Close.thy ===== *)
theory Stream_Close
  imports Stream_Handle
begin

text \<open>
  The end of a stream: what a close sends, when the peer's reader sees the end, and what the
  handlers do for strangers and when they are flooded.
\<close>

section \<open>The receiver and the FIN\<close>

text \<open>
  A connection whose peer's data packets and FIN are those of the wire \<open>w\<close> and \<open>fin\<close>, in any
  order and any number of times, with a reader and the delayed-acknowledgement timer.
\<close>

inductive recv_handles :: "packet list \<Rightarrow> packet \<Rightarrow> duration \<Rightarrow> Connection \<Rightarrow> bytes \<Rightarrow> Connection \<Rightarrow> bool"
  for w fin idle r0 where
  start: "recv_handles w fin idle r0 [] r0"
| data: "\<lbrakk> recv_handles w fin idle r0 out r; pkt \<in> set w; Payload pkt \<noteq> [];
    data_arrives now drained pkt r = (pkts, taken, ev, r') \<rbrakk> \<Longrightarrow> recv_handles w fin idle r0 (out @ concat taken) r'"
| fin: "\<lbrakk> recv_handles w fin idle r0 out r; fin_arrives now idle fin r = (pkts, ev, r') \<rbrakk>
    \<Longrightarrow> recv_handles w fin idle r0 out r'"
| reads: "recv_handles w fin idle r0 out r \<Longrightarrow>
    recv_handles w fin idle r0 (out @ concat (take k (RecvBuf r))) (r\<lparr> RecvBuf := drop k (RecvBuf r) \<rparr>)"
| ack_timer: "recv_handles w fin idle r0 out r \<Longrightarrow> recv_handles w fin idle r0 out (snd (ack_timer_fires r))"

text \<open>The fields the receiver's state consists of.\<close>

definition recv_view :: "Connection \<Rightarrow> u32 \<times> bytes list \<times> recvSegment list" where
  "recv_view c = (ExpectedSeq c, RecvBuf c, OOOBuf c)"

lemma recv_inv_view: "recv_view c = recv_view d \<Longrightarrow> recv_inv f b n out c = recv_inv f b n out d"
  by (auto simp: recv_view_def recv_inv_def)

lemma received_view: "recv_view c = recv_view d \<Longrightarrow> received out c = received out d"
  by (auto simp: recv_view_def received_def)

definition fin_view :: "Connection \<Rightarrow> bool \<times> u32 \<times> bool \<times> ConnState" where
  "fin_view c = (finPending c, finSeq c, RecvClosed c, State c)"

lemma sendDelayedACK_view [simp]:
  "recv_view (snd (sendDelayedACK c)) = recv_view c" "fin_view (snd (sendDelayedACK c)) = fin_view c"
  by (simp_all add: sendDelayedACK_def recv_view_def fin_view_def Let_def)

lemma ack_policy_view:
  assumes "ack_policy now c = (pkts, c')"
  shows "recv_view c' = recv_view c" and "fin_view c' = fin_view c"
proof -
  have snd_eq: "\<And>x y z. sendDelayedACK x = (y, z) \<Longrightarrow> recv_view z = recv_view x \<and> fin_view z = fin_view x"
    by (metis sendDelayedACK_view snd_conv)
  show "recv_view c' = recv_view c" "fin_view c' = fin_view c"
    using assms
    by (auto simp: ack_policy_def Let_def split: if_splits prod.splits dest!: snd_eq)
      (simp_all add: recv_view_def fin_view_def)
qed

lemma acceptFIN_view:
  assumes "acceptFIN now sq c = (pkts, ev, c')"
  shows "recv_view c' = recv_view c" and "RecvClosed c'" and "State c' = StateTimeWait" and "\<not> finPending c'"
  using assms by (auto simp: acceptFIN_def CloseRecvBuf_def stopFINHold_def recv_view_def Let_def split: if_splits)

lemma deliver_frame:
  assumes "DeliverInOrder drained sq data c = (ack, taken, c')"
  shows "finPending c' = finPending c" "finSeq c' = finSeq c" "RecvClosed c' = RecvClosed c" "State c' = State c"
proof -
  have "fin_view c' = fin_view c"
  proof (cases "RecvClosed c")
    case False
    obtain segs c1 where p1: "deliver_phase1 sq data c = (segs, c1)" by force
    obtain k tk c2 where p2: "deliver_phase2 drained segs c1 = (k, tk, c2)" by (cases "deliver_phase2 drained segs c1") auto
    obtain e c3 where p3: "deliver_phase3 segs k c2 = (e, c3)" by force
    have "c3 = c'" using assms False p1 p2 p3 by (simp add: DeliverInOrder_def)
    moreover have "fin_view c1 = fin_view c"
      using p1 by (auto simp: deliver_phase1_def fin_view_def Let_def split: if_splits prod.splits)
    moreover have "fin_view c2 = fin_view c1" using p2 by (auto simp: deliver_phase2_def fin_view_def Let_def)
    moreover have "fin_view c3 = fin_view c2" using p3 by (auto simp: deliver_phase3_eq fin_view_def Let_def)
    ultimately show ?thesis by simp
  qed (use assms in \<open>simp add: DeliverInOrder_def\<close>)
  then show "finPending c' = finPending c" "finSeq c' = finSeq c" "RecvClosed c' = RecvClosed c" "State c' = State c"
    by (simp_all add: fin_view_def)
qed

text \<open>
  Until the end the connection is established; the receive side is closed only when everything
  before the FIN, the first \<open>n\<close> bytes, has been accepted.
\<close>

definition closing_inv :: "(nat \<Rightarrow> u8) \<Rightarrow> u32 \<Rightarrow> nat \<Rightarrow> bytes \<Rightarrow> Connection \<Rightarrow> bool" where
  "closing_inv f b n out r \<longleftrightarrow>
    (\<forall>g. (\<forall>i<n. g i = f i) \<longrightarrow> recv_inv g b (received out r) out r) \<and>
    (RecvClosed r \<longrightarrow> received out r = n) \<and> (finPending r \<longrightarrow> finSeq r = b + of_nat n) \<and>
    (RecvClosed r \<longleftrightarrow> State r \<noteq> StateEstablished)"

lemma closing_received: "closing_inv f b n out r \<Longrightarrow> received out r \<le> n"
  by (rule received_bound [of n f b]) (simp add: closing_inv_def)

lemma closing_same:
  assumes "closing_inv f b n out r" and "recv_view r' = recv_view r" and "fin_view r' = fin_view r"
  shows "closing_inv f b n out r'"
  using assms recv_inv_view [OF assms(2)] received_view [OF assms(2)] by (auto simp: closing_inv_def fin_view_def)

lemma closing_accept:
  assumes "closing_inv f b n out r" and "recv_view r' = recv_view r" and "RecvClosed r'" "\<not> finPending r'"
    "State r' = StateTimeWait" and "received out r = n"
  shows "closing_inv f b n out r'"
  using assms recv_inv_view [OF assms(2)] received_view [OF assms(2)] by (auto simp: closing_inv_def)

text \<open>A FIN that is not ahead of what has been delivered.\<close>

lemma fin_reached:
  assumes "\<not> seqAfter (b + of_nat n) (b + of_nat m)" and "m \<le> n" and "n < 2 ^ 31"
  shows "m = n"
proof (rule ccontr)
  assume "m \<noteq> n"
  then obtain d where d: "n = m + d" "0 < d" using assms(2) by (metis le_iff_add less_numeral_extra(3) add.right_neutral gr0I)
  then have "unat (of_nat d :: u32) = d" using assms(3) by (simp add: unat_of_nat take_bit_nat_eq_self)
  then have "unat ((b + of_nat n :: u32) - (b + of_nat m)) = d" by (simp add: d)
  then show False using assms(1,3) d by (auto simp: seqAfter_unat)
qed

lemma closing_fin:
  assumes inv: "closing_inv f b n out r" and "fin_arrives now idle fin r = (pkts, ev, r')" and "Seq fin = b + of_nat n"
    and "n < 2 ^ 31"
  shows "closing_inv f b n out r'"
proof (cases "State r = StateEstablished \<and> \<not> RecvClosed r \<and> seqAfter (Seq fin) (ExpectedSeq r)")
  case True
  define r1 where "r1 = (if \<not> finPending r then r\<lparr> finPending := True, finSeq := Seq fin, finHoldTimer := Some (now + idle) \<rparr> else r)"
  have "closing_inv f b n out (r1\<lparr> finHeard := now \<rparr>)"
    using inv assms(3) recv_inv_view [of "r1\<lparr> finHeard := now \<rparr>" r] received_view [of "r1\<lparr> finHeard := now \<rparr>" r]
    by (auto simp: closing_inv_def r1_def recv_view_def)
  moreover have "r' = snd (sendDelayedACK (r1\<lparr> finHeard := now \<rparr>))"
    using assms(2) True by (auto simp: fin_arrives_def r1_def Let_def split: prod.splits)
  ultimately show ?thesis using closing_same by (metis sendDelayedACK_view)
next
  case False
  then have acc: "acceptFIN now (Seq fin) r = (pkts, ev, r')" using assms(2) by (auto simp: fin_arrives_def Let_def split: if_splits)
  have "received out r = n"
  proof (cases "RecvClosed r")
    case True
    then show ?thesis using inv by (simp add: closing_inv_def)
  next
    case opn: False
    have "ExpectedSeq r = b + of_nat (received out r)" using inv by (auto simp: closing_inv_def recv_inv_def)
    moreover have "\<not> seqAfter (Seq fin) (ExpectedSeq r)" using False opn inv by (auto simp: closing_inv_def)
    ultimately show ?thesis using fin_reached [of b n "received out r"] assms(3,4) closing_received [OF inv] by simp
  qed
  with closing_accept [OF inv] acceptFIN_view [OF acc] show ?thesis by simp
qed

lemma closing_data:
  assumes inv: "closing_inv f b n out r" and w: "stream_packets f b n w" and "pkt \<in> set w" "Payload pkt \<noteq> []"
    and run: "data_arrives now drained pkt r = (pkts, taken, ev, r')" and "n < 2 ^ 31"
  shows "closing_inv f b n (out @ concat taken) r'"
proof (cases "State r = StateEstablished")
  case False
  then show ?thesis using run inv by (auto simp: data_arrives_def)
next
  case True
  define r1 where "r1 = r\<lparr> LastActivity := now,
    Stats := (Stats r)\<lparr> BytesRecv := BytesRecv (Stats r) + of_nat (length (Payload pkt)), SegsRecv := SegsRecv (Stats r) + 1 \<rparr> \<rparr>"
  obtain ack tk r2 where d: "DeliverInOrder drained (Seq pkt) (Payload pkt) r1 = (ack, tk, r2)" by (metis prod.exhaust)
  have views: "recv_view r1 = recv_view r" "fin_view r1 = fin_view r" by (simp_all add: r1_def recv_view_def fin_view_def)
  note inv1 = closing_same [OF inv views]
  have step: "\<exists>E'. recv_inv g b E' (out @ concat tk) r2 \<and> ack = b + of_nat E'" if g: "\<forall>i<n. g i = f i" for g
  proof -
    have "(Seq pkt, Payload pkt, False) \<in> data_keys w" using assms(3,4) by (auto simp: data_keys_def)
    then obtain off m where off: "Seq pkt = b + of_nat off" "Payload pkt = map g [off..<m]" "off \<le> m" "m \<le> n"
        "length (Payload pkt) \<le> nat SendSegmentSize"
      using stream_packets_agree [OF w g] unfolding stream_packets_def stream_data_def by fast
    then have "piece g b off \<lparr> rseq = Seq pkt, rdata = Payload pkt \<rparr>" by (simp add: piece_def SendSegmentSize_def)
    from DeliverInOrder_inv [OF _ this _ _ d, of "received out r1" out] show ?thesis
      using inv1 g off(3,4) assms(6) closing_received [OF inv1] unfolding closing_inv_def by fastforce
  qed
  have new: "recv_inv g b (received (out @ concat tk) r2) (out @ concat tk) r2" if g: "\<forall>i<n. g i = f i" for g
    using step [OF g] received_inv by metis
  have ack: "ack = b + of_nat (received (out @ concat tk) r2)" using step [of f] received_inv by metis
  have le: "received (out @ concat tk) r2 \<le> n" by (rule received_bound [OF new])
  have fr: "finPending r2 = finPending r" "finSeq r2 = finSeq r" "RecvClosed r2 = RecvClosed r" "State r2 = State r"
    using deliver_frame [OF d] views(2) by (auto simp: fin_view_def)
  define r3 where "r3 = r2\<lparr> RecvAck := ack \<rparr>"
  have "recv_view r3 = recv_view r2" "fin_view r3 = fin_view r2" by (simp_all add: r3_def recv_view_def fin_view_def)
  moreover have "closing_inv f b n (out @ concat tk) r2"
    using new fr inv True by (auto simp: closing_inv_def)
  ultimately have inv3: "closing_inv f b n (out @ concat tk) r3" by (metis closing_same)
  have eq: "data_arrives now drained pkt r =
      (if finPending r3 \<and> \<not> seqAfter (finSeq r3) ack then
         (case acceptFIN now (finSeq r3) (r3\<lparr> finPending := False, finHoldTimer := None \<rparr>) of (pkts, ev, c4) \<Rightarrow> (pkts, tk, ev, c4))
       else (case ack_policy now (if finPending r3 then r3\<lparr> finHeard := now \<rparr> else r3) of (pkts, c4) \<Rightarrow> (pkts, tk, False, c4)))"
    using True d unfolding data_arrives_def Let_def r1_def [symmetric] by (simp add: r3_def split: prod.splits)
  show ?thesis
  proof (cases "finPending r3 \<and> \<not> seqAfter (finSeq r3) ack")
    case reached: True
    obtain pk e r4 where acc: "acceptFIN now (finSeq r3) (r3\<lparr> finPending := False, finHoldTimer := None \<rparr>) = (pk, e, r4)"
      by (metis prod.exhaust)
    have "finSeq r3 = b + of_nat n" using inv3 reached by (simp add: closing_inv_def)
    then have "received (out @ concat tk) r2 = n" using fin_reached [OF _ le] reached ack assms(6) by metis
    then have "received (out @ concat tk) r3 = n" by (simp add: r3_def received_def)
    then have "closing_inv f b n (out @ concat tk) r4"
      using closing_accept [OF inv3, of r4] acceptFIN_view [OF acc] by (simp add: recv_view_def)
    then show ?thesis using run eq reached acc by auto
  next
    case False
    let ?r = "if finPending r3 then r3\<lparr> finHeard := now \<rparr> else r3"
    obtain pk r4 where pol: "ack_policy now ?r = (pk, r4)" by (metis prod.exhaust)
    have "recv_view ?r = recv_view r3" "fin_view ?r = fin_view r3" by (simp_all add: recv_view_def fin_view_def)
    then have "closing_inv f b n (out @ concat tk) r4"
      using closing_same [OF inv3] ack_policy_view [OF pol] by metis
    then show ?thesis using run eq False pol by auto
  qed
qed

lemma closing_reads:
  assumes "closing_inv f b n out r"
  shows "closing_inv f b n (out @ concat (take k (RecvBuf r))) (r\<lparr> RecvBuf := drop k (RecvBuf r) \<rparr>)"
proof -
  let ?out = "out @ concat (take k (RecvBuf r))" and ?r = "r\<lparr> RecvBuf := drop k (RecvBuf r) \<rparr>"
  have eq: "concat (RecvBuf r) = concat (take k (RecvBuf r)) @ concat (drop k (RecvBuf r))"
    by (metis append_take_drop_id concat_append)
  have rec: "received ?out ?r = received out r" unfolding received_def eq by simp
  have "recv_inv g b (received ?out ?r) ?out ?r" if "recv_inv g b (received out r) out r" for g
    using that eq unfolding rec by (auto simp: recv_inv_def intro: le_trans [OF diff_le_self])
  then show ?thesis using assms rec by (simp add: closing_inv_def)
qed

lemma recv_handles_inv:
  assumes "recv_handles w fin idle r0 out r" and "stream_packets f b n w" and "Seq fin = b + of_nat n" and "n < 2 ^ 31"
    and "ExpectedSeq r0 = b" "RecvBuf r0 = []" "OOOBuf r0 = []" "State r0 = StateEstablished" "\<not> RecvClosed r0" "\<not> finPending r0"
  shows "closing_inv f b n out r"
  using assms(1)
proof (induction rule: recv_handles.induct)
  case start
  then show ?case using assms(5-10) by (simp add: closing_inv_def recv_inv_def received_def)
next
  case (data out r pkt now drained pkts taken ev r')
  then show ?case using closing_data [OF data.IH assms(2) data.hyps(2-4) assms(4)] by simp
next
  case (fin out r now pkts ev r')
  then show ?case using closing_fin [OF fin.IH fin.hyps(2) assms(3,4)] by simp
next
  case (reads out r k)
  then show ?case using closing_reads by simp
next
  case (ack_timer out r)
  have "recv_view (snd (ack_timer_fires r)) = recv_view r" "fin_view (snd (ack_timer_fires r)) = fin_view r"
    by (simp_all add: ack_timer_fires_def) (simp_all add: recv_view_def fin_view_def)
  then show ?case using closing_same ack_timer.IH by blast
qed

section \<open>What a close sends\<close>

text \<open>The FIN that a close of an open connection puts on the wire or holds.\<close>

definition close_fin :: "wire \<Rightarrow> packet" where
  "close_fin cw = stream_packet {FlagFIN} (fst cw) (SendSeq (fst cw)) 0 0 []"

lemma CloseConnection_sends:
  assumes "CloseConnection send True stopping linger dx now (c, w) = (ev, (c', w'))" and "State c = StateEstablished"
  obtains c1 w1 where "sendHeldTailBeforeClose send True now (c, w) = (c1, w1)"
    "w' = w1 @ [close_fin (c1, w1)] \<or> w' = w1 \<and> heldFIN c' = Some (close_fin (c1, w1))"
proof -
  obtain c1 w1 where t: "sendHeldTailBeforeClose send True now (c, w) = (c1, w1)" by (metis prod.exhaust)
  have "State c1 = StateEstablished" using sendHeldTailBeforeClose_sends [OF t, of "\<lambda>_. True"] assms(2) by auto
  then have "w' = w1 @ [close_fin (c1, w1)] \<or> w' = w1 \<and> heldFIN c' = Some (close_fin (c1, w1))"
    using assms(1)
    by (auto simp: CloseConnection_def t close_fin_def Let_def sendFIN_def releaseHeldFINIfAcked_def releaseHeldFIN_def
        CloseRecvBuf_def stopFINHold_def stream_packet_def unackedHasData_def split: if_splits)
  with t show ?thesis by (rule that)
qed

section \<open>Properties of the close\<close>

lemma sample_held_run: "send_run (\<lambda>_. True) of_nat 0 A sample_writer 5 (fst sample_held, snd sample_held)"
  using send_run.writes [of "\<lambda>_. True" of_nat 0 A sample_writer 3 "fst sample_sent" "snd sample_sent" 5 "[]" 6 "[]" 6 sample_held]
    sample_run [of A] sample_writes(2) by simp



section \<open>The send buffer\<close>

lemma sendSegment_result:
  "fst (sendSegment send evs now iv n data (c, w)) \<in>
    {Blocked, Returned None, Returned (Some ErrTunnelSend), Returned (Some ErrConnClosed)}"
proof (induction evs arbitrary: now iv n c w)
  case Nil
  then show ?case
    by (cases "WindowAvailable c") (auto simp: sendSegment_open sendSegment_full transmitSegment_def Let_def)
next
  case (Cons ev evs)
  show ?case
  proof (cases "WindowAvailable c")
    case True
    then show ?thesis by (auto simp: sendSegment_open transmitSegment_def Let_def)
  next
    case False
    then show ?thesis by (cases ev) (simp_all add: sendSegment_full Cons.IH [simplified] Let_def)
  qed
qed

text \<open>A flush never ends with a full segment in the buffer, unless it waits or failed.\<close>

lemma flushNagle_result:
  assumes "flushNagle send force False evs now (c, w) = (held, r, evs', now', (c', w'))"
  shows "(r = Returned None \<longrightarrow> int (length (NagleBuf c')) < SendSegmentSize) \<and>
    r \<in> {Blocked, Returned None, Returned (Some ErrTunnelSend), Returned (Some ErrConnClosed)}"
  using assms
proof (induction "length (NagleBuf c)" arbitrary: evs now c w rule: less_induct)
  case less
  show ?case
  proof (cases rule: flushNagle_cases [of c send force False evs now w])
    case (full n r1 evs1 now1 c1 w1)
    then have lt: "length (NagleBuf c1) < length (NagleBuf c)" by (simp add: SendSegmentSize_def)
    show ?thesis
    proof (cases "r1 = Returned None")
      case True
      then have "flushNagle send force False evs1 now1 (c1, w1) = (held, r, evs', now', (c', w'))" using less.prems full(6) by simp
      then show ?thesis by (rule less.hyps [OF lt])
    next
      case False
      then show ?thesis
        using less.prems full(4,6) sendSegment_result [of send evs now ZeroWinProbeInitial 0 "take n (NagleBuf c)"
            "c\<lparr> NagleBuf := drop n (NagleBuf c) \<rparr>" w] by simp
    qed
  next
    case (tail r1 evs1 now1 c1 w1)
    then show ?thesis
      using less.prems sendSegment_result [of send evs now ZeroWinProbeInitial 0 "NagleBuf c" "c\<lparr> NagleBuf := [] \<rparr>" w]
      by (auto simp: SendSegmentSize_def)
  qed (use less.prems in \<open>auto simp: SendSegmentSize_def\<close>)
qed

lemma drain_result:
  assumes "drainAfterSendError send err tailNow evs now (c, w) = (r, evs', now', (c', w'))"
    and "err \<noteq> Some ErrSendBufFull" and "err = None \<Longrightarrow> int (length (NagleBuf c)) < SendSegmentSize"
  shows "(r = Returned None \<longrightarrow> int (length (NagleBuf c')) < SendSegmentSize) \<and> r \<noteq> Returned (Some ErrSendBufFull)"
  using assms
proof (induction "length (NagleBuf c)" arbitrary: err evs now c w rule: less_induct)
  case less
  show ?case
  proof (cases "\<exists>e. err = Some e \<and> \<not> (e = ErrConnClosed \<or> e = ErrSendBufFull \<or> \<not> connEstablished c)")
    case False
    then show ?thesis
      using less.prems by (auto simp: drainAfterSendError.simps split: option.splits if_splits)
  next
    case True
    then obtain e where e: "err = Some e" "e \<noteq> ErrConnClosed" "e \<noteq> ErrSendBufFull" "connEstablished c" by auto
    obtain held r1 evs1 now1 c1 w1 where f: "flushNagle send tailNow False evs now (c, w) = (held, r1, evs1, now1, (c1, w1))"
      by (metis prod.exhaust)
    note F = flushNagle_result [OF f]
    have eq: "drainAfterSendError send err tailNow evs now (c, w) =
        (case r1 of Blocked \<Rightarrow> (Blocked, evs1, now1, (c1, w1))
         | Returned None \<Rightarrow> (Returned None, evs1, now1, (c1, w1))
         | Returned (Some e') \<Rightarrow> drainAfterSendError send (Some e') tailNow evs1 now1 (c1, w1))"
      by (subst drainAfterSendError.simps) (simp add: e f split: write_result.splits option.splits)
    show ?thesis
    proof (cases "\<exists>e'. r1 = Returned (Some e')")
      case True
      then obtain e' where e': "r1 = Returned (Some e')" by blast
      have lt: "length (NagleBuf c1) < length (NagleBuf c)" using flushNagle_shorter [OF f] e' by simp
      show ?thesis using less.hyps [OF lt, of "Some e'" evs1 now1 w1] less.prems(1) F eq e' by auto
    next
      case False
      then show ?thesis using less.prems(1) F eq by (auto split: write_result.splits option.splits)
    qed
  qed
qed

lemma drained_piece_result:
  assumes "drained_piece send tailNow data evs now (c, w) = (r, evs', now', (c', w'))"
    and "int (length (NagleBuf c)) < SendSegmentSize" and "length data \<le> nagleWritePiece"
  shows "(r = Returned None \<longrightarrow> int (length (NagleBuf c')) < SendSegmentSize) \<and> r \<noteq> Returned (Some ErrSendBufFull)"
proof -
  let ?c = "c\<lparr> NagleBuf := NagleBuf c @ data \<rparr>"
  obtain held r1 evs1 now1 c1 w1 where f: "flushNagle send tailNow False evs now (?c, w) = (held, r1, evs1, now1, (c1, w1))"
    by (metis prod.exhaust)
  have "\<not> int (length (NagleBuf c)) + int (length data) > MaxNagleBuf"
    using assms(2,3) by (simp add: MaxNagleBuf_def MaxSegmentSize_def nagleWritePiece_def SendSegmentSize_def)
  then have eq: "drained_piece send tailNow data evs now (c, w) =
      (case r1 of Returned err \<Rightarrow> drainAfterSendError send err tailNow evs1 now1 (c1, w1) | Blocked \<Rightarrow> (Blocked, evs1, now1, (c1, w1)))"
    by (simp add: drained_piece_def sendDataPiece_def f split: write_result.splits)
  show ?thesis
  proof (cases r1)
    case (Returned err)
    then show ?thesis using drain_result [of send err tailNow evs1 now1 c1 w1] flushNagle_result [OF f] assms(1) eq by auto
  qed (use assms(1) eq in simp)
qed

lemma send_pieces_result:
  assumes "send_pieces send tailNow data evs now (c, w) = (r, evs', now', (c', w'))"
    and "int (length (NagleBuf c)) < SendSegmentSize"
  shows "(r = Returned None \<longrightarrow> int (length (NagleBuf c')) < SendSegmentSize) \<and> r \<noteq> Returned (Some ErrSendBufFull)"
  using assms
proof (induction "length data" arbitrary: data evs now c w rule: less_induct)
  case less
  show ?case
  proof (cases "length data > nagleWritePiece")
    case False
    then show ?thesis using less.prems drained_piece_result [of send tailNow data evs now c w] by (simp add: send_pieces_eq)
  next
    case True
    let ?p = "take nagleWritePiece data" and ?q = "drop nagleWritePiece data"
    obtain r1 evs1 now1 c1 w1 where f: "drained_piece send tailNow ?p evs now (c, w) = (r1, evs1, now1, (c1, w1))"
      by (metis prod.exhaust)
    note F = drained_piece_result [OF f less.prems(2)]
    have eq: "send_pieces send tailNow data evs now (c, w) = (if r1 = Returned None then
          (if \<not> connEstablished c1 then (Returned (Some ErrConnClosed), evs1, now1, (c1, w1))
           else send_pieces send tailNow ?q evs1 now1 (c1, w1)) else (r1, evs1, now1, (c1, w1)))"
      using True by (subst send_pieces_eq) (simp add: f split: write_result.splits option.splits)
    have lt: "length ?q < length data" using True by (simp add: nagleWritePiece_def SendSegmentSize_def)
    show ?thesis using less.hyps [OF lt, of evs1 now1 c1 w1] less.prems(1) F eq by (auto split: if_splits)
  qed
qed

lemma sendDataImmediate_result:
  assumes "sendDataImmediate send data evs now (c, w) = (r, evs', now', (c', w'))"
  shows "NagleBuf c' = NagleBuf c \<and> r \<noteq> Returned (Some ErrSendBufFull)"
  using assms
proof (induction "length data" arbitrary: data evs now c w rule: less_induct)
  case less
  show ?case
  proof (cases "data = []")
    case True
    then show ?thesis using less.prems by (auto simp: sendDataImmediate.simps)
  next
    case False
    define n where "n = nat SendSegmentSize"
    obtain r1 evs1 now1 c1 w1 where f: "sendSegment send evs now ZeroWinProbeInitial 0 (take n data) (c, w) = (r1, evs1, now1, (c1, w1))"
      by (metis prod.exhaust)
    have buf: "NagleBuf c1 = NagleBuf c" using sendSegment_buf [of send evs now ZeroWinProbeInitial 0 "take n data" c w] f by simp
    have eq: "sendDataImmediate send data evs now (c, w) =
        (if r1 = Returned None then sendDataImmediate send (drop n data) evs1 now1 (c1, w1) else (r1, evs1, now1, (c1, w1)))"
      using False by (subst sendDataImmediate.simps) (simp add: n_def [symmetric] f Let_def split: write_result.splits option.splits)
    have lt: "length (drop n data) < length data" using False by (simp add: n_def SendSegmentSize_def)
    show ?thesis
      using less.hyps [OF lt, of evs1 now1 c1 w1] less.prems eq buf f
        sendSegment_result [of send evs now ZeroWinProbeInitial 0 "take n data" c w] by (auto split: if_splits)
  qed
qed

text \<open>
  A write is never refused for lack of buffer, however large it is: as long as the buffer
  holds less than a segment, as it does at the start and again after every write that returned
  without error, \<^verbatim>\<open>SendData\<close> does not return \<^verbatim>\<open>ErrSendBufFull\<close>.
\<close>

theorem write_never_refused:
  assumes "int (length (NagleBuf c)) < SendSegmentSize"
    and "SendData send data evs now (c, w) = (r, evs', now', (c', w'))"
  shows "r \<noteq> Returned (Some ErrSendBufFull) \<and>
    (r = Returned None \<longrightarrow> int (length (NagleBuf c')) < SendSegmentSize)"
  using assms send_pieces_result [of send _ data evs now c w r evs' now' c' w']
    sendDataImmediate_result [of send data evs now c w r evs' now' c' w']
  by (auto simp: SendData_def split: if_splits)

section \<open>A write that waits while the connection is closed\<close>

lemma closed_while_waiting:
  assumes "connEstablished c" and "Unacked c = []" and "CongWin c \<ge> MaxSegmentSize"
    and d: "d = peer_window 64 (fst (snd (CloseConnection (\<lambda>_. True) False False linger dx now (c, w))))"
  shows "SendSeq d = SendSeq c + 1" and "State d = StateFinWait" and "WindowAvailable (d\<lparr> NagleBuf := x, WindowCh := y \<rparr>)"
proof -
  define e where "e = fst (snd (CloseConnection (\<lambda>_. True) False False linger dx now (c, w)))"
  have e: "SendSeq e = SendSeq c + 1" "State e = StateFinWait" "CongWin e = CongWin c"
      "\<exists>fin. Unacked e = [fin] \<and> length (edata fin) = 1"
    using assms(1,2)
    by (auto simp: e_def CloseConnection_def sendHeldTailBeforeClose_def unackedHasData_def connEstablished_def sendFIN_def
        CloseRecvBuf_def stopFINHold_def Let_def)
  have d': "d = peer_window 64 e" using d by (simp add: e_def)
  show "SendSeq d = SendSeq c + 1" "State d = StateFinWait" using e by (simp_all add: d' peer_window_def Let_def)
  have un: "Unacked d = Unacked e" "CongWin d = CongWin c" "PeerRecvWin d = 64 * 1152"
    using e by (simp_all add: d' peer_window_def SendSegmentSize_def Let_def)
  obtain fin where fin: "Unacked e = [fin]" "length (edata fin) = 1" using e by blast
  then show "WindowAvailable (d\<lparr> NagleBuf := x, WindowCh := y \<rparr>)"
    using assms(3)
    by (simp add: WindowAvailable_def EffectiveWindow_def un fin entry_len_def MaxSegmentSize_def SendSegmentSize_def
        MaxSegmentsOutstanding_def MaxOOOBuf_def go_div_def Let_def)
qed

text \<open>
  (C26) A write that waits for the peer's window when the connection is closed still sends its data,
  with sequence numbers after the FIN's, and returns without error: the close cannot take the
  send lock that the waiting writer holds, and the writer does not look at the state again once
  the window opens. The peer, which has seen the end of the stream at the FIN, never delivers this
  data.
\<close>

theorem write_after_fin:
  assumes "connEstablished c" and "\<not> NoDelay c" and "NagleBuf c = []" and "Unacked c = []" and "PeerRecvWin c = 0"
    and "CongWin c \<ge> MaxSegmentSize" and "data \<noteq> []" and "int (length data) < SendSegmentSize"
  shows "\<exists>c' pkt. SendData (\<lambda>_. True) data
      [WindowSignal now (\<lambda>d. peer_window 64 (fst (snd (CloseConnection (\<lambda>_. True) False False linger dx now (d, w)))))] t (c, w) =
      (Returned None, [], now, (c', w @ [pkt])) \<and>
    Payload pkt = data \<and> Seq pkt = Seq (close_fin (c, w)) + 1 \<and> State c' = StateFinWait"
proof -
  let ?f = "\<lambda>d. peer_window 64 (fst (snd (CloseConnection (\<lambda>_. True) False False linger dx now (d, w))))"
  let ?c = "c\<lparr> NagleBuf := data \<rparr>"
  define d where "d = (others ?f c)\<lparr> WindowCh := map_option (\<lambda>_. False) (WindowCh (others ?f c)) \<rparr>"
  have same: "c\<lparr> NagleBuf := [] \<rparr> = c" using assms(3) by simp
  note W = closed_while_waiting [OF assms(1,4,6) refl, where linger = linger and dx = dx and now = now and w = w]
  have d: "SendSeq d = SendSeq c + 1" "State d = StateFinWait" "WindowAvailable d"
    using W by (simp_all add: d_def others_def)
  have full: "\<not> WindowAvailable c"
    using assms(4-6) by (simp add: WindowAvailable_def EffectiveWindow_def InitialCongWin_def MaxSegmentSize_def Let_def)
  have seg: "sendSegment (\<lambda>_. True) [WindowSignal now ?f] t ZeroWinProbeInitial 0 data (c\<lparr> NagleBuf := [] \<rparr>, w) =
      (Returned None, [], now, snd (transmitSegment (\<lambda>_. True) now data (d, w)))"
    unfolding same sendSegment_full(3) [OF full] d_def [symmetric]
    by (simp add: sendSegment_open [OF d(3)] transmitSegment_def Let_def)
  have hold: "\<not> nagleHoldsTail ?c" using assms(4) by (simp add: nagleHoldsTail_def)
  have "flushNagle (\<lambda>_. True) False False [WindowSignal now ?f] t (?c, w) =
      (False, Returned None, [], now, snd (transmitSegment (\<lambda>_. True) now data (d, w)))"
    by (subst flushNagle.simps) (use assms(7,8) hold seg in \<open>simp add: Let_def\<close>)
  moreover have "drainAfterSendError (\<lambda>_. True) None False [] now cw = (Returned None, [], now, cw)" for cw
    by (cases cw) (simp add: drainAfterSendError.simps)
  moreover have "int (length (NagleBuf c)) + int (length data) \<le> MaxNagleBuf"
    using assms(3,8) by (simp add: MaxNagleBuf_def MaxSegmentSize_def SendSegmentSize_def)
  moreover have "length data \<le> nagleWritePiece" using assms(8) by (simp add: nagleWritePiece_def SendSegmentSize_def)
  ultimately have "SendData (\<lambda>_. True) data [WindowSignal now ?f] t (c, w) =
      (Returned None, [], now, snd (transmitSegment (\<lambda>_. True) now data (d, w)))"
    using assms(1-3,8)
    by (simp add: SendData_def send_pieces_eq drained_piece_def sendDataPiece_def)
  then show ?thesis
    using d by (simp add: transmitSegment_def TrackSend_def stream_packet_def close_fin_def Let_def)
qed

theorem write_after_fin_witness:
  "\<exists>c' pkt. SendData (\<lambda>_. True) [1, 2, 3]
      [WindowSignal 8 (\<lambda>d. peer_window 64 (fst (snd (CloseConnection (\<lambda>_. True) False False second 1001 8 (d, [])))))] 7
      (sample_writer\<lparr> PeerRecvWin := 0 \<rparr>, []) = (Returned None, [], 8, (c', [pkt])) \<and> Payload pkt = [1, 2, 3] \<and> Seq pkt = 1"
  using write_after_fin [of "sample_writer\<lparr> PeerRecvWin := 0 \<rparr>" "[1, 2, 3]" 8 second 1001 "[]" 7]
  by (auto simp: sample_writer_defs connEstablished_def InitialCongWin_def MaxSegmentSize_def SendSegmentSize_def
      close_fin_def stream_packet_def)

end
