(* ===== verification/Daemon_Guard.thy ===== *)
theory Daemon_Guard
  imports Stream_Close
begin

text \<open>
  What the packet handlers of the daemon guarantee against peers that are not trusted, that flood
  it or that repeat themselves.
\<close>

section \<open>What a packet leaves alone in its connection\<close>

definition ident :: "Connection \<Rightarrow> u32 \<times> u16 \<times> Addr \<times> u16 \<times> packet option \<times> bytes list \<times> recvSegment list" where
  "ident c = (ID c, LocalPort c, RemoteAddr c, RemotePort c, heldFIN c, RecvBuf c, OOOBuf c)"

definition keeps :: "Connection \<Rightarrow> Connection \<Rightarrow> bool" where
  "keeps c c' \<longleftrightarrow> ident c' = ident c \<and> State c' = State c"

lemma keeps_refl [simp, intro]: "keeps c c"
  by (simp add: keeps_def)

lemma keeps_trans: "\<lbrakk> keeps c c1; keeps c1 c2 \<rbrakk> \<Longrightarrow> keeps c c2"
  by (simp add: keeps_def)

lemma keeps_simps [simp]:
  "keeps c (signal_window_if d) = keeps c d" "keeps c (signal_nagle_if d) = keeps c d"
  "keeps c (add_dup_stats x y d) = keeps c d" "keeps c (inflate d) = keeps c d"
  "keeps c (enter_fast_recovery sq d) = keeps c d" "keeps c (updateRTT t d) = keeps c d"
  "keeps c (advance_ack ak d) = keeps c d" "keeps c (drop_acked now ak d) = keeps c d"
  "keeps c (d\<lparr> CongWin := cw \<rparr>) = keeps c d" "keeps c (d\<lparr> WindowCh := ch \<rparr>) = keeps c d"
  "keeps c (d\<lparr> DupAckCount := k \<rparr>) = keeps c d" "keeps c (d\<lparr> Unacked := es \<rparr>) = keeps c d"
  "keeps c (d\<lparr> Stats := st \<rparr>) = keeps c d" "keeps c (rtt_sample now ak d) = keeps c d"
  "keeps c (peer_window win d) = keeps c d"
  by (simp_all add: keeps_def ident_def signal_window_if_def signal_nagle_if_def add_dup_stats_def inflate_def
      enter_fast_recovery_def updateRTT_def advance_ack_def drop_acked_def rtt_sample_def peer_window_def Let_def
      split: option.splits)

lemma keeps_fastRetransmit [simp]: "keeps c (snd (snd (fastRetransmit now ra d))) = keeps c d"
  using fastRetransmit_frame(1) [of now ra d] keeps_simps(12) by metis

lemma keeps_dup_ack [simp]: "keeps c (snd (dup_ack now d)) = keeps c d"
  by (simp add: dup_ack_def Let_def split_beta)

lemma keeps_new_ack:
  assumes "new_ack now ak c = Some (pkts, d)"
  shows "keeps c d"
proof -
  from assms obtain c4 c5 where
    c4: "recovery_ack now (RecvAck c) (bytes_acked ak c) (InRecovery c) (FastRecovery c) (acked_state now ak c) = (pkts, c4)"
    and c5: "c5 = c4 \<or> grow_window (bytes_acked ak c) c4 = Some c5"
    and d: "d = signal_nagle_if (c5\<lparr> WindowCh := chan_signal (WindowCh c5) \<rparr>)" by (elim new_ack_SomeD)
  have "keeps c (snd (recovery_ack now (RecvAck c) (bytes_acked ak c) (InRecovery c) (FastRecovery c) (acked_state now ak c)))"
    by (simp add: recovery_ack_def acked_state_def)
  then have "keeps c c4" using c4 by simp
  then show ?thesis using c5 d by (auto simp: grow_window_def Let_def split: if_splits)
qed

lemma keeps_ProcessAck: "ProcessAck now ak pure c = Some (pkts, d) \<Longrightarrow> keeps c d"
  using keeps_new_ack keeps_dup_ack [of c now c]
  by (auto simp: ProcessAck_def simp del: keeps_dup_ack split: if_splits)

lemma keeps_ProcessSACK [simp]: "keeps c (ProcessSACK blocks d) = keeps c d"
  by (simp add: ProcessSACK_def Let_def)

text \<open>As \<open>keeps\<close>, but the connection may have ended, and a held FIN may have been sent.\<close>

definition ends :: "Connection \<Rightarrow> Connection \<Rightarrow> bool" where
  "ends c c' \<longleftrightarrow> ID c' = ID c \<and> LocalPort c' = LocalPort c \<and> RemoteAddr c' = RemoteAddr c \<and> RemotePort c' = RemotePort c \<and>
    heldFIN c' \<in> {None, heldFIN c} \<and> State c' \<in> {State c, StateTimeWait}"

lemma ends_trans: "\<lbrakk> ends c c1; ends c1 c2 \<rbrakk> \<Longrightarrow> ends c c2"
  by (auto simp: ends_def)

lemma keeps_ends: "keeps c d \<Longrightarrow> ends c d"
  by (simp add: keeps_def ends_def ident_def)

lemma ends_sendDelayedACK: "ends c (snd (sendDelayedACK c))"
  by (simp add: sendDelayedACK_def ends_def Let_def)

lemma ends_acceptFIN: "acceptFIN now sq c = (pkts, ev, c') \<Longrightarrow> ends c c'"
  by (auto simp: acceptFIN_def CloseRecvBuf_def stopFINHold_def ends_def Let_def split: if_splits)

lemma ends_release: "ends c (fst (releaseHeldFINIfAcked now (c, w)))"
  by (simp add: releaseHeldFINIfAcked_def releaseHeldFIN_def sendFIN_def ends_def Let_def split: option.splits)

lemma ends_fin_arrives:
  assumes "fin_arrives now idle pkt c = (pkts, ev, c')"
  shows "ends c c'"
proof -
  have "ends c (snd (sendDelayedACK d))" if "ends c d" for d using ends_trans [OF that ends_sendDelayedACK] .
  then have "sendDelayedACK d = (a, e) \<Longrightarrow> ends c d \<Longrightarrow> ends c e" for d a e by (metis snd_conv)
  with assms show ?thesis
    by (auto simp: fin_arrives_def Let_def split: if_splits prod.splits intro: ends_acceptFIN) (auto simp: ends_def)
qed

lemma ends_ack_policy:
  assumes "ack_policy now c = (pkts, c')"
  shows "ends c c'"
proof -
  have s: "ends c (snd (sendDelayedACK d))" if "ends c d" for d using ends_trans [OF that ends_sendDelayedACK] .
  have "ends c c" "\<And>x. ends c (c\<lparr> PendingACKs := x \<rparr>)" "\<And>x y. ends c (c\<lparr> PendingACKs := x, QuickACKs := y \<rparr>)"
      "\<And>x y. ends c (c\<lparr> PendingACKs := x, ACKTimer := y \<rparr>)" by (simp_all add: ends_def)
  then show ?thesis using assms s by (auto simp: ack_policy_def Let_def split_beta split: if_splits)
qed

lemma deliver_ends:
  assumes "DeliverInOrder drained sq data c = (ack, taken, c')"
  shows "ends c c'"
proof (cases "RecvClosed c")
  case False
  obtain segs c1 where p1: "deliver_phase1 sq data c = (segs, c1)" by force
  obtain k tk c2 where p2: "deliver_phase2 drained segs c1 = (k, tk, c2)" by (cases "deliver_phase2 drained segs c1") auto
  obtain e c3 where p3: "deliver_phase3 segs k c2 = (e, c3)" by force
  have "ends c c1" using p1 by (auto simp: deliver_phase1_def ends_def Let_def split: if_splits prod.splits)
  moreover have "ends c1 c2" using p2 by (auto simp: deliver_phase2_def ends_def Let_def)
  moreover have "ends c2 c3" using p3 by (auto simp: deliver_phase3_eq ends_def Let_def)
  moreover have "c3 = c'" using assms False p1 p2 p3 by (simp add: DeliverInOrder_def)
  ultimately show ?thesis by (blast intro: ends_trans)
qed (use assms in \<open>simp add: DeliverInOrder_def keeps_ends\<close>)

lemma ends_data_arrives:
  assumes "data_arrives now drained pkt c = (pkts, taken, ev, c')"
  shows "ends c c'"
proof (cases "State c = StateEstablished")
  case True
  define c1 where "c1 = c\<lparr> LastActivity := now,
    Stats := (Stats c)\<lparr> BytesRecv := BytesRecv (Stats c) + of_nat (length (Payload pkt)), SegsRecv := SegsRecv (Stats c) + 1 \<rparr> \<rparr>"
  obtain ack tk c2 where d: "DeliverInOrder drained (Seq pkt) (Payload pkt) c1 = (ack, tk, c2)" by (metis prod.exhaust)
  have "ends c c1" by (simp add: ends_def c1_def)
  from ends_trans [OF this deliver_ends [OF d]] have e: "ends c (c2\<lparr> RecvAck := ack \<rparr>)"
    "ends c (c2\<lparr> RecvAck := ack, finHeard := now \<rparr>)" "ends c (c2\<lparr> RecvAck := ack, finPending := False, finHoldTimer := None \<rparr>)"
    by (simp_all add: ends_def)
  then show ?thesis
    using assms True d unfolding data_arrives_def Let_def c1_def [symmetric]
    by (auto split: if_splits prod.splits intro: ends_trans dest!: ends_acceptFIN ends_ack_policy)
qed (use assms in \<open>simp add: data_arrives_def keeps_ends\<close>)

lemma ack_arrives_SomeD:
  assumes "ack_arrives now drained pkt c = Some (pkts, taken, ev, c')"
  obtains pure resent c3 c4 rel where
    "ProcessAck now (Ack pkt) pure (peer_window (Window pkt) (c\<lparr> LastActivity := now, KeepaliveUnacked := 0 \<rparr>)) = Some (resent, c3)"
    "releaseHeldFINIfAcked now (c3, resent) = (c4, rel)"
    "pkts = rel \<and> \<not> ev \<and> c' = c4 \<or> pkts = rel \<and> \<not> ev \<and> (\<exists>blocks. c' = ProcessSACK blocks c4) \<or>
     (\<exists>pk. pkts = rel @ pk \<and> data_arrives now drained pkt c4 = (pk, taken, ev, c'))"
proof -
  define c2 where "c2 = peer_window (Window pkt) (c\<lparr> LastActivity := now, KeepaliveUnacked := 0 \<rparr>)"
  define pure where "pure = (if DecodeSACK (Payload pkt) = None \<and> PeerRecvWin c2 \<noteq> PeerRecvWin (c\<lparr> LastActivity := now, KeepaliveUnacked := 0 \<rparr>)
    then False else Payload pkt = [] \<or> DecodeSACK (Payload pkt) \<noteq> None)"
  have eq: "ack_arrives now drained pkt c =
      (case ProcessAck now (Ack pkt) pure c2 of None \<Rightarrow> None
       | Some (resent, c3) \<Rightarrow>
         (case releaseHeldFINIfAcked now (c3, resent) of (c4, pkts) \<Rightarrow>
          case DecodeSACK (Payload pkt) of
            Some blocks \<Rightarrow> Some (pkts, [], False, ProcessSACK blocks c4)
          | None \<Rightarrow> if Payload pkt \<noteq> [] then
              (case data_arrives now drained pkt c4 of (pkts', taken, ev, c5) \<Rightarrow> Some (pkts @ pkts', taken, ev, c5))
            else Some (pkts, [], False, c4)))"
    unfolding ack_arrives_def Let_def c2_def pure_def ..
  from assms obtain resent c3 where p: "ProcessAck now (Ack pkt) pure c2 = Some (resent, c3)"
    unfolding eq by (auto split: option.splits)
  obtain c4 rel where r: "releaseHeldFINIfAcked now (c3, resent) = (c4, rel)" by (metis prod.exhaust)
  have "pkts = rel \<and> \<not> ev \<and> c' = c4 \<or> pkts = rel \<and> \<not> ev \<and> (\<exists>blocks. c' = ProcessSACK blocks c4) \<or>
     (\<exists>pk. pkts = rel @ pk \<and> data_arrives now drained pkt c4 = (pk, taken, ev, c'))"
    using assms unfolding eq by (auto simp: p r split: option.splits if_splits prod.splits)
  then show ?thesis using that p r by (simp add: c2_def)
qed

lemma ends_ack_arrives:
  assumes "ack_arrives now drained pkt c = Some (pkts, taken, ev, c')"
  shows "ends c c'"
proof -
  from assms obtain pure resent c3 c4 rel where
      p: "ProcessAck now (Ack pkt) pure (peer_window (Window pkt) (c\<lparr> LastActivity := now, KeepaliveUnacked := 0 \<rparr>)) = Some (resent, c3)"
    and r: "releaseHeldFINIfAcked now (c3, resent) = (c4, rel)"
    and out: "pkts = rel \<and> \<not> ev \<and> c' = c4 \<or> pkts = rel \<and> \<not> ev \<and> (\<exists>blocks. c' = ProcessSACK blocks c4) \<or>
     (\<exists>pk. pkts = rel @ pk \<and> data_arrives now drained pkt c4 = (pk, taken, ev, c'))" by (rule ack_arrives_SomeD)
  have "keeps c (peer_window (Window pkt) (c\<lparr> LastActivity := now, KeepaliveUnacked := 0 \<rparr>))"
    unfolding keeps_simps by (simp add: keeps_def ident_def)
  from keeps_ends [OF keeps_trans [OF this keeps_ProcessAck [OF p]]] have "ends c c3" .
  moreover have "ends c3 c4" using ends_release [of c3 now resent] r by simp
  ultimately have e4: "ends c c4" by (rule ends_trans)
  from out show ?thesis using e4 ends_trans [OF e4] keeps_ends [of c4] ends_data_arrives by auto
qed

section \<open>One FIN-ACK\<close>

text \<open>What can happen to a connection that its application does not close.\<close>

datatype peer_event =
    FinComes instant packet
  | AckComes instant nat packet
  | FinHoldEnds instant
  | AckTimerEnds

fun peer_acts :: "duration \<Rightarrow> peer_event \<Rightarrow> Connection \<Rightarrow> packet list \<times> Connection" where
  "peer_acts idle (FinComes now pkt) c = (case fin_arrives now idle pkt c of (pkts, ev, c') \<Rightarrow> (pkts, c'))"
| "peer_acts idle (AckComes now drained pkt) c =
    (case ack_arrives now drained pkt c of None \<Rightarrow> ([], c) | Some (pkts, taken, ev, c') \<Rightarrow> (pkts, c'))"
| "peer_acts idle (FinHoldEnds now) c = (case expireHeldFIN now idle c of (pkts, ev, c') \<Rightarrow> (pkts, c'))"
| "peer_acts idle AckTimerEnds c = (case ack_timer_fires c of (ack, c') \<Rightarrow> ([ack], c'))"

fun peer_run :: "duration \<Rightarrow> peer_event list \<Rightarrow> Connection \<Rightarrow> packet list" where
  "peer_run idle [] c = []"
| "peer_run idle (ev # evs) c = (case peer_acts idle ev c of (pkts, c') \<Rightarrow> pkts @ peer_run idle evs c')"

definition fin_acks :: "packet list \<Rightarrow> nat" where
  "fin_acks pkts = length (filter (\<lambda>p. Flags p = {FlagFIN, FlagACK}) pkts)"

lemma fin_acks_simps [simp]:
  "fin_acks [] = 0" "fin_acks (p # ps) = (if Flags p = {FlagFIN, FlagACK} then 1 else 0) + fin_acks ps"
  "fin_acks (ps @ qs) = fin_acks ps + fin_acks qs"
  by (simp_all add: fin_acks_def)

definition held_ok :: "Connection \<Rightarrow> bool" where
  "held_ok c \<longleftrightarrow> (\<forall>fin. heldFIN c = Some fin \<longrightarrow> Flags fin = {FlagFIN})"

text \<open>At most one FIN-ACK, none from TIME_WAIT, and only on the way there.\<close>

definition fin_ack_ok :: "Connection \<Rightarrow> packet list \<Rightarrow> Connection \<Rightarrow> bool" where
  "fin_ack_ok c pkts c' \<longleftrightarrow> fin_acks pkts \<le> 1 \<and> (State c = StateTimeWait \<longrightarrow> fin_acks pkts = 0 \<and> State c' = StateTimeWait) \<and>
    (fin_acks pkts = 1 \<longrightarrow> State c' = StateTimeWait)"

lemma sendDelayedACK_flags: "Flags (fst (sendDelayedACK c)) = {FlagACK}"
  by (simp add: sendDelayedACK_def stream_packet_def Let_def)

lemma fin_ack_none: "\<lbrakk> fin_acks pkts = 0; ends c c' \<rbrakk> \<Longrightarrow> fin_ack_ok c pkts c'"
  by (auto simp: fin_ack_ok_def ends_def)

lemma fin_ack_accept: "acceptFIN now sq c = (pkts, ev, c') \<Longrightarrow> fin_ack_ok c pkts c'"
  using acceptFIN_view(3) [of now sq c pkts ev c']
  by (auto simp: fin_ack_ok_def acceptFIN_def CloseRecvBuf_def stopFINHold_def stream_packet_def Let_def split: if_splits)

lemma ack_policy_none: "ack_policy now c = (pkts, c') \<Longrightarrow> fin_acks pkts = 0"
  using sendDelayedACK_flags by (auto simp: ack_policy_def Let_def split_beta doubleton_eq_iff split: if_splits)

lemma fin_ack_data:
  assumes "data_arrives now drained pkt c = (pkts, taken, ev, c')"
  shows "fin_ack_ok c pkts c'"
proof (cases "State c = StateEstablished")
  case True
  obtain c3 where "fin_acks pkts = 0 \<or> (\<exists>sq. acceptFIN now sq c3 = (pkts, ev, c'))"
    using assms by (auto simp: data_arrives_def Let_def split: if_splits prod.splits dest: ack_policy_none)
  then show ?thesis
    using True fin_ack_none [OF _ ends_data_arrives [OF assms]] fin_ack_accept [of now _ c3 pkts ev c']
    by (auto simp: fin_ack_ok_def)
next
  case False
  then show ?thesis using fin_ack_none [OF _ ends_data_arrives [OF assms]] assms by (simp add: data_arrives_def)
qed

lemma release_sends:
  assumes "releaseHeldFINIfAcked now (c, w) = (c', w')"
  shows "State c' = State c" and "w' = w \<or> (\<exists>fin. heldFIN c = Some fin \<and> w' = w @ [fin])"
proof -
  have "State (fst (releaseHeldFIN now (c, w))) = State c"
    by (simp add: releaseHeldFIN_def sendFIN_def Let_def split: option.splits)
  moreover have "snd (releaseHeldFIN now (c, w)) = w \<or> (\<exists>fin. heldFIN c = Some fin \<and> snd (releaseHeldFIN now (c, w)) = w @ [fin])"
    by (simp add: releaseHeldFIN_def sendFIN_def Let_def split: option.splits)
  ultimately show "State c' = State c" "w' = w \<or> (\<exists>fin. heldFIN c = Some fin \<and> w' = w @ [fin])"
    using assms by (auto simp: releaseHeldFINIfAcked_def split: if_splits)
qed

lemma fin_ack_ack:
  assumes "ack_arrives now drained pkt c = Some (pkts, taken, ev, c')" and "held_ok c"
  shows "fin_ack_ok c pkts c'"
proof -
  from assms(1) obtain pure resent c3 c4 rel where
      p: "ProcessAck now (Ack pkt) pure (peer_window (Window pkt) (c\<lparr> LastActivity := now, KeepaliveUnacked := 0 \<rparr>)) = Some (resent, c3)"
    and r: "releaseHeldFINIfAcked now (c3, resent) = (c4, rel)"
    and out: "pkts = rel \<and> \<not> ev \<and> c' = c4 \<or> pkts = rel \<and> \<not> ev \<and> (\<exists>blocks. c' = ProcessSACK blocks c4) \<or>
     (\<exists>pk. pkts = rel @ pk \<and> data_arrives now drained pkt c4 = (pk, taken, ev, c'))" by (rule ack_arrives_SomeD)
  let ?c2 = "peer_window (Window pkt) (c\<lparr> LastActivity := now, KeepaliveUnacked := 0 \<rparr>)"
  have "\<forall>x\<in>set resent. repeats ?c2 x"
    using p new_ack_repeats [of now "Ack pkt" ?c2] dup_ack_repeats [of now ?c2] by (auto simp: ProcessAck_def split: if_splits)
  then have "\<forall>x\<in>set resent. Flags x \<noteq> {FlagFIN, FlagACK}" by (auto simp: repeats_def doubleton_eq_iff split: if_splits)
  then have res: "fin_acks resent = 0" by (simp add: fin_acks_def filter_empty_conv)
  have "keeps c ?c2" unfolding keeps_simps by (simp add: keeps_def ident_def)
  then have k: "keeps c c3" using keeps_ProcessAck [OF p] keeps_trans by blast
  then have "held_ok c3" using assms(2) by (simp add: held_ok_def keeps_def ident_def)
  then have "\<And>fin. heldFIN c3 = Some fin \<Longrightarrow> Flags fin \<noteq> {FlagFIN, FlagACK}" by (auto simp: held_ok_def)
  then have rel: "fin_acks rel = 0" "State c4 = State c3" using release_sends [OF r] res by auto
  have st: "State c4 = State c" using rel(2) k by (simp add: keeps_def)
  show ?thesis
  proof (cases "\<exists>pk. pkts = rel @ pk \<and> data_arrives now drained pkt c4 = (pk, taken, ev, c')")
    case True
    then obtain pk where pk: "pkts = rel @ pk" "data_arrives now drained pkt c4 = (pk, taken, ev, c')" by blast
    then show ?thesis using fin_ack_data [OF pk(2)] rel(1) st by (simp add: fin_ack_ok_def)
  next
    case False
    then show ?thesis using out rel(1) fin_ack_none [OF _ ends_ack_arrives [OF assms(1)]] by auto
  qed
qed

lemma peer_acts_ok:
  assumes "peer_acts idle ev c = (pkts, c')" and "held_ok c"
  shows "fin_ack_ok c pkts c' \<and> held_ok c'"
proof -
  have held: "held_ok c'" if "ends c c'" for c' using that assms(2) by (auto simp: held_ok_def ends_def)
  show ?thesis
  proof (cases ev)
    case (FinComes now pkt)
    then obtain e where f: "fin_arrives now idle pkt c = (pkts, e, c')" using assms(1) by (auto split: prod.splits)
    have "fin_acks pkts = 0 \<or> acceptFIN now (Seq pkt) c = (pkts, e, c')"
      using f sendDelayedACK_flags by (auto simp: fin_arrives_def Let_def split_beta doubleton_eq_iff split: if_splits)
    then show ?thesis using fin_ack_none fin_ack_accept held ends_fin_arrives [OF f] by blast
  next
    case (AckComes now drained pkt)
    show ?thesis
    proof (cases "ack_arrives now drained pkt c")
      case None
      then show ?thesis using assms AckComes fin_ack_none [OF _ keeps_ends [OF keeps_refl]] by auto
    next
      case (Some res)
      then obtain tk e where a: "ack_arrives now drained pkt c = Some (pkts, tk, e, c')"
        using assms(1) AckComes by (auto split: prod.splits)
      then show ?thesis using fin_ack_ack [OF a assms(2)] held [OF ends_ack_arrives [OF a]] by blast
    qed
  next
    case (FinHoldEnds now)
    then obtain e where x: "expireHeldFIN now idle c = (pkts, e, c')" using assms(1) by (auto split: prod.splits)
    show ?thesis
    proof (cases "acceptFIN now (finSeq c) (c\<lparr> finPending := False, finHoldTimer := None \<rparr>) = (pkts, e, c')")
      case True
      then have "fin_ack_ok c pkts c'" "ends c c'"
        using fin_ack_accept [OF True] ends_acceptFIN [OF True] by (simp_all add: fin_ack_ok_def ends_def)
      then show ?thesis using held by blast
    next
      case False
      then have "pkts = []" "ends c c'" using x by (auto simp: expireHeldFIN_def ends_def Let_def split: if_splits)
      then show ?thesis using fin_ack_none held by simp
    qed
  next
    case AckTimerEnds
    then have "pkts = [fst (ack_timer_fires c)]" "c' = snd (ack_timer_fires c)" using assms(1) by (auto split: prod.splits)
    moreover have "ends c (snd (ack_timer_fires c))"
      using ends_sendDelayedACK [of "c\<lparr> QuickACKs := QuickACKBudget \<rparr>"] by (simp add: ack_timer_fires_def ends_def)
    ultimately show ?thesis
      using fin_ack_none held sendDelayedACK_flags by (simp add: ack_timer_fires_def doubleton_eq_iff)
  qed
qed

lemma peer_run_fin_acks: "held_ok c \<Longrightarrow> fin_acks (peer_run idle evs c) \<le> (if State c = StateTimeWait then 0 else 1)"
proof (induction evs arbitrary: c)
  case (Cons ev evs)
  obtain pkts c' where s: "peer_acts idle ev c = (pkts, c')" by force
  from peer_acts_ok [OF s Cons.prems] have ok: "fin_ack_ok c pkts c'" "held_ok c'" by auto
  from Cons.IH [OF ok(2)] ok(1) show ?case by (auto simp: s fin_ack_ok_def split: if_splits)
qed simp

text \<open>
  (C19) No FIN storm. Whatever packets come from the peer, in whatever number, and whenever the
  timers fire, a connection answers with a FIN-ACK at most once, and never once it is in TIME_WAIT.
  Two peers that have both seen the other's FIN therefore stop answering each other.
\<close>

theorem fin_ack_at_most_once:
  assumes "\<forall>fin. heldFIN c = Some fin \<longrightarrow> Flags fin = {FlagFIN}"
  shows "length (filter (\<lambda>p. Flags p = {FlagFIN, FlagACK}) (peer_run idle evs c)) \<le> (if State c = StateTimeWait then 0 else 1)"
  using peer_run_fin_acks [of c idle evs] assms by (simp add: fin_acks_def held_ok_def)

theorem fin_ack_at_most_once_witness:
  "length (filter (\<lambda>p. Flags p = {FlagFIN, FlagACK})
    (peer_run second (replicate 3 (FinComes 7 (close_fin sample_held))) sample_writer)) \<le> 1"
  using fin_ack_at_most_once [of sample_writer second "replicate 3 (FinComes 7 (close_fin sample_held))"]
  by (simp add: sample_writer_defs)

section \<open>Strangers\<close>

text \<open>
  A packet of a node that is not trusted in any way, for which there is no connection. (That the
  source address of a packet is that of the peer whose key it was sealed with is a property of
  the tunnel.)
\<close>

definition stranger :: "daemon_env \<Rightarrow> packet \<Rightarrow> Daemon \<Rightarrow> bool" where
  "stranger E pkt d \<longleftrightarrow> \<not> syn_trusted E pkt d \<and>
    FindConnection (DstPort pkt) (Src pkt) (SrcPort pkt) (ports d) = None"

definition grown :: "(node_id \<times> packet) list \<Rightarrow> daemon_event list \<Rightarrow> Daemon \<Rightarrow> Daemon" where
  "grown answer evs d = d\<lparr> sentPkts := sentPkts d @ answer, busEvents := busEvents d @ evs \<rparr>"

lemma grown_eqs:
  "d = grown [] [] d" "tunnel_send i p d = grown [(i, p)] [] d" "publish_event ev d = grown [] [ev] d"
  by (simp_all add: grown_def tunnel_send_def publish_event_def)

lemma stranger_syn:
  assumes "stranger E pkt d"
  shows "handle_syn E pkt d = (if GetListener (DstPort pkt) (ports d) = None then sendRST pkt d
    else publish_event (SynRejected (DstPort pkt)) d)"
  using assms by (auto simp: handle_syn_def stranger_def syn_gates_def split: option.splits)

text \<open>
  (C8) A stranger changes nothing. On a private node, a packet of any kind from a node that neither
  the handshake service nor the registry trusts and that was not contacted by this node leaves the
  ports and connections, the rate limiters and everything delivered to applications as they were;
  it gets at most one packet in return, an RST or the answer to a ping.
\<close>

theorem stranger_has_no_effect:
  assumes "stranger E pkt d"
  shows "\<exists>answer evs. dispatch E pkt d = Some (d\<lparr> sentPkts := sentPkts d @ answer, busEvents := busEvents d @ evs \<rparr>) \<and>
    (answer = [] \<or> (\<exists>p. answer = [(Node (Src pkt), p)] \<and> Payload p \<in> {[], Payload pkt} \<and>
      (Flags p = {FlagRST} \<or> Protocol p = ProtoControl)))"
proof -
  let ?ok = "\<lambda>answer. answer = [] \<or> (\<exists>p. answer = [(Node (Src pkt), p)] \<and> Payload p \<in> {[], Payload pkt} \<and>
      (Flags p = {FlagRST} \<or> Protocol p = ProtoControl))"
  have trust: "\<not> Public (config d) \<and> \<not> isTrustedPeer (de_services E) (dNodeID d) (Node (Src pkt))"
    using assms by (simp add: stranger_def syn_trusted_def isTrustedPeer_def)
  have "dispatch E pkt d = Some d \<or> (\<exists>ev. dispatch E pkt d = Some (publish_event ev d)) \<or>
      (\<exists>p. dispatch E pkt d = Some (tunnel_send (Node (Src pkt)) p d) \<and> ?ok [(Node (Src pkt), p)])"
  proof (cases "Protocol pkt")
    case ProtoStream
    then show ?thesis
      using assms stranger_syn [OF assms]
      by (auto simp: dispatch_def handleStreamPacket_def stranger_def sendRST_def)
  next
    case ProtoDatagram
    then show ?thesis using trust by (auto simp: dispatch_def handleDatagramPacket_def)
  qed (auto simp: dispatch_def handleControlPacket_def Let_def)
  then have "\<exists>answer evs. dispatch E pkt d = Some (grown answer evs d) \<and> ?ok answer"
    by (metis grown_eqs)
  then show ?thesis unfolding grown_def by blast
qed

definition sample_services :: Services where
  "sample_services = \<lparr> handshakes = Some (IsTrusted (\<lambda>i. i = 5)), CheckTrust = Some (\<lambda>_ _. False),
    peerPubKeyCached = (\<lambda>_. None), policyManager = None, nodeInfoTagsFor = (\<lambda>_. []) \<rparr>"

definition sample_env :: daemon_env where
  "sample_env = \<lparr> de_now = 9 * second, de_services = sample_services, de_scaled = (\<lambda>e l. e * l div second),
    de_ports = \<lparr> PortDataExchange = 1001, PortHandshake = 444, PortPing = 7 \<rparr>, de_emin = 49152, de_emax = 65535, de_drained = 0 \<rparr>"

definition sample_daemon :: Daemon where
  "sample_daemon = \<lparr> config = \<lparr> KeepaliveInterval = 0, IdleTimeout = 0, SYNRateLimit = 0, MaxConnectionsPerPort = 0,
      MaxTotalConnections = 0, TimeWaitDuration = 0, Public = False, StrictDataPlaneTrust = False \<rparr>,
    dNodeID = 3, ports = snd (Bind 80 (NewPortManager 49152)), synBucket = (100, 0), perSrcSYN = Map.empty,
    synWhitelistAll = False, synWhitelist = None, outbound = Map.empty, netPolicies = Map.empty, memberTags = Map.empty,
    AcceptQueueDrops = 0, finHoldIdle = defaultFinHoldIdle, sentPkts = [], busEvents = [], ipcDatagrams = [], readLog = [] \<rparr>"

definition sample_syn :: "node_id \<Rightarrow> packet" where
  "sample_syn i = \<lparr> Flags = {FlagSYN}, Protocol = ProtoStream, Src = \<lparr> Network = 0, Node = i \<rparr>, Dst = \<lparr> Network = 0, Node = 3 \<rparr>,
    SrcPort = 49300, DstPort = 80, Seq = 41, Ack = 0, Window = 512, Payload = [] \<rparr>"

lemmas sample_daemon_defs = sample_services_def sample_env_def sample_daemon_def sample_syn_def

theorem stranger_has_no_effect_witness:
  "map_option (\<lambda>d. (ports d, ipcDatagrams d)) (dispatch sample_env (sample_syn 6) sample_daemon) =
    Some (ports sample_daemon, ipcDatagrams sample_daemon)"
proof -
  have "stranger sample_env (sample_syn 6) sample_daemon"
    by (simp add: sample_daemon_defs stranger_def syn_trusted_def handshakeTrusts_def registry_trusts_def replyWindowAdmits_def
        recent_def FindConnection_def Bind_def NewPortManager_def Let_def)
  from stranger_has_no_effect [OF this] show ?thesis by auto
qed

end
