(* ===== verification/Daemon_Inv.thy ===== *)
theory Daemon_Inv
  imports Daemon_Guard
begin

text \<open>
  The invariant of the daemon's connection table: no packet, whatever its fields and whatever the
  order, makes a handler panic, overruns a buffer of a connection or takes the table over its caps.
\<close>

section \<open>The state stays well formed\<close>

text \<open>The window never closes for good: the divisor of congestion avoidance is positive.\<close>

definition cong_low :: "Connection \<Rightarrow> bool" where
  "cong_low c \<longleftrightarrow> MaxSegmentSize \<le> CongWin c \<and> 2 * MaxSegmentSize \<le> SSThresh c"

lemma cong_low_same: "\<lbrakk> CongWin d = CongWin c; SSThresh d = SSThresh c \<rbrakk> \<Longrightarrow> cong_low d = cong_low c"
  by (simp add: cong_low_def)

lemma cong_low_inflate: "cong_low c \<Longrightarrow> cong_low (inflate c)"
  by (simp add: cong_low_def inflate_def signal_window_if_def window_consts Let_def)

lemma cong_low_enter: "cong_low (enter_fast_recovery sq c)"
  by (simp add: cong_low_def enter_fast_recovery_def signal_window_if_def half_flight_def window_consts Let_def)

lemma cong_low_dup_ack: "cong_low c \<Longrightarrow> cong_low (snd (dup_ack now c))"
proof -
  assume low: "cong_low c"
  have st: "cong_low (add_dup_stats x y d) = cong_low d" for x y d by (simp add: cong_low_def add_dup_stats_def)
  have fr: "cong_low (snd (snd (fastRetransmit now ra d))) = cong_low d" for ra d by (rule cong_low_same) simp_all
  have "cong_low (c\<lparr> DupAckCount := k \<rparr>)" for k using low by (simp add: cong_low_def)
  then show ?thesis
    using low by (simp add: dup_ack_def Let_def split_beta st fr cong_low_inflate cong_low_enter)
qed

lemma cong_low_new_ack:
  assumes "cong_low c"
  shows "\<exists>pkts d. new_ack now ak c = Some (pkts, d) \<and> cong_low d"
proof -
  define n where "n = bytes_acked ak c"
  define c3 where "c3 = acked_state now ak c"
  have low3: "cong_low c3" by (rule cong_low_same [THEN iffD2, OF _ _ assms]) (simp_all add: c3_def acked_state_def drop_acked_def)
  obtain pkts c4 where c4: "recovery_ack now (RecvAck c) n (InRecovery c) (FastRecovery c) c3 = (pkts, c4)" by force
  have "cong_low (snd (recovery_ack now (RecvAck c) n (InRecovery c) (FastRecovery c) c3))"
    using low3 by (auto simp: recovery_ack_def cong_low_def partial_window_def window_consts Let_def)
  then have low4: "cong_low c4" using c4 by simp
  define grow where "grow \<longleftrightarrow> n > 0 \<and> \<not> (FastRecovery c \<and> InRecovery c \<and> InRecovery c4)"
  have "grow \<Longrightarrow> \<exists>c5. grow_window n c4 = Some c5 \<and> cong_low c5"
    using low4 by (auto simp: grow_window_def cong_low_def window_consts grow_def Let_def)
  then obtain c5 where c5: "(if grow then grow_window n c4 else Some c4) = Some c5" "cong_low c5" using low4 by (cases grow) auto
  have "new_ack now ak c = Some (pkts, signal_nagle_if (c5\<lparr> WindowCh := chan_signal (WindowCh c5) \<rparr>))"
    using c4 c5(1) unfolding grow_def n_def c3_def acked_state_def by (simp add: new_ack_def Let_def)
  moreover have "cong_low (signal_nagle_if (c5\<lparr> WindowCh := chan_signal (WindowCh c5) \<rparr>))"
    using c5(2) by (simp add: cong_low_def signal_nagle_if_def)
  ultimately show ?thesis by blast
qed

lemma cong_low_ProcessAck:
  assumes "cong_low c"
  shows "\<exists>pkts d. ProcessAck now ak pure c = Some (pkts, d) \<and> cong_low d"
proof -
  obtain pk d where "dup_ack now c = (pk, d)" by force
  then show ?thesis
    using cong_low_new_ack [OF assms, of now ak] cong_low_dup_ack [OF assms, of now] assms by (auto simp: ProcessAck_def)
qed

text \<open>A connection whose fields are in range.\<close>

definition conn_ok :: "Connection \<Rightarrow> bool" where
  "conn_ok c \<longleftrightarrow> cong_low c \<and> recv_bounded c \<and> held_ok c"

definition conn_fields :: "Connection \<Rightarrow> int \<times> int \<times> recvSegment list \<times> bytes list \<times> packet option" where
  "conn_fields c = (CongWin c, SSThresh c, OOOBuf c, RecvBuf c, heldFIN c)"

lemma conn_ok_same: "conn_fields d = conn_fields c \<Longrightarrow> conn_ok d = conn_ok c"
  by (simp add: conn_ok_def conn_fields_def cong_low_def recv_bounded_def held_ok_def)

lemma sendDelayedACK_fields: "conn_fields (snd (sendDelayedACK c)) = conn_fields c"
  by (simp add: sendDelayedACK_def conn_fields_def Let_def)

lemma ack_policy_fields: "ack_policy now c = (pkts, c') \<Longrightarrow> conn_fields c' = conn_fields c"
  using sendDelayedACK_fields
  by (auto simp: ack_policy_def Let_def split_beta split: if_splits) (simp_all add: conn_fields_def)

lemma acceptFIN_fields: "acceptFIN now sq c = (pkts, ev, c') \<Longrightarrow> conn_fields c' = conn_fields c"
  by (auto simp: acceptFIN_def CloseRecvBuf_def stopFINHold_def conn_fields_def Let_def split: if_splits)

lemma peer_window_fields: "conn_fields (peer_window win c) = conn_fields c"
  by (simp add: peer_window_def conn_fields_def Let_def)

lemma fin_arrives_ok:
  assumes "fin_arrives now idle pkt c = (pkts, ev, c')" and "conn_ok c"
  shows "conn_ok c'"
proof -
  have "conn_fields c' = conn_fields c"
    using assms(1) sendDelayedACK_fields
    by (auto simp: fin_arrives_def Let_def split_beta split: if_splits dest: acceptFIN_fields) (simp_all add: conn_fields_def)
  then show ?thesis using assms(2) conn_ok_same by blast
qed

lemma deliver_cong:
  assumes "DeliverInOrder drained sq data c = (ack, taken, c')"
  shows "CongWin c' = CongWin c" "SSThresh c' = SSThresh c" "heldFIN c' = heldFIN c"
proof -
  have "CongWin c' = CongWin c \<and> SSThresh c' = SSThresh c \<and> heldFIN c' = heldFIN c"
  proof (cases "RecvClosed c")
    case False
    obtain segs c1 where p1: "deliver_phase1 sq data c = (segs, c1)" by force
    obtain k tk c2 where p2: "deliver_phase2 drained segs c1 = (k, tk, c2)" by (cases "deliver_phase2 drained segs c1") auto
    obtain e c3 where p3: "deliver_phase3 segs k c2 = (e, c3)" by force
    have "CongWin c1 = CongWin c \<and> SSThresh c1 = SSThresh c \<and> heldFIN c1 = heldFIN c"
      using p1 by (auto simp: deliver_phase1_def Let_def split: if_splits prod.splits)
    moreover have "CongWin c2 = CongWin c1 \<and> SSThresh c2 = SSThresh c1 \<and> heldFIN c2 = heldFIN c1"
      using p2 by (auto simp: deliver_phase2_def Let_def)
    moreover have "CongWin c3 = CongWin c2 \<and> SSThresh c3 = SSThresh c2 \<and> heldFIN c3 = heldFIN c2"
      using p3 by (auto simp: deliver_phase3_eq Let_def)
    moreover have "c3 = c'" using assms False p1 p2 p3 by (simp add: DeliverInOrder_def)
    ultimately show ?thesis by simp
  qed (use assms in \<open>simp add: DeliverInOrder_def\<close>)
  then show "CongWin c' = CongWin c" "SSThresh c' = SSThresh c" "heldFIN c' = heldFIN c" by auto
qed

lemma deliver_ok:
  assumes "DeliverInOrder drained sq data c = (ack, taken, c')" and "conn_ok c"
  shows "conn_ok c'"
  using assms(2) deliver_cong [OF assms(1)] DeliverInOrder_bounded [of c drained sq data] assms(1)
  by (auto simp: conn_ok_def cong_low_def held_ok_def)

lemma data_arrives_ok:
  assumes "data_arrives now drained pkt c = (pkts, taken, ev, c')" and "conn_ok c"
  shows "conn_ok c'"
proof (cases "State c = StateEstablished")
  case True
  define c1 where "c1 = c\<lparr> LastActivity := now,
    Stats := (Stats c)\<lparr> BytesRecv := BytesRecv (Stats c) + of_nat (length (Payload pkt)), SegsRecv := SegsRecv (Stats c) + 1 \<rparr> \<rparr>"
  obtain ack tk c2 where d: "DeliverInOrder drained (Seq pkt) (Payload pkt) c1 = (ack, tk, c2)" by (metis prod.exhaust)
  have "conn_ok c1" using assms(2) by (subst conn_ok_same [of _ c]) (simp_all add: c1_def conn_fields_def)
  then have ok2: "conn_ok c2" by (rule deliver_ok [OF d])
  have "conn_fields c' = conn_fields c2"
    using assms(1) True d unfolding data_arrives_def Let_def c1_def [symmetric]
    by (auto split: if_splits prod.splits dest!: acceptFIN_fields ack_policy_fields) (simp_all add: conn_fields_def)
  then show ?thesis using ok2 conn_ok_same [of c' c2] by auto
qed (use assms in \<open>simp add: data_arrives_def\<close>)

lemma ack_arrives_ok:
  assumes "conn_ok c"
  shows "\<exists>pkts taken ev c'. ack_arrives now drained pkt c = Some (pkts, taken, ev, c') \<and> conn_ok c'"
proof -
  let ?c2 = "peer_window (Window pkt) (c\<lparr> LastActivity := now, KeepaliveUnacked := 0 \<rparr>)"
  have "conn_fields (c\<lparr> LastActivity := now, KeepaliveUnacked := 0 \<rparr>) = conn_fields c" by (simp add: conn_fields_def)
  then have ok2: "conn_ok ?c2" using assms conn_ok_same [of ?c2 c] peer_window_fields by simp
  have p: "\<exists>resent c3. ProcessAck now ak pure ?c2 = Some (resent, c3) \<and> conn_ok c3" for ak pure
  proof -
    from cong_low_ProcessAck [of ?c2 now ak pure] ok2 obtain resent c3
      where a: "ProcessAck now ak pure ?c2 = Some (resent, c3)" "cong_low c3" by (auto simp: conn_ok_def)
    have "held_ok c3" using keeps_ProcessAck [OF a(1)] ok2 by (simp add: keeps_def ident_def conn_ok_def held_ok_def)
    moreover have "recv_bounded c3"
      using keeps_ProcessAck [OF a(1)] ok2 by (simp add: keeps_def ident_def conn_ok_def recv_bounded_def)
    ultimately show ?thesis using a by (auto simp: conn_ok_def)
  qed
  have r: "conn_ok (fst (releaseHeldFINIfAcked now (c3, resent)))" if "conn_ok c3" for c3 resent
    using that by (auto simp: releaseHeldFINIfAcked_def releaseHeldFIN_def sendFIN_def conn_ok_def cong_low_def
        recv_bounded_def held_ok_def Let_def split: option.splits)
  have s: "conn_ok (ProcessSACK blocks c4)" if "conn_ok c4" for blocks c4
    using that by (subst conn_ok_same [of _ c4]) (simp_all add: conn_fields_def ProcessSACK_def signal_nagle_if_def signal_window_if_def Let_def)
  define pure where "pure \<longleftrightarrow> (Payload pkt = [] \<or> DecodeSACK (Payload pkt) \<noteq> None) \<and>
    \<not> (DecodeSACK (Payload pkt) = None \<and> PeerRecvWin ?c2 \<noteq> PeerRecvWin c)"
  from p [of "Ack pkt" pure] obtain resent c3 where c3: "ProcessAck now (Ack pkt) pure ?c2 = Some (resent, c3)" "conn_ok c3"
    by blast
  obtain c4 pkts where c4: "releaseHeldFINIfAcked now (c3, resent) = (c4, pkts)" by force
  have ok4: "conn_ok c4" using r [OF c3(2), of resent] c4 by simp
  obtain pkts' taken ev c5 where c5: "data_arrives now drained pkt c4 = (pkts', taken, ev, c5)" by (metis prod.exhaust)
  have eq: "ack_arrives now drained pkt c =
    (case DecodeSACK (Payload pkt) of
       Some blocks \<Rightarrow> Some (pkts, [], False, ProcessSACK blocks c4)
     | None \<Rightarrow> if Payload pkt \<noteq> [] then Some (pkts @ pkts', taken, ev, c5) else Some (pkts, [], False, c4))"
    using c3(1) c4 c5
    by (cases "DecodeSACK (Payload pkt)"; cases "Payload pkt = []"; cases "PeerRecvWin ?c2 = PeerRecvWin c")
      (simp_all add: ack_arrives_def pure_def Let_def)
  show ?thesis
    using s [OF ok4] ok4 data_arrives_ok [OF c5 ok4]
    by (cases "DecodeSACK (Payload pkt)"; cases "Payload pkt = []") (auto simp: eq)
qed

section \<open>The daemon's table\<close>

definition daemon_ok :: "u16 \<Rightarrow> u16 \<Rightarrow> Daemon \<Rightarrow> bool" where
  "daemon_ok emin emax d \<longleftrightarrow> pm_inv emin emax (ports d) \<and> (\<forall>c\<in>set (all_conns (ports d)). conn_ok c)"

lemma daemon_frame [simp]:
  "ports (publish_event ev d) = ports d" "config (publish_event ev d) = config d"
  "ports (tunnel_send i pkt d) = ports d" "config (tunnel_send i pkt d) = config d"
  "ports (sendRST pkt d) = ports d" "config (sendRST pkt d) = config d"
  "config (put_conn c d) = config d" "config (remove_conn E i d) = config d"
  "ports (put_conn c d) = set_connection c (ports d)"
  "ports (remove_conn E i d) = snd (RemoveConnection (de_emin E) (de_emax E) i (ports d))"
  by (simp_all add: publish_event_def tunnel_send_def sendRST_def put_conn_def remove_conn_def)

lemma fold_tunnel_send [simp]:
  "ports (fold (tunnel_send i) pkts d) = ports d" "config (fold (tunnel_send i) pkts d) = config d"
  by (induction pkts arbitrary: d) simp_all

lemma conn_done_frame [simp]:
  "ports (conn_done c pkts taken ev d) = set_connection c (ports d)" "config (conn_done c pkts taken ev d) = config d"
  by (simp_all add: conn_done_def Let_def)

lemma daemon_ok_ports: "ports d = ports d0 \<Longrightarrow> daemon_ok emin emax d = daemon_ok emin emax d0"
  by (simp add: daemon_ok_def)

lemma FindConnection_SomeD:
  assumes "FindConnection lp ra rp pm = Some c"
  shows "c \<in> set (all_conns pm)" and "same_tuple lp ra rp c"
proof -
  have "find_conn lp ra rp fb cs = Some c \<Longrightarrow> fb = Some c \<or> (c \<in> snd ` set cs \<and> same_tuple lp ra rp c)" for fb cs
    by (induction lp ra rp fb cs rule: find_conn.induct) (auto split: if_splits)
  from this [of None "connections pm"] assms
  show "c \<in> set (all_conns pm)" "same_tuple lp ra rp c" by (simp_all add: FindConnection_def all_conns_def)
qed

lemma set_connection_conns: "set (all_conns (set_connection c pm)) \<subseteq> insert c (set (all_conns pm))"
  using set_connection_entries(1) [of c pm] by (auto simp: all_conns_def)

lemma connections_Remove [simp]:
  "connections (snd (RemoveConnection emin emax i pm)) = AList.delete i (connections pm)"
  by (auto simp: RemoveConnection_def clearEphPortLocked_def Let_def split: option.splits)

lemma connections_New:
  assumes "NewConnection emin emax now lp ra rp pm = (c, pm1)"
  shows "connections pm1 = AList.update (nextConnID pm) c (connections pm)"
    and "c = new_connection now (nextConnID pm) lp ra rp"
  using assms by (auto simp: NewConnection_def markEphPortUsedLocked_def Let_def split: option.splits)

lemma remove_conns: "set (all_conns (snd (RemoveConnection emin emax i pm))) \<subseteq> set (all_conns pm)"
  by (auto simp: all_conns_def AList.delete_eq)

lemma new_conns:
  assumes "NewConnection emin emax now lp ra rp pm = (c, pm1)"
  shows "set (all_conns pm1) \<subseteq> insert c (set (all_conns pm))"
  using alist_update_entries by (fastforce simp: all_conns_def connections_New(1) [OF assms])

lemma daemon_ok_put:
  assumes "daemon_ok emin emax d" and "conn_ok c" and "c0 \<in> set (all_conns (ports d))"
    and "LocalPort c = LocalPort c0" and "active_state (State c) \<Longrightarrow> active_state (State c0)"
    and "ports d' = set_connection c (ports d)"
  shows "daemon_ok emin emax d'"
proof -
  have "active_state (State c) \<Longrightarrow> LocalPort c \<in> eph_pool emin emax \<Longrightarrow> LocalPort c \<in> eph_used emin emax (ports d)"
    using assms by (force simp: daemon_ok_def pm_inv_def ports_marked_def all_conns_def)
  then have "pm_inv emin emax (set_connection c (ports d))" using assms(1) by (auto simp: daemon_ok_def intro: pm_inv_update)
  then show ?thesis using assms(1,2,6) set_connection_conns [of c "ports d"] by (auto simp: daemon_ok_def)
qed

lemma daemon_ok_remove: "daemon_ok (de_emin E) (de_emax E) d \<Longrightarrow> daemon_ok (de_emin E) (de_emax E) (remove_conn E i d)"
  using remove_conns [of "de_emin E" "de_emax E" i "ports d"] by (auto simp: daemon_ok_def intro: pm_inv_Remove)

lemma new_connection_ok: "conn_ok (new_connection now i lp ra rp)"
  by (simp add: conn_ok_def cong_low_def recv_bounded_def held_ok_def new_connection_def window_consts)

section \<open>Counting the active connections\<close>

text \<open>The active connections whose local port satisfies a predicate.\<close>

definition usage :: "(u16 \<Rightarrow> bool) \<Rightarrow> PortManager \<Rightarrow> nat" where
  "usage Q pm = length (filter (\<lambda>x. Q (LocalPort (snd x)) \<and> active_state (State (snd x))) (connections pm))"

lemma usage_counts:
  "TotalActiveConnections pm = usage (\<lambda>_. True) pm" "ConnectionCountForPort p pm = usage (\<lambda>q. q = p) pm"
  by (simp_all add: TotalActiveConnections_def ConnectionCountForPort_def usage_def all_conns_def filter_map
      comp_def split_beta)

lemma usage_listeners [simp]: "usage Q (pm\<lparr> listeners := l \<rparr>) = usage Q pm"
  by (simp add: usage_def)

lemma usage_remove: "usage Q (snd (RemoveConnection emin emax i pm)) \<le> usage Q pm"
proof -
  have "length (filter P (filter R xs)) \<le> length (filter P xs)" for P R and xs :: "(u32 \<times> Connection) list"
    by (induction xs) auto
  then show ?thesis by (simp add: usage_def AList.delete_eq)
qed

lemma usage_new:
  assumes "NewConnection emin emax now lp ra rp pm = (c, pm1)"
  shows "usage Q pm1 \<le> usage Q pm"
proof -
  have "\<not> active_state (State v) \<Longrightarrow>
    length (filter (\<lambda>x. Q (LocalPort (snd x)) \<and> active_state (State (snd x))) (AList.update k v xs))
      \<le> length (filter (\<lambda>x. Q (LocalPort (snd x)) \<and> active_state (State (snd x))) xs)" for k v xs
    by (induction xs) auto
  moreover have "\<not> active_state (State c)" using connections_New(2) [OF assms] by (simp add: active_state_def)
  ultimately show ?thesis using connections_New(1) [OF assms] by (simp add: usage_def)
qed

lemma usage_set:
  assumes "distinct (map fst (connections pm))"
  shows "usage Q (set_connection c pm) \<le> usage Q pm + (if Q (LocalPort c) then 1 else 0)"
proof -
  let ?P = "\<lambda>x. Q (LocalPort (snd x)) \<and> active_state (State (snd x))"
  let ?f = "\<lambda>(i, d). if i = ID c then (i, c) else (i, d)"
  have same: "ID c \<notin> fst ` set xs \<Longrightarrow> map ?f xs = xs" for xs by (induction xs) auto
  have "distinct (map fst xs) \<Longrightarrow>
    length (filter ?P (map ?f xs)) \<le> length (filter ?P xs) + (if Q (LocalPort c) then 1 else 0)" for xs
  proof (induction xs)
    case (Cons x xs)
    then show ?case
    proof (cases "fst x = ID c")
      case True
      then have "map ?f xs = xs" using Cons.prems by (intro same) auto
      then show ?thesis using True by (cases x) auto
    qed (auto split: prod.splits)
  qed simp
  then show ?thesis using assms by (simp add: usage_def set_connection_def)
qed

lemma usage_keep:
  assumes "distinct (map fst (connections pm))" and "(ID c, c0) \<in> set (connections pm)"
    and "LocalPort c = LocalPort c0" and "active_state (State c) \<Longrightarrow> active_state (State c0)"
  shows "usage Q (set_connection c pm) \<le> usage Q pm"
proof -
  let ?P = "\<lambda>x. Q (LocalPort (snd x)) \<and> active_state (State (snd x))"
  let ?f = "\<lambda>(i, d). if i = ID c then (i, c) else (i, d)"
  have "length (filter ?P (map ?f xs)) \<le> length (filter ?P xs)"
    if "\<And>d. (ID c, d) \<in> set xs \<Longrightarrow> d = c0" for xs
    using that assms(3,4)
  proof (induction xs)
    case (Cons x xs)
    then have "length (filter ?P (map ?f xs)) \<le> length (filter ?P xs)" by simp
    then show ?case using Cons.prems by (cases x) auto
  qed simp
  moreover have "d = c0" if "(ID c, d) \<in> set (connections pm)" for d
    using that assms(1,2) by (metis map_of_is_SomeI option.inject)
  ultimately show ?thesis by (simp add: usage_def set_connection_def)
qed

section \<open>One packet\<close>

text \<open>What a handler may do to the table: nothing more active than before.\<close>

definition settles :: "daemon_env \<Rightarrow> Daemon \<Rightarrow> Daemon \<Rightarrow> bool" where
  "settles E d d' \<longleftrightarrow> daemon_ok (de_emin E) (de_emax E) d' \<and> config d' = config d \<and>
    (\<forall>Q. usage Q (ports d') \<le> usage Q (ports d))"

definition env_ok :: "daemon_env \<Rightarrow> Daemon \<Rightarrow> bool" where
  "env_ok E d \<longleftrightarrow> daemon_ok (de_emin E) (de_emax E) d"

lemma settles_trans: "\<lbrakk> settles E d d1; settles E d1 d2 \<rbrakk> \<Longrightarrow> settles E d d2"
  by (auto simp: settles_def intro: le_trans)

lemma settles_frame: "\<lbrakk> env_ok E d; ports d' = ports d; config d' = config d \<rbrakk> \<Longrightarrow> settles E d d'"
  by (simp add: settles_def env_ok_def daemon_ok_def)

lemma settles_put:
  assumes "env_ok E d" and "conn_ok c" and "c0 \<in> set (all_conns (ports d))" and "ID c = ID c0"
    and "LocalPort c = LocalPort c0" and "active_state (State c) \<Longrightarrow> active_state (State c0)"
    and "ports d' = set_connection c (ports d)" and "config d' = config d"
  shows "settles E d d'"
proof -
  have inv: "pm_inv (de_emin E) (de_emax E) (ports d)" using assms(1) by (simp add: env_ok_def daemon_ok_def)
  then have "(ID c, c0) \<in> set (connections (ports d))" using assms(3,4) by (auto simp: pm_inv_def all_conns_def)
  then have "usage Q (ports d') \<le> usage Q (ports d)" for Q
    using usage_keep [of "ports d" c c0 Q] inv assms(5-7) by (simp add: pm_inv_def)
  moreover have "daemon_ok (de_emin E) (de_emax E) d'"
    using daemon_ok_put [OF assms(1) [unfolded env_ok_def] assms(2,3,5,6,7)] by simp
  ultimately show ?thesis using assms(8) by (simp add: settles_def)
qed

lemma settles_ends:
  assumes "env_ok E d" and "c0 \<in> set (all_conns (ports d))" and "ends c0 c" and "conn_ok c"
    and "ports d' = set_connection c (ports d)" and "config d' = config d"
  shows "settles E d d'"
  using assms by (intro settles_put [of E d c c0]) (auto simp: ends_def active_state_def)

lemma settles_remove: "env_ok E d \<Longrightarrow> settles E d (remove_conn E i d)"
  using daemon_ok_remove [of E d i] by (simp add: settles_def env_ok_def usage_remove)

lemma settles_drop:
  assumes "env_ok E d" and "c0 \<in> set (all_conns (ports d))" and "ID c = ID c0" and "LocalPort c = LocalPort c0"
    and "conn_ok c" and "\<not> active_state (State c)"
  shows "settles E d (remove_conn E i (put_conn c d))"
proof -
  have "settles E d (put_conn c d)" using assms by (intro settles_put [of E d c c0]) simp_all
  moreover from this have "env_ok E (put_conn c d)" by (simp add: settles_def env_ok_def)
  then have "settles E (put_conn c d) (remove_conn E i (put_conn c d))" by (rule settles_remove)
  ultimately show ?thesis by (rule settles_trans)
qed

lemma known_conn_ok: "\<lbrakk> env_ok E d; c \<in> set (all_conns (ports d)) \<rbrakk> \<Longrightarrow> conn_ok c"
  by (simp add: env_ok_def daemon_ok_def)

lemma syn_rate_gates_frame [simp]:
  "ports (snd (syn_rate_gates E pkt d)) = ports d" "config (snd (syn_rate_gates E pkt d)) = config d"
  by (simp_all add: syn_rate_gates_def split: prod.split bool.split)

text \<open>An accepted SYN adds at most one active connection, on the port it is for.\<close>

lemma syn_accept_settles:
  assumes "env_ok E d"
  shows "daemon_ok (de_emin E) (de_emax E) (syn_accept E pkt ln d)" and "config (syn_accept E pkt ln d) = config d"
    and "usage Q (ports (syn_accept E pkt ln d)) \<le> usage Q (ports d) + (if Q (DstPort pkt) then 1 else 0)"
proof -
  obtain conn pm where new: "NewConnection (de_emin E) (de_emax E) (de_now E) (DstPort pkt) (Src pkt) (SrcPort pkt) (ports d) = (conn, pm)"
    by force
  define c4 where "c4 = (peer_window (Window pkt) (conn\<lparr> LocalAddr := Dst pkt, State := StateSynReceived,
      RecvAck := Seq pkt + 1, ExpectedSeq := Seq pkt + 1 \<rparr>))"
  define c5 where "c5 = startRetxLoop (c4\<lparr> SynAckSeq := SendSeq c4, SynAckSeqSet := True, SendSeq := SendSeq c4 + 1,
      State := StateEstablished \<rparr>)"
  obtain ok ln' where offer: "TrySend (ID c5) ln = (ok, ln')" by force
  define d1 where "d1 = d\<lparr> ports := (set_connection c5 pm)\<lparr> listeners := (listeners (set_connection c5 pm))(DstPort pkt \<mapsto> ln') \<rparr> \<rparr>"
  have inv: "pm_inv (de_emin E) (de_emax E) (ports d)" using assms by (simp add: env_ok_def daemon_ok_def)
  note N = pm_inv_New [OF inv new]
  have c5: "ID c5 = nextConnID (ports d)" "LocalPort c5 = DstPort pkt" "conn_fields c5 = conn_fields conn"
    by (simp_all add: c5_def c4_def startRetxLoop_def peer_window_def conn_fields_def N(3) Let_def)
  then have ok5: "conn_ok c5" using conn_ok_same [of c5 conn] new_connection_ok N(3) by simp
  have "pm_inv (de_emin E) (de_emax E) (set_connection c5 pm)" using N c5(2) by (intro pm_inv_update) simp_all
  then have ok1: "env_ok E d1"
  proof -
    have "all_conns (ports d1) = all_conns (set_connection c5 pm)" by (simp add: d1_def all_conns_def)
    then have "set (all_conns (ports d1)) \<subseteq> {c5, conn} \<union> set (all_conns (ports d))"
      using set_connection_conns [of c5 pm] new_conns [OF new] by auto
    then have "\<forall>c\<in>set (all_conns (ports d1)). conn_ok c"
      using ok5 new_connection_ok N(3) known_conn_ok [OF assms] by auto
    moreover assume "pm_inv (de_emin E) (de_emax E) (set_connection c5 pm)"
    ultimately show ?thesis by (simp add: env_ok_def daemon_ok_def d1_def pm_inv_listeners)
  qed
  have use1: "usage Q (ports d1) \<le> usage Q (ports d) + (if Q (DstPort pkt) then 1 else 0)"
    using usage_set [of pm Q c5] usage_new [OF new, of Q] N(1) c5(2) by (simp add: d1_def pm_inv_def)
  have mem: "c5 \<in> set (all_conns (ports d1))"
  proof -
    have "(nextConnID (ports d), conn) \<in> set (connections pm)"
      using connections_New(1) [OF new] by (simp add: map_of_SomeD update_conv')
    then have "c5 \<in> set (all_conns (set_connection c5 pm))"
      using c5(1) by (force simp: all_conns_def set_connection_def)
    then show ?thesis by (simp add: d1_def all_conns_def)
  qed
  let ?d = "syn_accept E pkt ln d"
  have d: "if ok then ports ?d = ports d1 else
      ports ?d = ports (remove_conn E (ID c5) (put_conn (c5\<lparr> State := StateClosed \<rparr>) d1))"
    "config ?d = config d"
    using new offer by (simp_all add: syn_accept_def d1_def c5_def c4_def Let_def)
  have s: "settles E d1 (remove_conn E (ID c5) (put_conn (c5\<lparr> State := StateClosed \<rparr>) d1))"
    using ok1 mem ok5 conn_ok_same [of "c5\<lparr> State := StateClosed \<rparr>" c5]
    by (intro settles_drop [of E d1 c5]) (simp_all add: active_state_def conn_fields_def)
  show "config ?d = config d" by (rule d(2))
  show "daemon_ok (de_emin E) (de_emax E) ?d"
    using d(1) ok1 s by (cases ok) (simp_all add: env_ok_def settles_def daemon_ok_def)
  have "usage Q (ports ?d) \<le> usage Q (ports d1)" using d(1) s by (cases ok) (simp_all add: settles_def)
  then show "usage Q (ports ?d) \<le> usage Q (ports d) + (if Q (DstPort pkt) then 1 else 0)" using use1 by simp
qed

text \<open>The caps: an active connection is added only below both.\<close>

definition capped_step :: "Daemon \<Rightarrow> Daemon \<Rightarrow> bool" where
  "capped_step d d' \<longleftrightarrow> config d' = config d \<and>
    int (TotalActiveConnections (ports d')) \<le> max (int (TotalActiveConnections (ports d))) (maxTotalConnections (config d)) \<and>
    (\<forall>p. int (ConnectionCountForPort p (ports d')) \<le>
      max (int (ConnectionCountForPort p (ports d))) (maxConnectionsPerPort (config d)))"

lemma settles_capped: "settles E d d' \<Longrightarrow> capped_step d d'"
  by (auto simp: settles_def capped_step_def usage_counts le_max_iff_disj)

lemma capped_trans: "\<lbrakk> capped_step d d1; capped_step d1 d2 \<rbrakk> \<Longrightarrow> capped_step d d2"
  unfolding capped_step_def by (auto intro: order_trans)

definition fine :: "daemon_env \<Rightarrow> Daemon \<Rightarrow> Daemon \<Rightarrow> bool" where
  "fine E d d' \<longleftrightarrow> env_ok E d' \<and> capped_step d d'"

lemma settles_fine: "settles E d d' \<Longrightarrow> fine E d d'"
  using settles_capped by (auto simp: fine_def env_ok_def settles_def)

lemma frame_fine: "\<lbrakk> env_ok E d; ports d' = ports d; config d' = config d \<rbrakk> \<Longrightarrow> fine E d d'"
  by (blast intro: settles_fine settles_frame)

lemma fine_event: "fine E d d' \<Longrightarrow> fine E d (publish_event ev d')"
  by (simp add: fine_def env_ok_def daemon_ok_def capped_step_def)

lemma fine_trans: "\<lbrakk> fine E d d1; fine E d1 d2 \<rbrakk> \<Longrightarrow> fine E d d2"
  by (auto simp: fine_def intro: capped_trans)

lemma syn_gates_fine:
  assumes "env_ok E d"
  shows "fine E d (syn_gates E pkt ln d)"
proof -
  obtain pass d1 where g: "syn_rate_gates E pkt d = (pass, d1)" by force
  have d1: "ports d1 = ports d" "config d1 = config d"
    using syn_rate_gates_frame [of E pkt d] g by simp_all
  have ok1: "env_ok E d1" using assms d1 by (simp add: env_ok_def daemon_ok_def)
  have acc: "fine E d (syn_accept E pkt ln d1)"
    if "int (ConnectionCountForPort (DstPort pkt) (ports d1)) < maxConnectionsPerPort (config d1)"
      "int (TotalActiveConnections (ports d1)) < maxTotalConnections (config d1)"
  proof -
    note S = syn_accept_settles [OF ok1, where pkt = pkt and ln = ln]
    have "int (usage (\<lambda>_. True) (ports (syn_accept E pkt ln d1))) \<le> maxTotalConnections (config d1)"
      using S(3) [of "\<lambda>_. True"] that(2) by (simp add: usage_counts)
    moreover have "int (usage (\<lambda>q. q = p) (ports (syn_accept E pkt ln d1)))
        \<le> max (int (usage (\<lambda>q. q = p) (ports d1))) (maxConnectionsPerPort (config d1))" for p
      using S(3) [of "\<lambda>q. q = p"] that(1) by (cases "p = DstPort pkt") (auto simp: usage_counts)
    ultimately show ?thesis using S(1,2) d1 by (auto simp: fine_def env_ok_def capped_step_def usage_counts)
  qed
  have rest: "fine E d d1" "fine E d (sendRST pkt d1)" "fine E d (publish_event ev d)" for ev
    using assms d1 by (auto intro: frame_fine)
  then show ?thesis
    using acc by (simp add: syn_gates_def g split: bool.split)
qed

lemma handle_syn_fine:
  assumes "env_ok E d"
  shows "fine E d (handle_syn E pkt d)"
proof -
  have "fine E d (syn_gates E pkt ln (remove_conn E (ID ex) (put_conn (CloseRecvBuf (stopFINHold (ex\<lparr> State := StateClosed \<rparr>))) d)))"
    if "FindConnection (DstPort pkt) (Src pkt) (SrcPort pkt) (ports d) = Some ex" for ex ln
  proof -
    let ?c = "CloseRecvBuf (stopFINHold (ex\<lparr> State := StateClosed \<rparr>))"
    have mem: "ex \<in> set (all_conns (ports d))" using FindConnection_SomeD(1) [OF that] .
    have f: "conn_fields ?c = conn_fields ex" "ID ?c = ID ex" "LocalPort ?c = LocalPort ex" "\<not> active_state (State ?c)"
      by (simp_all add: CloseRecvBuf_def stopFINHold_def conn_fields_def active_state_def)
    then have "settles E d (remove_conn E (ID ex) (put_conn ?c d))"
      using assms mem known_conn_ok [OF assms mem] conn_ok_same [OF f(1)] by (intro settles_drop [of E d ex]) simp_all
    then show ?thesis using syn_gates_fine settles_fine fine_trans by (metis env_ok_def settles_def)
  qed
  then show ?thesis
    using assms syn_gates_fine [OF assms] by (auto simp: handle_syn_def frame_fine split: option.split)
qed

lemma handleStreamPacket_fine:
  assumes "env_ok E d"
  shows "\<exists>d'. handleStreamPacket E pkt d = Some d' \<and> fine E d d'"
proof (cases "HasFlag FlagSYN pkt \<and> \<not> HasFlag FlagACK pkt")
  case True
  then show ?thesis using handle_syn_fine [OF assms] by (simp add: handleStreamPacket_def)
next
  case no_syn: False
  show ?thesis
  proof (cases "FindConnection (DstPort pkt) (Src pkt) (SrcPort pkt) (ports d)")
    case None
    then show ?thesis using no_syn assms by (auto simp: handleStreamPacket_def frame_fine)
  next
    case (Some c)
    have mem: "c \<in> set (all_conns (ports d))" using FindConnection_SomeD(1) [OF Some] .
    note ok = known_conn_ok [OF assms mem]
    have synack: "fine E d (tunnel_send (Node (Src pkt)) (fst (synack_arrives pkt c)) (put_conn (snd (synack_arrives pkt c)) d))"
      if "State c = StateSynSent"
    proof -
      have f: "conn_fields (snd (synack_arrives pkt c)) = conn_fields c" "ID (snd (synack_arrives pkt c)) = ID c"
        "LocalPort (snd (synack_arrives pkt c)) = LocalPort c"
        by (simp_all add: synack_arrives_def signalDial_def peer_window_def conn_fields_def Let_def)
      show ?thesis using assms mem ok conn_ok_same [OF f(1)] f(2,3) that
        by (intro settles_fine settles_put [of E d "snd (synack_arrives pkt c)" c]) (simp_all add: active_state_def)
    qed
    have fin: "fine E d (conn_done c' pkts [] ev d)" if "fin_arrives (de_now E) (finHoldIdle d) pkt c = (pkts, ev, c')" for pkts ev c'
      using assms mem fin_arrives_ok [OF that ok] ends_fin_arrives [OF that]
      by (intro settles_fine settles_ends [of E d c c']) simp_all
    have rst: "fine E d (publish_event (ConnRst (ID c)) (remove_conn E (ID c)
        (put_conn (CloseRecvBuf (stopFINHold (signalDial (c\<lparr> State := StateClosed \<rparr>)))) d)))"
    proof -
      let ?c = "CloseRecvBuf (stopFINHold (signalDial (c\<lparr> State := StateClosed \<rparr>)))"
      have f: "conn_fields ?c = conn_fields c" "ID ?c = ID c" "LocalPort ?c = LocalPort c" "\<not> active_state (State ?c)"
        by (simp_all add: CloseRecvBuf_def stopFINHold_def signalDial_def conn_fields_def active_state_def)
      then have "settles E d (remove_conn E (ID c) (put_conn ?c d))"
        using assms mem ok conn_ok_same [OF f(1)] by (intro settles_drop [of E d c]) simp_all
      then show ?thesis by (intro fine_event settles_fine)
    qed
    obtain pkts taken ev c' where a: "ack_arrives (de_now E) (de_drained E) pkt c = Some (pkts, taken, ev, c')" "conn_ok c'"
      using ack_arrives_ok [OF ok] by blast
    have ack: "fine E d (conn_done c' pkts taken ev d)"
      using assms mem a(2) ends_ack_arrives [OF a(1)] by (intro settles_fine settles_ends [of E d c c']) simp_all
    show ?thesis
      using no_syn Some synack fin rst ack a(1) frame_fine [OF assms, of d]
      by (auto simp: handleStreamPacket_def Let_def split: prod.split)
  qed
qed

lemma dispatch_fine:
  assumes "env_ok E d"
  shows "\<exists>d'. dispatch E pkt d = Some d' \<and> fine E d d'"
proof -
  have "fine E d (handleDatagramPacket E pkt d)" "fine E d (handleControlPacket E pkt d)" "fine E d d"
    using assms by (auto intro!: frame_fine simp: handleDatagramPacket_def handleControlPacket_def Let_def)
  then show ?thesis using handleStreamPacket_fine [OF assms] by (simp add: dispatch_def split: proto.split)
qed

text \<open>A sequence of packets, each with the clock and the services it meets.\<close>

fun dispatch_all :: "(daemon_env \<times> packet) list \<Rightarrow> Daemon \<Rightarrow> Daemon option" where
  "dispatch_all [] d = Some d"
| "dispatch_all ((E, pkt) # xs) d = (case dispatch E pkt d of None \<Rightarrow> None | Some d' \<Rightarrow> dispatch_all xs d')"

lemma dispatch_all_fine:
  assumes "daemon_ok emin emax d" and "\<And>E pkt. (E, pkt) \<in> set xs \<Longrightarrow> de_emin E = emin \<and> de_emax E = emax"
  shows "\<exists>d'. dispatch_all xs d = Some d' \<and> daemon_ok emin emax d' \<and> capped_step d d'"
  using assms
proof (induction xs arbitrary: d)
  case (Cons x xs)
  obtain E pkt where x: "x = (E, pkt)" by force
  then have E: "de_emin E = emin" "de_emax E = emax" using Cons.prems(2) [of E pkt] by simp_all
  then obtain d1 where d1: "dispatch E pkt d = Some d1" "fine E d d1"
    using dispatch_fine [of E d pkt] Cons.prems(1) by (auto simp: env_ok_def)
  then have "daemon_ok emin emax d1" using E by (simp add: fine_def env_ok_def)
  from Cons.IH [OF this] Cons.prems(2) obtain d' where "dispatch_all xs d1 = Some d'" "daemon_ok emin emax d'" "capped_step d1 d'"
    by auto
  then show ?case using x d1 capped_trans by (auto simp: fine_def)
qed (simp add: capped_step_def)

section \<open>Properties\<close>


lemma sample_daemon_ok: "daemon_ok 49152 65535 sample_daemon"
proof -
  have "ports sample_daemon = (NewPortManager 49152)\<lparr> listeners := [80 \<mapsto> \<lparr> Listener.Port = 80, AcceptCh = [], lclosed = False \<rparr>] \<rparr>"
    by (simp add: sample_daemon_def Bind_def NewPortManager_def Let_def)
  then show ?thesis
    using NewPortManager_inv [OF pilot_range]
    by (simp add: daemon_ok_def pm_inv_listeners) (simp add: all_conns_def NewPortManager_def)
qed


text \<open>
  (C9) A flood of SYNs cannot fill the table: no sequence of packets takes the active connections
  of a port over the per-port cap, or those of the daemon over the total cap, unless they were
  over it before.
\<close>

theorem flood_is_bounded:
  assumes "daemon_ok emin emax d" and "\<forall>x\<in>set xs. de_emin (fst x) = emin \<and> de_emax (fst x) = emax"
    and "dispatch_all xs d = Some d'"
  shows "int (TotalActiveConnections (ports d')) \<le>
      max (int (TotalActiveConnections (ports d))) (maxTotalConnections (config d)) \<and>
    int (ConnectionCountForPort p (ports d')) \<le>
      max (int (ConnectionCountForPort p (ports d))) (maxConnectionsPerPort (config d))"
  using dispatch_all_fine [OF assms(1), of xs] assms(2,3) by (fastforce simp: capped_step_def)

theorem flood_is_bounded_witness:
  "int (TotalActiveConnections (ports (the (dispatch_all [(sample_env, sample_syn 5)] sample_daemon)))) \<le> 65536 \<and>
   int (ConnectionCountForPort 80 (ports (the (dispatch_all [(sample_env, sample_syn 5)] sample_daemon)))) \<le> 1024"
proof -
  obtain d' where d': "dispatch_all [(sample_env, sample_syn 5)] sample_daemon = Some d'"
    using dispatch_all_fine [OF sample_daemon_ok, of "[(sample_env, sample_syn 5)]"] by (auto simp: sample_env_def)
  have "TotalActiveConnections (ports sample_daemon) = 0" "ConnectionCountForPort 80 (ports sample_daemon) = 0"
    by (simp_all add: sample_daemon_def TotalActiveConnections_def ConnectionCountForPort_def all_conns_def Bind_def
        NewPortManager_def Let_def)
  then show ?thesis
    using flood_is_bounded [OF sample_daemon_ok _ d', of 80] unfolding d'
    by (simp add: sample_env_def sample_daemon_def maxTotalConnections_def maxConnectionsPerPort_def
        DefaultMaxTotalConnections_def DefaultMaxConnectionsPerPort_def)
qed

end
