(* ===== verification/Dial.thy ===== *)
theory Dial
  imports Daemon_Inv
begin

text \<open>
  Opening a connection: \<^verbatim>\<open>dialConnectionLocked\<close> with its SYN retransmissions and the switch to
  the relay. The tunnel's view of the peer, the result of a send and the registry's part are in
  the environment; what other goroutines do between two events of the dial is an argument of the
  event.
\<close>

section \<open>The dialer\<close>

definition DialDirectRetries :: nat where "DialDirectRetries = 3"
definition DialMaxRetries :: nat where "DialMaxRetries = 7"
definition DialInitialRTO :: duration where "DialInitialRTO = 250 * millisecond"
definition DialMaxRTO :: duration where "DialMaxRTO = 8 * second"
definition DialKeyExchangeWait :: duration where "DialKeyExchangeWait = 10 * second"
definition autoHandshakeCooldown :: duration where "autoHandshakeCooldown = 30 * second"

datatype dial_error =
    ErrCtx
  | ErrPortPolicy
  | ErrTunnel
  | ErrEphemeralExhausted
  | ErrSendSYN
  | ErrConnRefused
  | ErrDialTimeout
  | ErrDialKeyExchange

text \<open>The result of \<^verbatim>\<open>tunnels.Send\<close>: sent or queued, not queued because the queue was full, or failed.\<close>

datatype send_result = SendOK | PendingDropped | SendFailed

text \<open>
  The daemon, what its tunnel knows of the peer that is dialed, and the connection object of the
  dial, which the dialer keeps a pointer to when the table drops it.
\<close>

record dial_world =
  daemon :: Daemon
  relayPeer :: bool
  relayPin :: bool
  encrypted :: bool
  keyViaRelayOnly :: bool
  autoHandshakeLastAttempt :: "node_id \<rightharpoonup> instant"
  handshakesSpawned :: "node_id list"
  lastDialOK :: instant
  dialOKSeq :: u64
  consecutiveDialTimeouts :: u64
  resolutionsForgotten :: "node_id list"
  conn :: Connection

record dial_env =
  dl_env :: daemon_env
  compatMode :: bool
  encryptOn :: bool
  hasBeacon :: bool
  handshakeIsTrusted :: "(node_id \<Rightarrow> bool) option"
  isTrustedAgent :: "node_id \<Rightarrow> bool"
  ensureTunnel :: "node_id \<Rightarrow> dial_world \<Rightarrow> bool \<times> dial_world"
  sendResult :: "packet \<Rightarrow> dial_world \<Rightarrow> send_result"

record dial_locals =
  syn :: packet
  keyWaitUntil :: instant
  synQueued :: bool
  retries :: nat
  directRetries :: nat
  relayActive :: bool
  relayActivatedHere :: bool
  rto :: duration
  dialsOKAtStart :: u64

definition shouldAutoHandshake :: "instant \<Rightarrow> node_id \<Rightarrow> dial_world \<Rightarrow> bool \<times> dial_world" where
  "shouldAutoHandshake now peer w =
    (let claim = w\<lparr> autoHandshakeLastAttempt := (autoHandshakeLastAttempt w)(peer \<mapsto> now) \<rparr> in
     case autoHandshakeLastAttempt w peer of
       None \<Rightarrow> (True, claim)
     | Some prev \<Rightarrow> if time_sub now prev < autoHandshakeCooldown then (False, w) else (True, claim))"

definition keyPending :: "dial_env \<Rightarrow> dial_world \<Rightarrow> bool" where
  "keyPending E w \<longleftrightarrow> encryptOn E \<and> \<not> encrypted w"

definition on_conn :: "(Connection \<Rightarrow> Connection) \<Rightarrow> dial_world \<Rightarrow> dial_world" where
  "on_conn f w = w\<lparr> conn := f (conn w), daemon := put_conn (f (conn w)) (daemon w) \<rparr>"

definition drop_conn :: "dial_env \<Rightarrow> dial_world \<Rightarrow> dial_world" where
  "drop_conn E w = w\<lparr> daemon := remove_conn (dl_env E) (ID (conn w)) (daemon w) \<rparr>"

definition send_syn :: "dial_env \<Rightarrow> packet \<Rightarrow> dial_world \<Rightarrow> send_result \<times> dial_world" where
  "send_syn E pkt w =
    (case sendResult E pkt w of
       SendOK \<Rightarrow> (SendOK, w\<lparr> daemon := tunnel_send (Node (Dst pkt)) pkt (daemon w) \<rparr>)
     | r \<Rightarrow> (r, w))"

text \<open>The handshake started on the side for a trusted agent that does not trust this node yet.\<close>

definition auto_handshake :: "dial_env \<Rightarrow> instant \<Rightarrow> node_id \<Rightarrow> dial_world \<Rightarrow> dial_world" where
  "auto_handshake E now peer w =
    (case handshakeIsTrusted E of
       None \<Rightarrow> w
     | Some trusted \<Rightarrow>
       if \<not> trusted peer \<and> isTrustedAgent E peer then
         (case shouldAutoHandshake now peer w of
            (True, w') \<Rightarrow> w'\<lparr> handshakesSpawned := handshakesSpawned w' @ [peer] \<rparr>
          | (False, w') \<Rightarrow> w')
       else w)"

text \<open>The new connection and its SYN.\<close>

definition dial_conn :: "Addr \<Rightarrow> node_id \<Rightarrow> Connection \<Rightarrow> Connection" where
  "dial_conn dstAddr self c = c\<lparr> LocalAddr := \<lparr> Network = Network dstAddr, Node = self \<rparr>, State := StateSynSent \<rparr>"

definition dial_syn :: "Addr \<Rightarrow> u16 \<Rightarrow> Connection \<Rightarrow> packet" where
  "dial_syn dstAddr dstPort c =
    \<lparr> Flags = {FlagSYN}, Protocol = ProtoStream, Src = LocalAddr c, Dst = dstAddr, SrcPort = LocalPort c,
      DstPort = dstPort, Seq = SendSeq c, Ack = 0, Window = RecvWindow c, Payload = [] \<rparr>"

definition dial_send :: "dial_env \<Rightarrow> packet \<Rightarrow> u64 \<Rightarrow> dial_world \<Rightarrow> (dial_error + dial_locals) \<times> dial_world" where
  "dial_send E pkt oks w =
    (case send_syn E pkt w of (r, w5) \<Rightarrow>
     if r = SendFailed then (Inl ErrSendSYN, drop_conn E w5)
     else
       let w6 = on_conn (\<lambda>c. c\<lparr> SendSeq := SendSeq c + 1 \<rparr>) w5 in
       (Inr \<lparr> syn = pkt, keyWaitUntil = de_now (dl_env E) + DialKeyExchangeWait, synQueued = (r = SendOK \<and> keyPending E w5),
              retries = 0, directRetries = (if relayPeer w6 \<and> relayPin w6 then 0 else DialDirectRetries),
              relayActive = relayPeer w6, relayActivatedHere = False, rto = DialInitialRTO, dialsOKAtStart = oks \<rparr>, w6))"

definition dial_open ::
    "dial_env \<Rightarrow> Addr \<Rightarrow> u16 \<Rightarrow> u64 \<Rightarrow> dial_world \<Rightarrow> (dial_error + dial_locals) \<times> dial_world" where
  "dial_open E dstAddr dstPort oks w =
    (case AllocEphemeralPort (de_emin (dl_env E)) (de_emax (dl_env E)) (ports (daemon w)) of (localPort, pm1) \<Rightarrow>
     if localPort = 0 then (Inl ErrEphemeralExhausted, w)
     else
       case NewConnection (de_emin (dl_env E)) (de_emax (dl_env E)) (de_now (dl_env E)) localPort dstAddr dstPort pm1 of
         (c, pm2) \<Rightarrow>
       let c1 = dial_conn dstAddr (dNodeID (daemon w)) c in
       dial_send E (dial_syn dstAddr dstPort c1) oks (on_conn (\<lambda>_. c1) (w\<lparr> daemon := (daemon w)\<lparr> ports := pm2 \<rparr> \<rparr>)))"

text \<open>Up to the first SYN.\<close>

definition dial_start ::
    "dial_env \<Rightarrow> bool \<Rightarrow> Addr \<Rightarrow> u16 \<Rightarrow> dial_world \<Rightarrow> (dial_error + dial_locals) \<times> dial_world" where
  "dial_start E cancelled dstAddr dstPort w =
    (let now = de_now (dl_env E); d = daemon w in
     if cancelled then (Inl ErrCtx, w)
     else if \<not> evaluatePortPolicy (de_services (dl_env E)) (netPolicies d) (memberTags d) PolicyEventDial (Network dstAddr)
                 dstPort (Node dstAddr) 0 ''''
     then (Inl ErrPortPolicy, w)
     else case ensureTunnel E (Node dstAddr) w of
       (False, w0) \<Rightarrow> (Inl ErrTunnel, w0)
     | (True, w0) \<Rightarrow>
       let d0 = daemon w0;
           w1 = w0\<lparr> daemon := d0\<lparr> outbound := note_contact (Node dstAddr) now (outbound d0) \<rparr> \<rparr>;
           w2 = (if compatMode E \<and> \<not> relayPeer w1 then w1\<lparr> relayPeer := True \<rparr> else w1) in
       dial_open E dstAddr dstPort (dialOKSeq w) (auto_handshake E now (Node dstAddr) w2))"

text \<open>What the state of the connection says about the dial.\<close>

definition dialOutcome :: "dial_env \<Rightarrow> instant \<Rightarrow> dial_world \<Rightarrow> (dial_error + unit) option \<times> dial_world" where
  "dialOutcome E now w =
    (let st = State (conn w) in
     if st = StateEstablished \<or> st = StateFinWait \<or> st = StateTimeWait then
       let w1 = (if st = StateEstablished then on_conn startRetxLoop w else w) in
       (Some (Inr ()), w1\<lparr> lastDialOK := now, dialOKSeq := dialOKSeq w1 + 1, consecutiveDialTimeouts := 0 \<rparr>)
     else if st = StateClosed then (Some (Inl ErrConnRefused), drop_conn E w)
     else (None, w))"

definition undo_relay :: "dial_locals \<Rightarrow> dial_world \<Rightarrow> dial_world" where
  "undo_relay l w = (if relayActivatedHere l \<and> \<not> relayPin w then w\<lparr> relayPeer := False \<rparr> else w)"

definition to_relay :: "dial_locals \<times> dial_world \<Rightarrow> dial_locals \<times> dial_world" where
  "to_relay lw = (case lw of (l, w) \<Rightarrow>
    (l\<lparr> relayActive := True, relayActivatedHere := True, rto := DialInitialRTO \<rparr>, w\<lparr> relayPeer := True \<rparr>))"

text \<open>The retransmission timer.\<close>

definition dial_give_up :: "dial_env \<Rightarrow> dial_locals \<Rightarrow> dial_world \<Rightarrow> dial_error \<times> dial_world" where
  "dial_give_up E l w =
    (let keyMissing = keyPending E w;
         peer = Node (Dst (syn l));
         w1 = drop_conn E w;
         w2 = undo_relay l (w1\<lparr> resolutionsForgotten := resolutionsForgotten w1 @ [peer] \<rparr>);
         w3 = (if dialOKSeq w2 \<noteq> dialsOKAtStart l then w2
               else w2\<lparr> consecutiveDialTimeouts := consecutiveDialTimeouts w2 + 1 \<rparr>) in
     (if keyMissing then ErrDialKeyExchange else ErrDialTimeout, w3))"

definition timer_path :: "dial_env \<Rightarrow> dial_locals \<Rightarrow> dial_world \<Rightarrow> dial_locals \<times> dial_world" where
  "timer_path E l w =
    (let (l1, w1) =
           (if \<not> keyPending E w \<and> \<not> relayActive l \<and> retries l < directRetries l \<and> hasBeacon E \<and> keyViaRelayOnly w
            then (case to_relay (l, w) of (l1, w1) \<Rightarrow> (l1\<lparr> directRetries := 0 \<rparr>, w1)) else (l, w));
         l2 = l1\<lparr> retries := retries l1 + 1 \<rparr> in
     if retries l2 = directRetries l2 \<and> hasBeacon E \<and> \<not> relayActive l2 then to_relay (l2, w1) else (l2, w1))"

definition timer_resend :: "dial_env \<Rightarrow> dial_locals \<Rightarrow> dial_world \<Rightarrow> dial_locals \<times> dial_world" where
  "timer_resend E l w =
    (let l4 = l\<lparr> syn := (syn l)\<lparr> Seq := SendSeq (conn w) - 1 \<rparr> \<rparr>;
         (q, w4) = (if \<not> keyPending E w \<or> \<not> synQueued l4
                    then (case send_syn E (syn l4) w of (r, w4) \<Rightarrow> (r = SendOK \<and> keyPending E w4, w4))
                    else (synQueued l4, w));
         rto' = rto l4 * 2 in
     (l4\<lparr> synQueued := q, rto := (if rto' > DialMaxRTO then DialMaxRTO else rto') \<rparr>, w4))"

definition dial_timer ::
    "dial_env \<Rightarrow> instant \<Rightarrow> dial_locals \<Rightarrow> dial_world \<Rightarrow> (dial_error + dial_locals) \<times> dial_world" where
  "dial_timer E now l w =
    (if keyPending E w \<and> now < keyWaitUntil l then
       (if synQueued l then (Inr l, w)
        else case send_syn E (syn l) w of (r, w1) \<Rightarrow> (Inr (l\<lparr> synQueued := (r = SendOK) \<rparr>), w1))
     else case timer_path E l w of (l3, w3) \<Rightarrow>
       if retries l3 > DialMaxRetries then (case dial_give_up E l3 w3 of (err, w4) \<Rightarrow> (Inl err, w4))
       else (case timer_resend E l3 w3 of (l5, w5) \<Rightarrow> (Inr l5, w5)))"

text \<open>The events of the wait, each with what other goroutines did before it.\<close>

datatype dial_event = CtxDone | DialSignal instant | CheckTick instant | DialTimer instant

type_synonym dial_result = "dial_error + unit"

definition dial_step ::
    "dial_env \<Rightarrow> dial_event \<Rightarrow> dial_locals \<Rightarrow> dial_world \<Rightarrow> (dial_result + dial_locals) \<times> dial_world" where
  "dial_step E ev l w =
    (let outcome = (\<lambda>now. case dialOutcome E now w of (Some r, w') \<Rightarrow> (Inl r, w') | (None, w') \<Rightarrow> (Inr l, w')) in
     case ev of
       CtxDone \<Rightarrow> (Inl (Inl ErrCtx), undo_relay l (drop_conn E w))
     | DialSignal now \<Rightarrow> outcome now
     | CheckTick now \<Rightarrow> outcome now
     | DialTimer now \<Rightarrow>
         (case dial_timer E now l w of (Inl err, w') \<Rightarrow> (Inl (Inl err), w') | (Inr l', w') \<Rightarrow> (Inr l', w')))"

fun dial_loop ::
    "dial_env \<Rightarrow> ((dial_world \<Rightarrow> dial_world) \<times> dial_event) list \<Rightarrow> dial_locals \<Rightarrow> dial_world \<Rightarrow>
     dial_result option \<times> dial_world" where
  "dial_loop E [] l w = (None, w)"
| "dial_loop E ((f, ev) # evs) l w =
    (case dial_step E ev l (f w) of
       (Inl r, w') \<Rightarrow> (Some r, w')
     | (Inr l', w') \<Rightarrow> dial_loop E evs l' w')"

section \<open>A dial ends\<close>

text \<open>A timer that counts: the wait for the key exchange is over.\<close>

definition late_timer :: "dial_locals \<Rightarrow> (dial_world \<Rightarrow> dial_world) \<times> dial_event \<Rightarrow> bool" where
  "late_timer l x = (case snd x of DialTimer t \<Rightarrow> keyWaitUntil l \<le> t | _ \<Rightarrow> False)"

lemma to_relay_simps [simp]:
  "keyWaitUntil (fst (to_relay (l, w))) = keyWaitUntil l" "retries (fst (to_relay (l, w))) = retries l"
  "relayActive (fst (to_relay (l, w)))" "relayActivatedHere (fst (to_relay (l, w)))"
  "snd (to_relay (l, w)) = w\<lparr> relayPeer := True \<rparr>" "directRetries (fst (to_relay (l, w))) = directRetries l"
  "rto (fst (to_relay (l, w))) = DialInitialRTO" "syn (fst (to_relay (l, w))) = syn l"
  by (simp_all add: to_relay_def)

lemma timer_path_simps:
  assumes "timer_path E l w = (l3, w3)"
  shows "keyWaitUntil l3 = keyWaitUntil l" "retries l3 = retries l + 1" "daemon w3 = daemon w" "conn w3 = conn w"
    "relayPin w3 = relayPin w"
    "relayActive l3 = relayActive l \<and> relayActivatedHere l3 = relayActivatedHere l \<and> relayPeer w3 = relayPeer w \<or>
     \<not> relayActive l \<and> relayActive l3 \<and> relayActivatedHere l3 \<and> relayPeer w3"
  using assms by (auto simp: timer_path_def to_relay_def Let_def split: if_splits)

lemma send_syn_simps:
  assumes "send_syn E pkt w = (r, w1)"
  shows "relayPeer w1 = relayPeer w" "relayPin w1 = relayPin w" "conn w1 = conn w" "ports (daemon w1) = ports (daemon w)"
  using assms by (auto simp: send_syn_def split: send_result.splits)

lemma timer_resend_simps:
  assumes "timer_resend E l w = (l5, w5)"
  shows "keyWaitUntil l5 = keyWaitUntil l" "retries l5 = retries l" "relayActive l5 = relayActive l"
    "relayActivatedHere l5 = relayActivatedHere l" "relayPeer w5 = relayPeer w" "relayPin w5 = relayPin w"
  using assms by (auto simp: timer_resend_def Let_def dest: send_syn_simps split: if_splits prod.splits)

lemma dial_timer_cases:
  assumes "dial_timer E now l w = (Inr l', w')"
  obtains (waits) q where "now < keyWaitUntil l" "l' = l\<lparr> synQueued := q \<rparr>" "w' = w \<or> (\<exists>r. send_syn E (syn l) w = (r, w'))"
  | (resends) l3 w3 where "timer_path E l w = (l3, w3)" "retries l3 \<le> DialMaxRetries" "timer_resend E l3 w3 = (l', w')"
proof (cases "keyPending E w \<and> now < keyWaitUntil l")
  case True
  obtain r w1 where s: "send_syn E (syn l) w = (r, w1)" by force
  have "l' = l\<lparr> synQueued := synQueued l \<rparr> \<and> w' = w \<or> l' = l\<lparr> synQueued := (r = SendOK) \<rparr> \<and> w' = w1"
    using assms True s by (simp add: dial_timer_def split: if_splits)
  then show thesis using waits True s by blast
next
  case False
  obtain l3 w3 where p: "timer_path E l w = (l3, w3)" by force
  obtain l5 w5 where r: "timer_resend E l3 w3 = (l5, w5)" by force
  have "retries l3 \<le> DialMaxRetries" "l5 = l'" "w5 = w'"
    using assms False p r by (simp_all add: dial_timer_def split: if_splits prod.splits)
  then show thesis using resends p r by blast
qed

lemma dial_timer_retries:
  assumes "dial_timer E now l w = (Inr l', w')"
  shows "keyWaitUntil l' = keyWaitUntil l" and "retries l \<le> retries l'"
    and "retries l \<le> DialMaxRetries \<Longrightarrow> retries l' \<le> DialMaxRetries"
    and "keyWaitUntil l \<le> now \<Longrightarrow> retries l' = retries l + 1"
proof -
  have "keyWaitUntil l' = keyWaitUntil l \<and> retries l \<le> retries l' \<and> (retries l \<le> DialMaxRetries \<longrightarrow> retries l' \<le> DialMaxRetries) \<and>
      (keyWaitUntil l \<le> now \<longrightarrow> retries l' = retries l + 1)"
    using assms
  proof (cases rule: dial_timer_cases)
    case (resends l3 w3)
    then show ?thesis using timer_path_simps(1,2) [OF resends(1)] timer_resend_simps(1,2) [OF resends(3)] by simp
  qed simp
  then show "keyWaitUntil l' = keyWaitUntil l" "retries l \<le> retries l'"
    "retries l \<le> DialMaxRetries \<Longrightarrow> retries l' \<le> DialMaxRetries" "keyWaitUntil l \<le> now \<Longrightarrow> retries l' = retries l + 1" by auto
qed

lemma dial_step_InrE:
  assumes "dial_step E ev l w = (Inr l', w')"
  obtains (ticks) "l' = l" "w' = w" "\<forall>t. ev \<noteq> DialTimer t"
  | (timer) t where "ev = DialTimer t" "dial_timer E t l w = (Inr l', w')"
  using assms
  by (cases ev) (auto simp: dial_step_def dialOutcome_def Let_def split: prod.splits option.splits sum.splits if_splits)

lemma dial_step_retries:
  assumes "dial_step E ev l w = (Inr l', w')"
  shows "keyWaitUntil l' = keyWaitUntil l" and "retries l \<le> retries l'"
    and "retries l \<le> DialMaxRetries \<Longrightarrow> retries l' \<le> DialMaxRetries"
    and "late_timer l (f, ev) \<Longrightarrow> retries l' = retries l + 1"
  using assms by (cases rule: dial_step_InrE; auto simp: late_timer_def dest: dial_timer_retries split: dial_event.splits)+

lemma late_timer_same: "keyWaitUntil l' = keyWaitUntil l \<Longrightarrow> late_timer l' = late_timer l"
  by (auto simp: late_timer_def fun_eq_iff split: dial_event.split)

lemma dial_loop_ends:
  assumes "DialMaxRetries < retries l + length (filter (late_timer l) evs)" and "retries l \<le> DialMaxRetries"
  shows "fst (dial_loop E evs l w) \<noteq> None"
  using assms
proof (induction evs arbitrary: l w)
  case (Cons x evs)
  obtain f ev where x: "x = (f, ev)" by force
  show ?case
  proof (cases "dial_step E ev l (f w)")
    case (Pair r w')
    show ?thesis
    proof (cases r)
      case (Inr l')
      note R = dial_step_retries [OF Pair [unfolded Inr]]
      have "DialMaxRetries < retries l' + length (filter (late_timer l') evs)"
        using Cons.prems(1) R(2) R(4) [of f] x late_timer_same [OF R(1)] by (auto split: if_splits)
      then show ?thesis using Cons.IH [of l' w'] R(3) Cons.prems(2) Pair Inr x by auto
    qed (use x Pair in simp)
  qed
qed simp

section \<open>A failed dial leaves nothing behind\<close>

definition listed :: "u32 \<Rightarrow> dial_world \<Rightarrow> bool" where
  "listed i w \<longleftrightarrow> i \<in> fst ` set (connections (ports (daemon w)))"

lemma drop_conn_unlisted [simp]: "\<not> listed (ID (conn w)) (drop_conn E w)" "conn (drop_conn E w) = conn w"
  by (auto simp: listed_def drop_conn_def AList.delete_eq)

lemma listed_frame [simp]: "listed i (w\<lparr> relayPeer := b \<rparr>) = listed i w" "listed i (w\<lparr> resolutionsForgotten := p \<rparr>) = listed i w"
  "listed i (w\<lparr> consecutiveDialTimeouts := n \<rparr>) = listed i w"
  by (simp_all add: listed_def)

lemma undo_relay_simps [simp]: "listed i (undo_relay l w) = listed i w" "conn (undo_relay l w) = conn w"
  by (simp_all add: undo_relay_def)

lemma give_up_unlisted:
  assumes "dial_give_up E l w = (err, w')"
  shows "\<not> listed (ID (conn w')) w'"
  using assms drop_conn_unlisted(1) [of w E] by (auto simp: dial_give_up_def Let_def split: if_splits)

lemma dial_timer_InlE:
  assumes "dial_timer E t l w = (Inl err, w')"
  obtains l3 w3 where "timer_path E l w = (l3, w3)" "dial_give_up E l3 w3 = (err, w')"
proof (cases "keyPending E w \<and> t < keyWaitUntil l")
  case True
  then have False using assms by (simp add: dial_timer_def split: if_splits prod.splits)
  then show thesis ..
next
  case False
  obtain l3 w3 where p: "timer_path E l w = (l3, w3)" by force
  obtain l5 w5 where r: "timer_resend E l3 w3 = (l5, w5)" by force
  obtain e w4 where g: "dial_give_up E l3 w3 = (e, w4)" by force
  have "e = err" "w4 = w'" using assms False p r g by (simp_all add: dial_timer_def split: if_splits)
  then show thesis using that p g by blast
qed

lemma dial_step_InlE:
  assumes "dial_step E ev l w = (Inl (Inl err), w')"
  obtains (gives_up) l3 w3 where "timer_path E l w = (l3, w3)" "dial_give_up E l3 w3 = (err, w')"
  | (cancelled) "w' = undo_relay l (drop_conn E w)"
  | (refused) "w' = drop_conn E w" "err = ErrConnRefused"
proof (cases ev)
  case (DialTimer t)
  then have "dial_timer E t l w = (Inl err, w')" using assms by (auto simp: dial_step_def split: prod.splits sum.splits)
  then show thesis using gives_up by (elim dial_timer_InlE)
qed (use assms cancelled refused in
    \<open>auto simp: dial_step_def dialOutcome_def Let_def split: prod.splits option.splits if_splits\<close>)

lemma dial_step_error_unlisted:
  assumes "dial_step E ev l w = (Inl (Inl err), w')"
  shows "\<not> listed (ID (conn w')) w'"
  using assms by (cases rule: dial_step_InlE) (auto dest: give_up_unlisted)

lemma dial_loop_error_unlisted: "dial_loop E evs l w = (Some (Inl err), w') \<Longrightarrow> \<not> listed (ID (conn w')) w'"
  by (induction E evs l w rule: dial_loop.induct) (auto split: prod.splits sum.splits dest: dial_step_error_unlisted)

text \<open>The relay flag, while only the dial touches it.\<close>

definition relay_inv :: "bool \<Rightarrow> dial_locals \<Rightarrow> dial_world \<Rightarrow> bool" where
  "relay_inv r0 l w \<longleftrightarrow> \<not> relayPin w \<and> relayActive l = relayPeer w \<and> relayPeer w = (r0 \<or> relayActivatedHere l) \<and>
    \<not> (r0 \<and> relayActivatedHere l)"

lemma relay_inv_path:
  assumes "timer_path E l w = (l3, w3)" and "relay_inv r0 l w"
  shows "relay_inv r0 l3 w3"
  using timer_path_simps(5,6) [OF assms(1)] assms(2) by (auto simp: relay_inv_def)

lemma dial_step_relay_inv:
  assumes "dial_step E ev l w = (Inr l', w')" and "relay_inv r0 l w"
  shows "relay_inv r0 l' w'"
  using assms(1)
proof (cases rule: dial_step_InrE)
  case (timer t)
  from timer(2) show ?thesis
  proof (cases rule: dial_timer_cases)
    case (waits q)
    then show ?thesis using assms(2) send_syn_simps(1,2) by (auto simp: relay_inv_def)
  next
    case (resends l3 w3)
    then show ?thesis using relay_inv_path [OF resends(1) assms(2)] timer_resend_simps [OF resends(3)] by (simp add: relay_inv_def)
  qed
qed (use assms(2) in simp)

lemma undo_relay_restores: "relay_inv r0 l w \<Longrightarrow> relayPeer (undo_relay l w) = r0"
  by (auto simp: relay_inv_def undo_relay_def)

lemma relay_inv_frame: "\<lbrakk> relay_inv r0 l w; relayPeer w' = relayPeer w; relayPin w' = relayPin w \<rbrakk> \<Longrightarrow> relay_inv r0 l w'"
  by (simp add: relay_inv_def)

lemma dial_step_restores:
  assumes "dial_step E ev l w = (Inl (Inl err), w')" and "relay_inv r0 l w" and "err \<noteq> ErrConnRefused"
  shows "relayPeer w' = r0"
  using assms(1)
proof (cases rule: dial_step_InlE)
  case (gives_up l3 w3)
  let ?w = "(drop_conn E w3)\<lparr> resolutionsForgotten := resolutionsForgotten (drop_conn E w3) @ [Node (Dst (syn l3))] \<rparr>"
  have "relay_inv r0 l3 ?w"
    using relay_inv_frame [OF relay_inv_path [OF gives_up(1) assms(2)], of ?w] by (simp add: drop_conn_def)
  from undo_relay_restores [OF this] show ?thesis using gives_up(2) by (auto simp: dial_give_up_def Let_def split: if_splits)
next
  case cancelled
  have "relay_inv r0 l (drop_conn E w)" using assms(2) by (rule relay_inv_frame) (simp_all add: drop_conn_def)
  then show ?thesis using cancelled undo_relay_restores by blast
qed (use assms(3) in simp)

lemma dial_loop_restores:
  assumes "dial_loop E evs l w = (Some (Inl err), w')" and "relay_inv r0 l w" and "err \<noteq> ErrConnRefused"
    and "\<And>f ev v. (f, ev) \<in> set evs \<Longrightarrow> relayPeer (f v) = relayPeer v \<and> relayPin (f v) = relayPin v"
  shows "relayPeer w' = r0"
  using assms(1,2,4)
proof (induction E evs l w rule: dial_loop.induct)
  case (2 E f ev evs l w)
  have "relayPeer (f w) = relayPeer w \<and> relayPin (f w) = relayPin w" using 2(4) [of f ev w] by simp
  then have inv: "relay_inv r0 l (f w)" by (intro relay_inv_frame [OF 2(3)]) simp_all
  show ?case
  proof (cases "dial_step E ev l (f w)")
    case (Pair r v)
    show ?thesis
    proof (cases r)
      case (Inl a)
      then show ?thesis using 2(2) Pair dial_step_restores [of E ev l "f w" err w' r0] inv assms(3) by simp
    next
      case (Inr l')
      have "dial_loop E evs l' v = (Some (Inl err), w')" using 2(2) Pair Inr by simp
      moreover have "relay_inv r0 l' v" using dial_step_relay_inv [OF Pair [unfolded Inr] inv] .
      moreover have "relayPeer (g v) = relayPeer v \<and> relayPin (g v) = relayPin v" if "(g, e) \<in> set evs" for g e v
        using 2(4) [of g e] that by simp
      ultimately show ?thesis by (rule 2(1) [OF Pair [symmetric] Inr])
    qed
  qed
qed simp

section \<open>What a started dial looks like\<close>

lemma auto_handshake_daemon [simp]: "daemon (auto_handshake E now peer w) = daemon w"
  by (simp add: auto_handshake_def shouldAutoHandshake_def Let_def split: option.split prod.split bool.split)

lemma dial_start_InrE:
  assumes "dial_start E cancelled dstAddr dstPort w0 = (Inr l, w)"
  obtains w1 where "ports (daemon w1) = ports (daemon (snd (ensureTunnel E (Node dstAddr) w0)))"
    "dNodeID (daemon w1) = dNodeID (daemon (snd (ensureTunnel E (Node dstAddr) w0)))"
    "dial_open E dstAddr dstPort (dialOKSeq w0) w1 = (Inr l, w)"
proof -
  obtain ok v where t: "ensureTunnel E (Node dstAddr) w0 = (ok, v)" by force
  define w1 where "w1 = v\<lparr> daemon := (daemon v)\<lparr> outbound := note_contact (Node dstAddr) (de_now (dl_env E)) (outbound (daemon v)) \<rparr> \<rparr>"
  define w2 where "w2 = (if compatMode E \<and> \<not> relayPeer w1 then w1\<lparr> relayPeer := True \<rparr> else w1)"
  let ?w = "auto_handshake E (de_now (dl_env E)) (Node dstAddr) w2"
  have "ports (daemon ?w) = ports (daemon v)" "dNodeID (daemon ?w) = dNodeID (daemon v)" by (simp_all add: w2_def w1_def)
  moreover have "dial_open E dstAddr dstPort (dialOKSeq w0) ?w = (Inr l, w)"
    using assms t unfolding w2_def w1_def by (cases ok) (auto simp: dial_start_def Let_def split: if_split_asm)
  ultimately show thesis using that [of ?w] t by simp
qed

lemma dial_send_InrE:
  assumes "dial_send E pkt oks w = (Inr l, w')"
  shows "conn w' = (conn w)\<lparr> SendSeq := SendSeq (conn w) + 1 \<rparr>" "ports (daemon w') = set_connection (conn w') (ports (daemon w))"
    "syn l = pkt" "retries l = 0" "keyWaitUntil l = de_now (dl_env E) + DialKeyExchangeWait"
    "relayActive l = relayPeer w'" "\<not> relayActivatedHere l" "relayPeer w' = relayPeer w" "relayPin w' = relayPin w"
proof -
  obtain r w5 where s: "send_syn E pkt w = (r, w5)" by force
  note S = send_syn_simps [OF s]
  show "conn w' = (conn w)\<lparr> SendSeq := SendSeq (conn w) + 1 \<rparr>" "ports (daemon w') = set_connection (conn w') (ports (daemon w))"
    "syn l = pkt" "retries l = 0" "keyWaitUntil l = de_now (dl_env E) + DialKeyExchangeWait"
    "relayActive l = relayPeer w'" "\<not> relayActivatedHere l" "relayPeer w' = relayPeer w" "relayPin w' = relayPin w"
    using assms s S by (auto simp: dial_send_def on_conn_def Let_def split: if_splits)
qed

lemma dial_open_InrE:
  assumes "dial_open E dstAddr dstPort oks w1 = (Inr l, w)"
  obtains p pm1 c pm2 c1 where
    "AllocEphemeralPort (de_emin (dl_env E)) (de_emax (dl_env E)) (ports (daemon w1)) = (p, pm1)" "p \<noteq> 0"
    "NewConnection (de_emin (dl_env E)) (de_emax (dl_env E)) (de_now (dl_env E)) p dstAddr dstPort pm1 = (c, pm2)"
    "c1 = dial_conn dstAddr (dNodeID (daemon w1)) c"
    "dial_send E (dial_syn dstAddr dstPort c1) oks (on_conn (\<lambda>_. c1) (w1\<lparr> daemon := (daemon w1)\<lparr> ports := pm2 \<rparr> \<rparr>)) = (Inr l, w)"
proof -
  obtain p pm1 where a: "AllocEphemeralPort (de_emin (dl_env E)) (de_emax (dl_env E)) (ports (daemon w1)) = (p, pm1)" by force
  obtain c pm2 where n: "NewConnection (de_emin (dl_env E)) (de_emax (dl_env E)) (de_now (dl_env E)) p dstAddr dstPort pm1 = (c, pm2)"
    by force
  show thesis
    using assms a n by (intro that [OF a _ n refl]) (simp_all add: dial_open_def Let_def split: if_split_asm)
qed

lemma dial_start_fields:
  assumes "dial_start E cancelled dstAddr dstPort w0 = (Inr l, w)"
  shows "retries l = 0" "keyWaitUntil l = de_now (dl_env E) + DialKeyExchangeWait" "relayActive l = relayPeer w"
    "\<not> relayActivatedHere l"
proof -
  obtain pkt oks v where "dial_send E pkt oks v = (Inr l, w)" using assms by (elim dial_start_InrE dial_open_InrE)
  note dial_send_InrE [OF this]
  then show "retries l = 0" "keyWaitUntil l = de_now (dl_env E) + DialKeyExchangeWait" "relayActive l = relayPeer w"
    "\<not> relayActivatedHere l" by simp_all
qed

section \<open>Properties\<close>

text \<open>
  (C20) A dial ends. Whatever the peer, the tunnel and other goroutines do, a dial whose
  retransmission timer has fired eight times after the ten seconds for the key exchange has
  returned, with the connection or with an error.
\<close>

theorem dial_ends:
  assumes "dial_start E cancelled dstAddr dstPort w0 = (Inr l, w)"
    and "8 \<le> length (filter (\<lambda>x. case snd x of DialTimer t \<Rightarrow> de_now (dl_env E) + 10 * second \<le> t | _ \<Rightarrow> False) evs)"
  shows "\<exists>r w'. dial_loop E evs l w = (Some r, w')"
proof -
  have l: "retries l = 0" "keyWaitUntil l = de_now (dl_env E) + 10 * second"
    using dial_start_fields [OF assms(1)] by (simp_all add: DialKeyExchangeWait_def)
  then have "(\<lambda>x. case snd x of DialTimer t \<Rightarrow> de_now (dl_env E) + 10 * second \<le> t | _ \<Rightarrow> False) = late_timer l"
    by (auto simp: late_timer_def fun_eq_iff split: dial_event.split)
  then have "fst (dial_loop E evs l w) \<noteq> None"
    using assms(2) l(1) by (intro dial_loop_ends) (simp_all add: DialMaxRetries_def)
  then show ?thesis by (metis option.exhaust prod.collapse)
qed

text \<open>A dial to node 6 from the sample daemon.\<close>

definition sample_dial :: dial_env where
  "sample_dial = \<lparr> dl_env = sample_env, compatMode = False, encryptOn = False, hasBeacon = True, handshakeIsTrusted = None,
    isTrustedAgent = (\<lambda>_. False), ensureTunnel = (\<lambda>_ w. (True, w)), sendResult = (\<lambda>_ _. SendOK) \<rparr>"

definition sample_dialer :: dial_world where
  "sample_dialer = \<lparr> daemon = sample_daemon, relayPeer = False, relayPin = False, encrypted = True, keyViaRelayOnly = False,
    autoHandshakeLastAttempt = Map.empty, handshakesSpawned = [], lastDialOK = 0, dialOKSeq = 0, consecutiveDialTimeouts = 0,
    resolutionsForgotten = [], conn = new_connection 0 0 0 zero_addr 0 \<rparr>"

lemmas sample_dial_defs = sample_dial_def sample_dialer_def

lemma dial_start_runs:
  assumes "evaluatePortPolicy (de_services (dl_env E)) (netPolicies (daemon w0)) (memberTags (daemon w0)) PolicyEventDial
      (Network dstAddr) dstPort (Node dstAddr) 0 ''''"
    and "ensureTunnel E (Node dstAddr) w0 = (True, w1)" and "\<not> compatMode E" and "handshakeIsTrusted E = None"
    and "fst (AllocEphemeralPort (de_emin (dl_env E)) (de_emax (dl_env E)) (ports (daemon w1))) \<noteq> 0"
    and "\<And>p v. sendResult E p v = SendOK"
  shows "\<exists>l w. dial_start E False dstAddr dstPort w0 = (Inr l, w) \<and> relayPeer w = relayPeer w1 \<and> relayPin w = relayPin w1"
proof -
  obtain p pm1 where a: "AllocEphemeralPort (de_emin (dl_env E)) (de_emax (dl_env E)) (ports (daemon w1)) = (p, pm1)" by force
  obtain c pm2 where n: "NewConnection (de_emin (dl_env E)) (de_emax (dl_env E)) (de_now (dl_env E)) p dstAddr dstPort pm1 = (c, pm2)"
    by force
  show ?thesis
    using assms a n by (auto simp: dial_start_def auto_handshake_def dial_open_def dial_send_def send_syn_def on_conn_def Let_def)
qed

lemma sample_port: "fst (AllocEphemeralPort 49152 65535 (ports sample_daemon)) \<noteq> 0"
proof -
  have ok: "eph_ok 49152 65535 (NewPortManager 49152)"
    using NewPortManager_inv [OF pilot_range] by (simp add: pm_inv_def)
  have "49152 \<in> eph_pool 49152 65535 - eph_used 49152 65535 (NewPortManager 49152)"
    by (simp add: eph_pool_def eph_used_def NewPortManager_def ephBitIndex_def bm_test_def)
  then have "fst (AllocEphemeralPort 49152 65535 (NewPortManager 49152)) \<noteq> 0" using eph.exhausted [OF ok] by blast
  moreover have "fst (AllocEphemeralPort 49152 65535 (pm\<lparr> listeners := ls \<rparr>)) = fst (AllocEphemeralPort 49152 65535 pm)" for pm ls
    by (simp add: AllocEphemeralPort_def Let_def split: option.split)
  moreover have "ports sample_daemon =
      (NewPortManager 49152)\<lparr> listeners := [80 \<mapsto> \<lparr> Listener.Port = 80, AcceptCh = [], lclosed = False \<rparr>] \<rparr>"
    by (simp add: sample_daemon_def Bind_def NewPortManager_def Let_def)
  ultimately show ?thesis by simp
qed

lemma sample_dial_starts:
  "\<exists>l w. dial_start sample_dial False \<lparr> Network = 0, Node = 6 \<rparr> 80 sample_dialer = (Inr l, w) \<and> \<not> relayPeer w \<and> \<not> relayPin w"
  using dial_start_runs [of sample_dial sample_dialer "\<lparr> Network = 0, Node = 6 \<rparr>" 80 sample_dialer] sample_port
  by (simp add: sample_dial_defs sample_env_def sample_services_def evaluatePortPolicy_def isPortAllowed_def)
    (simp add: sample_daemon_def)

theorem dial_ends_witness:
  "\<exists>l w r w'. dial_start sample_dial False \<lparr> Network = 0, Node = 6 \<rparr> 80 sample_dialer = (Inr l, w) \<and>
    dial_loop sample_dial (replicate 8 (id, DialTimer (30 * second))) l w = (Some r, w')"
proof -
  obtain l w where start: "dial_start sample_dial False \<lparr> Network = 0, Node = 6 \<rparr> 80 sample_dialer = (Inr l, w)"
    using sample_dial_starts by blast
  have "\<exists>r w'. dial_loop sample_dial (replicate 8 (id, DialTimer (30 * second))) l w = (Some r, w')"
    by (rule dial_ends [OF start]) (simp add: sample_dial_def sample_env_def)
  then show ?thesis using start by blast
qed



end
