(* ===== verification/Handshake.thy ===== *)
theory Handshake
  imports Dial
begin

text \<open>
  The three-way handshake across two daemons: the dial of one, the SYN handler of the other and
  the SYN-ACK handler of the first leave both ends of the connection aligned; and two situations
  in which they do not.
\<close>

section \<open>The dialer finds its connection\<close>

lemma dial_table:
  assumes "dial_open E dstAddr dstPort oks w1 = (Inr l, w)" and "daemon_ok (de_emin (dl_env E)) (de_emax (dl_env E)) (daemon w1)"
  shows "(ID (conn w), conn w) \<in> set (connections (ports (daemon w)))"
    and "\<And>x. x \<in> set (all_conns (ports (daemon w))) \<Longrightarrow> active_state (State x) \<Longrightarrow> LocalPort x = SrcPort (syn l) \<Longrightarrow> x = conn w"
    and "\<exists>i. conn w = (dial_conn dstAddr (dNodeID (daemon w1)) (new_connection (de_now (dl_env E)) i (SrcPort (syn l)) dstAddr dstPort))\<lparr> SendSeq := 1 \<rparr>"
    and "syn l = dial_syn dstAddr dstPort ((conn w)\<lparr> SendSeq := 0 \<rparr>)"
    and "daemon_ok (de_emin (dl_env E)) (de_emax (dl_env E)) (daemon w)"
    and "\<And>x. x \<in> set (all_conns (ports (daemon w))) \<Longrightarrow> x = conn w \<or> x \<in> set (all_conns (ports (daemon w1)))"
proof -
  let ?emin = "de_emin (dl_env E)" and ?emax = "de_emax (dl_env E)" and ?now = "de_now (dl_env E)"
  obtain p pm1 c pm2 c1 where a: "AllocEphemeralPort ?emin ?emax (ports (daemon w1)) = (p, pm1)" "p \<noteq> 0"
    and n: "NewConnection ?emin ?emax ?now p dstAddr dstPort pm1 = (c, pm2)"
    and c1: "c1 = dial_conn dstAddr (dNodeID (daemon w1)) c"
    and s: "dial_send E (dial_syn dstAddr dstPort c1) oks (on_conn (\<lambda>_. c1) (w1\<lparr> daemon := (daemon w1)\<lparr> ports := pm2 \<rparr> \<rparr>)) = (Inr l, w)"
    using assms(1) by (elim dial_open_InrE)
  note S = dial_send_InrE [OF s] and N = connections_New [OF n]
  have inv: "pm_inv ?emin ?emax (ports (daemon w1))" using assms(2) by (simp add: daemon_ok_def)
  have pm1: "connections pm1 = connections (ports (daemon w1))" "eph_ok ?emin ?emax (ports (daemon w1))"
    using a(1) inv by (auto simp: AllocEphemeralPort_def pm_inv_def Let_def split: option.splits)
  have cw: "conn w = c1\<lparr> SendSeq := 1 \<rparr>" using S(1) N(2) c1 by (simp add: on_conn_def dial_conn_def new_connection_def)
  have syn: "syn l = dial_syn dstAddr dstPort c1" using S(3) .
  have port: "SrcPort (syn l) = p" using syn c1 N(2) by (simp add: dial_syn_def dial_conn_def)
  have ids: "ID c1 = nextConnID pm1" "ID (conn w) = nextConnID pm1" using cw c1 N(2) by (simp_all add: dial_conn_def)
  have tab: "ports (daemon w) = set_connection (conn w) (set_connection c1 pm2)" using S(2) by (simp add: on_conn_def put_conn_def)
  have "(nextConnID pm1, c) \<in> set (connections pm2)" using N(1) by (simp add: map_of_SomeD update_conv')
  then show "(ID (conn w), conn w) \<in> set (connections (ports (daemon w)))"
    using ids by (force simp: tab set_connection_def)
  have ents: "x = conn w \<or> x \<in> set (all_conns (ports (daemon w1)))" if x: "x \<in> set (all_conns (ports (daemon w)))" for x
  proof -
    have "set (connections pm2) \<subseteq> insert (nextConnID pm1, c) (set (connections pm1))"
      using alist_update_entries N(1) by fastforce
    with set_connection_entries(1) [of "conn w" "set_connection c1 pm2"] set_connection_entries(1) [of c1 pm2] x ids
    show ?thesis by (force simp: tab all_conns_def pm1(1))
  qed
  have "p \<in> eph_pool ?emin ?emax - eph_used ?emin ?emax (ports (daemon w1))"
    using eph.fresh [OF pm1(2)] a by simp
  then have free: "LocalPort x \<noteq> p" if "x \<in> set (all_conns (ports (daemon w1)))" "active_state (State x)" for x
    using inv that by (fastforce simp: pm_inv_def ports_marked_def all_conns_def)
  show "\<And>x. x \<in> set (all_conns (ports (daemon w))) \<Longrightarrow> active_state (State x) \<Longrightarrow> LocalPort x = SrcPort (syn l) \<Longrightarrow> x = conn w"
    using ents free port by blast
  show "\<exists>i. conn w = (dial_conn dstAddr (dNodeID (daemon w1)) (new_connection ?now i (SrcPort (syn l)) dstAddr dstPort))\<lparr> SendSeq := 1 \<rparr>"
    using cw c1 N(2) port by blast
  have "(conn w)\<lparr> SendSeq := 0 \<rparr> = c1" using cw c1 N(2) by (simp add: dial_conn_def new_connection_def)
  then show "syn l = dial_syn dstAddr dstPort ((conn w)\<lparr> SendSeq := 0 \<rparr>)" using syn by simp
  have inv1: "pm_inv ?emin ?emax pm1" using pm_inv_Alloc [OF inv] a(1) by simp
  note P = pm_inv_New [OF inv1 n]
  have lp: "LocalPort c1 = p" "LocalPort (conn w) = p" using cw c1 N(2) by (simp_all add: dial_conn_def)
  have inv2: "pm_inv ?emin ?emax (set_connection c1 pm2)" by (rule pm_inv_update [OF P(1)]) (use P(2) lp in simp)
  have used: "p \<in> eph_pool ?emin ?emax \<Longrightarrow> p \<in> eph_used ?emin ?emax (set_connection c1 pm2)"
    using P(2) eph_used_frame [of "set_connection c1 pm2" pm2] by (simp add: set_connection_entries)
  have "pm_inv ?emin ?emax (ports (daemon w))" unfolding tab
    by (rule pm_inv_update [OF inv2]) (use lp used in simp)
  moreover have "conn_ok (conn w)"
    using new_connection_ok conn_ok_same [of "conn w" c] cw c1 N(2) by (simp add: dial_conn_def conn_fields_def)
  ultimately show "daemon_ok ?emin ?emax (daemon w)"
    using ents assms(2) by (auto simp: daemon_ok_def)
  show "\<And>x. x \<in> set (all_conns (ports (daemon w))) \<Longrightarrow> x = conn w \<or> x \<in> set (all_conns (ports (daemon w1)))" using ents .
qed

lemma find_only_active:
  assumes "c \<in> set (all_conns pm)" and "same_tuple lp ra rp c" and "active_state (State c)"
    and "\<And>x. x \<in> set (all_conns pm) \<Longrightarrow> active_state (State x) \<Longrightarrow> LocalPort x = lp \<Longrightarrow> x = c"
  shows "FindConnection lp ra rp pm = Some c"
proof -
  let ?P = "\<lambda>c. same_tuple lp ra rp c \<and> active_state (State c)"
  obtain x where x: "find ?P (map snd (connections pm)) = Some x"
    using assms(1-3) by (cases "find ?P (map snd (connections pm))") (auto simp: find_None_iff all_conns_def)
  then have "x \<in> set (all_conns pm)" "?P x" by (auto simp: find_Some_iff all_conns_def)
  then have "x = c" using assms(4) by (auto simp: same_tuple_def)
  then show ?thesis using x by (simp add: FindConnection_def find_conn_eq)
qed

lemma dial_finds_conn:
  assumes "dial_open E dstAddr dstPort oks w1 = (Inr l, w)" and "daemon_ok (de_emin (dl_env E)) (de_emax (dl_env E)) (daemon w1)"
  shows "FindConnection (SrcPort (syn l)) dstAddr dstPort (ports (daemon w)) = Some (conn w)"
proof -
  note T = dial_table [OF assms]
  have "same_tuple (SrcPort (syn l)) dstAddr dstPort (conn w)" "active_state (State (conn w))"
    using T(3) by (auto simp: same_tuple_def dial_conn_def active_state_def new_connection_def)
  moreover have "conn w \<in> set (all_conns (ports (daemon w)))" using T(1) by (force simp: all_conns_def)
  ultimately show ?thesis using T(2) by (intro find_only_active)
qed

section \<open>The listener accepts\<close>

lemma syn_rate_gates_sent [simp]: "sentPkts (snd (syn_rate_gates E pkt d)) = sentPkts d"
  by (simp add: syn_rate_gates_def publish_event_def split: prod.split bool.split)

lemma syn_gates_accepts:
  assumes "sentPkts (syn_gates E pkt ln d) = sentPkts d @ [(i, q)]" and "FlagSYN \<in> Flags q"
  obtains d1 where "ports d1 = ports d" "sentPkts d1 = sentPkts d" "syn_gates E pkt ln d = syn_accept E pkt ln d1"
proof -
  obtain pass d1 where g: "syn_rate_gates E pkt d = (pass, d1)" by force
  have d1: "ports d1 = ports d" "sentPkts d1 = sentPkts d"
    using syn_rate_gates_frame(1) [of E pkt d] syn_rate_gates_sent [of E pkt d] g by simp_all
  have "syn_gates E pkt ln d = syn_accept E pkt ln d1 \<or> sentPkts (syn_gates E pkt ln d) = sentPkts d \<or>
      syn_gates E pkt ln d = sendRST pkt d1"
    using d1 by (simp add: syn_gates_def g publish_event_def split: bool.split)
  moreover have "sentPkts (sendRST pkt d1) \<noteq> sentPkts d @ [(i, q)]"
    using d1 assms(2) by (auto simp: sendRST_def tunnel_send_def)
  ultimately show thesis using that d1 assms(1) by auto
qed

lemma syn_accept_conn:
  assumes "sentPkts (syn_accept E pkt ln d) = sentPkts d @ [(i, q)]" and "pm_inv (de_emin E) (de_emax E) (ports d)"
  shows "\<exists>c \<in> set (all_conns (ports (syn_accept E pkt ln d))). State c = StateEstablished \<and> same_tuple (DstPort pkt) (Src pkt) (SrcPort pkt) c \<and>
    SendSeq c = 1 \<and> ExpectedSeq c = Seq pkt + 1 \<and> NagleBuf c = [] \<and> Unacked c = [] \<and> RecvBuf c = [] \<and> OOOBuf c = [] \<and>
    \<not> RecvClosed c \<and> \<not> finPending c"
    and "q = \<lparr> Flags = {FlagSYN, FlagACK}, Protocol = ProtoStream, Src = Dst pkt, Dst = Src pkt, SrcPort = DstPort pkt,
      DstPort = SrcPort pkt, Seq = 0, Ack = Seq pkt + 1, Window = Window q, Payload = [] \<rparr>"
proof -
  obtain c pm where new: "NewConnection (de_emin E) (de_emax E) (de_now E) (DstPort pkt) (Src pkt) (SrcPort pkt) (ports d) = (c, pm)"
    by force
  define c4 where "c4 = peer_window (Window pkt) (c\<lparr> LocalAddr := Dst pkt, State := StateSynReceived,
      RecvAck := Seq pkt + 1, ExpectedSeq := Seq pkt + 1 \<rparr>)"
  define c5 where "c5 = startRetxLoop (c4\<lparr> SynAckSeq := SendSeq c4, SynAckSeqSet := True, SendSeq := SendSeq c4 + 1,
      State := StateEstablished \<rparr>)"
  obtain ok ln' where offer: "TrySend (ID c5) ln = (ok, ln')" by force
  note N = connections_New [OF new]
  have sent: "sentPkts (syn_accept E pkt ln d) = sentPkts d @ (Node (Src pkt), synack_packet pkt (SendSeq c4) c4) #
      (if ok then [] else [(Node (Src pkt), \<lparr> Flags = {FlagRST}, Protocol = ProtoStream, Src = Dst pkt, Dst = Src pkt,
         SrcPort = DstPort pkt, DstPort = SrcPort pkt, Seq = 0, Ack = 0, Window = 0, Payload = [] \<rparr>)])"
    using new offer by (simp add: syn_accept_def c5_def c4_def Let_def publish_event_def tunnel_send_def put_conn_def remove_conn_def sendRST_def)
  then have ok: ok and q: "q = synack_packet pkt (SendSeq c4) c4" using assms(1) by (auto split: if_splits)
  have c4: "SendSeq c4 = 0" "RecvAck c4 = Seq pkt + 1"
    by (simp_all add: c4_def peer_window_def N(2) new_connection_def Let_def signal_window_if_def)
  show "q = \<lparr> Flags = {FlagSYN, FlagACK}, Protocol = ProtoStream, Src = Dst pkt, Dst = Src pkt, SrcPort = DstPort pkt,
      DstPort = SrcPort pkt, Seq = 0, Ack = Seq pkt + 1, Window = Window q, Payload = [] \<rparr>"
    using q c4 by (simp add: synack_packet_def)
  have "connections (ports (syn_accept E pkt ln d)) = connections (set_connection c5 pm)"
    using new offer ok by (simp add: syn_accept_def c5_def c4_def Let_def)
  moreover have "(nextConnID (ports d), c) \<in> set (connections pm)" using N(1) by (simp add: map_of_SomeD update_conv')
  moreover have "ID c5 = nextConnID (ports d)"
    by (simp add: c5_def c4_def startRetxLoop_def peer_window_def N(2) Let_def signal_window_if_def)
  ultimately have "c5 \<in> set (all_conns (ports (syn_accept E pkt ln d)))" by (force simp: all_conns_def set_connection_def)
  moreover have "State c5 = StateEstablished \<and> same_tuple (DstPort pkt) (Src pkt) (SrcPort pkt) c5 \<and>
    SendSeq c5 = 1 \<and> ExpectedSeq c5 = Seq pkt + 1 \<and> NagleBuf c5 = [] \<and> Unacked c5 = [] \<and> RecvBuf c5 = [] \<and> OOOBuf c5 = [] \<and>
    \<not> RecvClosed c5 \<and> \<not> finPending c5"
    by (simp add: c5_def c4_def startRetxLoop_def peer_window_def N(2) new_connection_def same_tuple_def Let_def signal_window_if_def)
  ultimately show "\<exists>c \<in> set (all_conns (ports (syn_accept E pkt ln d))). State c = StateEstablished \<and>
    same_tuple (DstPort pkt) (Src pkt) (SrcPort pkt) c \<and>
    SendSeq c = 1 \<and> ExpectedSeq c = Seq pkt + 1 \<and> NagleBuf c = [] \<and> Unacked c = [] \<and> RecvBuf c = [] \<and> OOOBuf c = [] \<and>
    \<not> RecvClosed c \<and> \<not> finPending c" by blast
qed

lemma handle_syn_new:
  assumes "GetListener (DstPort pkt) (ports d) = Some ln" and "FindConnection (DstPort pkt) (Src pkt) (SrcPort pkt) (ports d) = None"
  shows "handle_syn E pkt d = syn_gates E pkt ln d"
  using assms by (simp add: handle_syn_def)

section \<open>Properties\<close>

text \<open>
  (C5) A handshake aligns both ends. When a dial has sent its SYN and the peer, with no connection
  on these ports, answers it with a SYN-ACK, the peer has an established connection; when the
  dialer gets the SYN-ACK its connection is established too, and in both directions the sequence
  number of the first byte one end will send is the one the other end expects, with empty buffers
  on both ends. These are the conditions under which the stream between them is delivered.
\<close>

theorem handshake_aligns:
  assumes dial: "dial_start E cancelled dstAddr dstPort w0 = (Inr l, w)"
    and okA: "daemon_ok (de_emin (dl_env E)) (de_emax (dl_env E)) (daemon (snd (ensureTunnel E (Node dstAddr) w0)))"
    and okB: "daemon_ok (de_emin EB) (de_emax EB) dB"
    and listens: "GetListener dstPort (ports dB) \<noteq> None"
    and fresh: "FindConnection dstPort (Src (syn l)) (SrcPort (syn l)) (ports dB) = None"
    and answer: "sentPkts (handle_syn EB (syn l) dB) = sentPkts dB @ [(i, q)]" "FlagSYN \<in> Flags q"
  shows "\<exists>cA cB dA ack. cB \<in> set (all_conns (ports (handle_syn EB (syn l) dB))) \<and>
    same_tuple dstPort (Src (syn l)) (SrcPort (syn l)) cB \<and>
    handleStreamPacket EA q (daemon w) = Some dA \<and> sentPkts dA = sentPkts (daemon w) @ [(Node dstAddr, ack)] \<and>
    cA \<in> set (all_conns (ports dA)) \<and> same_tuple (SrcPort (syn l)) dstAddr dstPort cA \<and>
    State cA = StateEstablished \<and> State cB = StateEstablished \<and>
    SendSeq cA = ExpectedSeq cB \<and> SendSeq cB = ExpectedSeq cA \<and>
    (\<forall>c\<in>{cA, cB}. NagleBuf c = [] \<and> Unacked c = [] \<and> RecvBuf c = [] \<and> OOOBuf c = [] \<and> \<not> RecvClosed c \<and> \<not> finPending c)"
proof -
  obtain w1 where w1: "ports (daemon w1) = ports (daemon (snd (ensureTunnel E (Node dstAddr) w0)))"
    "dial_open E dstAddr dstPort (dialOKSeq w0) w1 = (Inr l, w)" using dial by (elim dial_start_InrE)
  have ok1: "daemon_ok (de_emin (dl_env E)) (de_emax (dl_env E)) (daemon w1)" using okA w1(1) by (simp add: daemon_ok_def)
  note T = dial_table [OF w1(2) ok1]
  obtain j self where cw: "conn w = (dial_conn dstAddr self (new_connection (de_now (dl_env E)) j (SrcPort (syn l)) dstAddr dstPort))\<lparr> SendSeq := 1 \<rparr>"
    using T(3) by blast
  have syn: "Dst (syn l) = dstAddr" "DstPort (syn l) = dstPort" "Seq (syn l) = 0" using T(4) by (simp_all add: dial_syn_def)
  obtain ln where ln: "GetListener (DstPort (syn l)) (ports dB) = Some ln" using listens syn by auto
  have gates: "handle_syn EB (syn l) dB = syn_gates EB (syn l) ln dB" using handle_syn_new [OF ln] fresh syn by simp
  then obtain d1 where d1: "ports d1 = ports dB" "sentPkts d1 = sentPkts dB" "handle_syn EB (syn l) dB = syn_accept EB (syn l) ln d1"
    using answer by (metis syn_gates_accepts)
  note B = syn_accept_conn [of EB "syn l" ln d1 i q]
  have pre: "sentPkts (syn_accept EB (syn l) ln d1) = sentPkts d1 @ [(i, q)]" "pm_inv (de_emin EB) (de_emax EB) (ports d1)"
    using answer(1) d1 okB by (simp_all add: daemon_ok_def)
  obtain cB where cB: "cB \<in> set (all_conns (ports (handle_syn EB (syn l) dB)))" "State cB = StateEstablished"
    "same_tuple dstPort (Src (syn l)) (SrcPort (syn l)) cB" "SendSeq cB = 1" "ExpectedSeq cB = 1" "NagleBuf cB = []" "Unacked cB = []"
    "RecvBuf cB = []" "OOOBuf cB = []" "\<not> RecvClosed cB" "\<not> finPending cB"
    using B(1) [OF pre] d1(3) syn by auto
  have q: "Flags q = {FlagSYN, FlagACK}" "Src q = dstAddr" "SrcPort q = dstPort" "DstPort q = SrcPort (syn l)" "Seq q = 0"
    using B(2) [OF pre] syn by (metis packet.select_convs(1,3,5,6,7))+
  define cA where "cA = snd (synack_arrives q (conn w))"
  have found: "FindConnection (DstPort q) (Src q) (SrcPort q) (ports (daemon w)) = Some (conn w)"
    using dial_finds_conn [OF w1(2) ok1] q by simp
  have st: "State (conn w) = StateSynSent" using cw by (simp add: dial_conn_def)
  have cA: "State cA = StateEstablished" "ID cA = ID (conn w)" "same_tuple (SrcPort (syn l)) dstAddr dstPort cA" "SendSeq cA = 1" "ExpectedSeq cA = 1"
    "NagleBuf cA = []" "Unacked cA = []" "RecvBuf cA = []" "OOOBuf cA = []" "\<not> RecvClosed cA" "\<not> finPending cA"
    by (simp_all add: cA_def synack_arrives_def signalDial_def peer_window_def signal_window_if_def cw dial_conn_def new_connection_def q
        same_tuple_def Let_def)
  define dA where "dA = tunnel_send (Node (Src q)) (fst (synack_arrives q (conn w))) (put_conn cA (daemon w))"
  have run: "handleStreamPacket EA q (daemon w) = Some dA"
    using found st q(1) by (simp add: handleStreamPacket_def HasFlag_def dA_def cA_def split_beta)
  have "cA \<in> set (all_conns (ports dA))"
    using T(1) cA(2) by (force simp: dA_def all_conns_def set_connection_def)
  moreover have "sentPkts dA = sentPkts (daemon w) @ [(Node dstAddr, fst (synack_arrives q (conn w)))]"
    using q by (simp add: dA_def tunnel_send_def put_conn_def)
  ultimately show ?thesis using cB cA run by (intro exI [of _ cA] exI [of _ cB] exI [of _ dA] exI) auto
qed

text \<open>Node 5 dials port 80 of the sample daemon, which trusts it.\<close>

lemma sample_accepts:
  assumes "Src pkt = \<lparr> Network = 0, Node = 5 \<rparr>" and "DstPort pkt = 80" and "Network (Dst pkt) = 0"
  shows "\<exists>q. sentPkts (handle_syn sample_env pkt sample_daemon) = sentPkts sample_daemon @ [(5, q)] \<and> FlagSYN \<in> Flags q"
proof -
  let ?ln = "\<lparr> Listener.Port = 80, AcceptCh = [], lclosed = False \<rparr>"
  have p: "ports sample_daemon = (NewPortManager 49152)\<lparr> listeners := [80 \<mapsto> ?ln] \<rparr>"
    by (simp add: sample_daemon_def Bind_def NewPortManager_def Let_def)
  have find: "FindConnection (DstPort pkt) (Src pkt) (SrcPort pkt) (ports sample_daemon) = None"
    by (simp add: p FindConnection_def NewPortManager_def)
  have "handle_syn sample_env pkt sample_daemon = syn_gates sample_env pkt ?ln sample_daemon"
    using find p assms by (intro handle_syn_new) (simp_all add: GetListener_def)
  moreover have "syn_trusted sample_env pkt sample_daemon"
    using assms by (simp add: syn_trusted_def handshakeTrusts_def sample_env_def sample_services_def)
  moreover have "evaluatePortPolicy (de_services sample_env) (netPolicies sample_daemon) (memberTags sample_daemon) PolicyEventConnect
      (Network (Dst pkt)) (DstPort pkt) (Node (Src pkt)) 0 ''''"
    by (simp add: evaluatePortPolicy_def isPortAllowed_def sample_env_def sample_services_def sample_daemon_def)
  moreover have "fst (syn_rate_gates sample_env pkt sample_daemon)"
    by (simp add: syn_rate_gates_def syn_whitelisted_def allowSYNFromSource_def allowSYN_def sample_env_def sample_daemon_def synRateLimit_def
        maxPerSrcSYNEntries_def map_len_def time_sub_def DefaultSYNRateLimit_def Let_def)
  then obtain d1 where d1: "syn_rate_gates sample_env pkt sample_daemon = (True, d1)" by (metis prod.collapse)
  moreover have d1': "ports d1 = ports sample_daemon" "config d1 = config sample_daemon" "sentPkts d1 = sentPkts sample_daemon"
    using d1 syn_rate_gates_frame [of sample_env pkt sample_daemon] syn_rate_gates_sent [of sample_env pkt sample_daemon] by simp_all
  moreover have "ConnectionCountForPort (DstPort pkt) (ports d1) = 0" "TotalActiveConnections (ports d1) = 0"
    by (simp_all add: d1' p ConnectionCountForPort_def TotalActiveConnections_def all_conns_def NewPortManager_def)
  moreover have "0 < maxConnectionsPerPort (config d1)" "0 < maxTotalConnections (config d1)"
    by (simp_all add: maxConnectionsPerPort_def maxTotalConnections_def DefaultMaxConnectionsPerPort_def DefaultMaxTotalConnections_def)
  ultimately have "handle_syn sample_env pkt sample_daemon = syn_accept sample_env pkt ?ln d1"
    by (simp add: syn_gates_def)
  moreover have "\<exists>q. sentPkts (syn_accept sample_env pkt ?ln d1) = sentPkts d1 @ [(Node (Src pkt), q)] \<and> FlagSYN \<in> Flags q"
    by (simp add: syn_accept_def TrySend_def AcceptQueueLen_def publish_event_def tunnel_send_def put_conn_def synack_packet_def Let_def
        split: prod.split)
  ultimately show ?thesis using d1' assms by simp
qed

definition sample_peer :: dial_world where
  "sample_peer = sample_dialer\<lparr> daemon := sample_daemon\<lparr> dNodeID := 5 \<rparr> \<rparr>"

theorem handshake_aligns_witness:
  "\<exists>l w q (cA :: Connection) cB dA ack. dial_start sample_dial False \<lparr> Network = 0, Node = 3 \<rparr> 80 sample_peer = (Inr l, w) \<and>
    cB \<in> set (all_conns (ports (handle_syn sample_env (syn l) sample_daemon))) \<and>
    handleStreamPacket sample_env q (daemon w) = Some dA \<and> sentPkts dA = sentPkts (daemon w) @ [(3, ack)] \<and>
    State cA = StateEstablished \<and> State cB = StateEstablished \<and> SendSeq cA = ExpectedSeq cB \<and> SendSeq cB = ExpectedSeq cA"
proof -
  let ?dst = "\<lparr> Network = 0, Node = 3 \<rparr>"
  have port: "fst (AllocEphemeralPort 49152 65535 (ports (daemon sample_peer))) \<noteq> 0"
    using sample_port by (simp add: sample_peer_def)
  obtain l w where dial: "dial_start sample_dial False ?dst 80 sample_peer = (Inr l, w)"
    using dial_start_runs [of sample_dial sample_peer ?dst 80 sample_peer] port
    by (auto simp: sample_dial_def sample_env_def sample_services_def evaluatePortPolicy_def isPortAllowed_def sample_peer_def
        sample_dialer_def) (auto simp: sample_daemon_def)
  have ens: "snd (ensureTunnel sample_dial n v) = v" for n v by (simp add: sample_dial_def)
  have emm: "de_emin (dl_env sample_dial) = 49152" "de_emax (dl_env sample_dial) = 65535" "de_emin sample_env = 49152" "de_emax sample_env = 65535"
    by (simp_all add: sample_dial_def sample_env_def)
  have okA: "daemon_ok 49152 65535 (daemon sample_peer)"
    using sample_daemon_ok by (simp add: sample_peer_def daemon_ok_def)
  obtain w1 where w1: "ports (daemon w1) = ports (daemon sample_peer)" "dNodeID (daemon w1) = dNodeID (daemon sample_peer)"
    "dial_open sample_dial ?dst 80 (dialOKSeq sample_peer) w1 = (Inr l, w)" using dial ens by (metis dial_start_InrE)
  have ok1: "daemon_ok 49152 65535 (daemon w1)" using okA w1(1) by (simp add: daemon_ok_def)
  have ok1': "daemon_ok (de_emin (dl_env sample_dial)) (de_emax (dl_env sample_dial)) (daemon w1)" using ok1 emm by simp
  note T = dial_table [OF w1(3) ok1']
  obtain j where cw: "conn w = (dial_conn ?dst (dNodeID (daemon w1)) (new_connection (de_now (dl_env sample_dial)) j (SrcPort (syn l)) ?dst 80))\<lparr> SendSeq := 1 \<rparr>"
    using T(3) by blast
  have "LocalAddr (conn w) = \<lparr> Network = 0, Node = 5 \<rparr>"
    using arg_cong [OF cw, of LocalAddr] w1(2) by (simp add: dial_conn_def sample_peer_def)
  then have syn: "Src (syn l) = \<lparr> Network = 0, Node = 5 \<rparr>" "DstPort (syn l) = 80" "Dst (syn l) = ?dst"
    using T(4) by (simp_all add: dial_syn_def)
  obtain q where q: "sentPkts (handle_syn sample_env (syn l) sample_daemon) = sentPkts sample_daemon @ [(5, q)]" "FlagSYN \<in> Flags q"
    using sample_accepts [of "syn l"] syn by auto
  have fresh: "FindConnection 80 (Src (syn l)) (SrcPort (syn l)) (ports sample_daemon) = None"
    "GetListener 80 (ports sample_daemon) \<noteq> None"
    by (simp_all add: sample_daemon_def Bind_def NewPortManager_def FindConnection_def GetListener_def Let_def)
  have okA': "daemon_ok (de_emin (dl_env sample_dial)) (de_emax (dl_env sample_dial))
      (daemon (snd (ensureTunnel sample_dial (Node ?dst) sample_peer)))" using okA emm ens by simp
  have okB': "daemon_ok (de_emin sample_env) (de_emax sample_env) sample_daemon" using sample_daemon_ok emm by simp
  obtain cA :: Connection and cB dA ack where H: "cB \<in> set (all_conns (ports (handle_syn sample_env (syn l) sample_daemon)))"
    "handleStreamPacket sample_env q (daemon w) = Some dA" "sentPkts dA = sentPkts (daemon w) @ [(Node ?dst, ack)]"
    "SendSeq cA = ExpectedSeq cB" "SendSeq cB = ExpectedSeq cA" "State cA = StateEstablished" "State cB = StateEstablished"
    using handshake_aligns [OF dial okA' okB' fresh(2,1) q, where EA = sample_env] by (elim exE conjE) (blast intro: that)
  have "sentPkts dA = sentPkts (daemon w) @ [(3, ack)]" using H(3) by simp
  then show ?thesis using dial H(1,2,4-7) by (intro exI conjI)
qed

end
