(* ===== verification/Daemon_Sweep.thy ===== *)
theory Daemon_Sweep
  imports Handshake
begin

text \<open>
  What the daemon does to its connections on a timer (\<^verbatim>\<open>retxLoop\<close>, \<^verbatim>\<open>idleSweepLoop\<close>,
  \<^verbatim>\<open>keepaliveSweep\<close>), and the datagrams it sends (\<^verbatim>\<open>SendDatagram\<close>, \<^verbatim>\<open>BroadcastDatagram\<close>).
\<close>

section \<open>The retransmission loop\<close>

text \<open>
  One tick of the loop of a connection. The result says whether the loop goes on. A removed
  connection has its stop channel closed; a panic of the retransmission ends the connection.
\<close>

definition retx_tick :: "daemon_env \<Rightarrow> int \<Rightarrow> u32 \<Rightarrow> Daemon \<Rightarrow> bool \<times> Daemon" where
  "retx_tick E rnd i d =
    (case GetConnection i (ports d) of
       None \<Rightarrow> (False, d)
     | Some c \<Rightarrow>
       let cleanup = (False, remove_conn E i (put_conn (CloseRecvBuf c) d));
           retx = (case retransmitUnacked (de_now E) rnd c of
                     None \<Rightarrow> cleanup
                   | Some (pkts, c') \<Rightarrow> (True, fold (tunnel_send (Node (RemoteAddr c))) pkts (put_conn c' d))) in
       if State c = StateEstablished then retx
       else if State c = StateFinWait then (if \<not> unackedHasData c then (False, d) else retx)
       else if State c = StateClosed then cleanup
       else (False, d))"

section \<open>The sweep\<close>

record sweep_env =
  sw_env :: daemon_env
  sw_send :: link
  sw_locked :: "u32 \<Rightarrow> bool"
  sw_stopping :: bool
  sw_linger :: duration

text \<open>A closed or abandoned connection leaves the table, its held FIN first.\<close>

definition reap_stale :: "daemon_env \<Rightarrow> Connection \<Rightarrow> Daemon \<Rightarrow> Daemon" where
  "reap_stale E c d =
    (case releaseHeldFIN (de_now E) (c, []) of (c1, pkts) \<Rightarrow>
     remove_conn E (ID c) (fold (tunnel_send (Node (RemoteAddr c))) pkts (put_conn (CloseRecvBuf c1) d)))"

definition close_conn :: "sweep_env \<Rightarrow> Connection \<Rightarrow> Daemon \<Rightarrow> Daemon" where
  "close_conn S c d =
    (case CloseConnection (sw_send S) (sw_locked S (ID c)) (sw_stopping S) (sw_linger S) (PortDataExchange (de_ports (sw_env S)))
            (de_now (sw_env S)) (c, []) of
       (ev, c1, pkts) \<Rightarrow>
         let d1 = fold (tunnel_send (Node (RemoteAddr c))) pkts (put_conn c1 d) in
         if ev then publish_event (FileDelivered (ID c)) d1 else d1)"

definition keepalive_probe :: "Connection \<Rightarrow> packet" where
  "keepalive_probe c =
    \<lparr> Flags = {FlagACK}, Protocol = ProtoStream, Src = LocalAddr c, Dst = RemoteAddr c, SrcPort = LocalPort c,
      DstPort = RemotePort c, Seq = SendSeq c, Ack = RecvAck c, Window = RecvWindow c, Payload = [] \<rparr>"

definition keepalive_one :: "sweep_env \<Rightarrow> Connection \<Rightarrow> Daemon \<Rightarrow> Daemon" where
  "keepalive_one S c d =
    (if State c \<noteq> StateEstablished then d
     else if KeepaliveUnacked c \<ge> 3 then close_conn S c (publish_event (ConnDeadPeer (ID c)) d)
     else tunnel_send (Node (RemoteAddr c)) (keepalive_probe c)
            (put_conn (c\<lparr> KeepaliveUnacked := KeepaliveUnacked c + 1 \<rparr>) d))"

definition keepalive_sweep :: "sweep_env \<Rightarrow> Daemon \<Rightarrow> Daemon" where
  "keepalive_sweep S d =
    fold (keepalive_one S) (IdleConnections (de_now (sw_env S)) (keepaliveInterval (config d)) (ports d)) d"

text \<open>
  One tick of \<^verbatim>\<open>idleSweepLoop\<close>, without the steps on the tunnel's tables and the resolution
  caches, which are not part of this state.
\<close>

definition idle_sweep :: "sweep_env \<Rightarrow> Daemon \<Rightarrow> Daemon" where
  "idle_sweep S d =
    (let E = sw_env S; now = de_now E;
         d1 = fold (reap_stale E) (StaleConnections now (timeWaitDuration (config d)) (ports d)) d;
         d2 = fold (\<lambda>c d. close_conn S c (publish_event (ConnIdleTimeout (ID c)) d)) (IdleConnections now (idleTimeout (config d)) (ports d1)) d1;
         d3 = d2\<lparr> perSrcSYN := reapPerSrcSYN now (perSrcSYN d2), outbound := pruneLocked now (outbound d2) \<rparr> in
     keepalive_sweep S d3)"

section \<open>Datagrams\<close>

datatype datagram_error =
    ErrBroadcastAddr
  | ErrDatagramPolicy
  | ErrDatagramPorts
  | ErrDatagramTunnel
  | ErrDatagramSend
  | ErrNoAdminToken
  | ErrBadAdminToken
  | ErrBackbone
  | ErrListNodes
  | ErrNotMember

text \<open>
  The test for a broadcast address, the tunnel's part (whether it has a route, and whether it takes
  the packet), the registry's list of members, and the operator's consent.
\<close>

record datagram_env =
  dg_env :: daemon_env
  dg_isBroadcast :: "Addr \<Rightarrow> bool"
  dg_tunnel :: "node_id \<Rightarrow> bool"
  dg_send :: "packet \<Rightarrow> bool"
  dg_nodes :: "u16 \<Rightarrow> node_id option list option option"
  dg_consent :: bool
  AdminToken :: string

definition datagram_packet :: "node_id \<Rightarrow> u16 \<Rightarrow> Addr \<Rightarrow> u16 \<Rightarrow> bytes \<Rightarrow> packet" where
  "datagram_packet self srcPort dstAddr dstPort data =
    \<lparr> Flags = {}, Protocol = ProtoDatagram, Src = \<lparr> Network = Network dstAddr, Node = self \<rparr>, Dst = dstAddr, SrcPort = srcPort,
      DstPort = dstPort, Seq = 0, Ack = 0, Window = 0, Payload = data \<rparr>"

text \<open>The borrowed port goes back whatever the body returns.\<close>

definition with_port :: "daemon_env \<Rightarrow> (u16 \<Rightarrow> Daemon \<Rightarrow> datagram_error option \<times> Daemon) \<Rightarrow> Daemon \<Rightarrow> datagram_error option \<times> Daemon" where
  "with_port E body d =
    (case AllocEphemeralPort (de_emin E) (de_emax E) (ports d) of (p, pm) \<Rightarrow>
     if p = 0 then (Some ErrDatagramPorts, d)
     else case body p (d\<lparr> ports := pm \<rparr>) of (err, d1) \<Rightarrow>
       (err, d1\<lparr> ports := ReleaseEphemeralPort (de_emin E) (de_emax E) p (ports d1) \<rparr>))"

definition SendDatagram :: "datagram_env \<Rightarrow> Addr \<Rightarrow> u16 \<Rightarrow> bytes \<Rightarrow> Daemon \<Rightarrow> datagram_error option \<times> Daemon" where
  "SendDatagram G dstAddr dstPort data d =
    (if dg_isBroadcast G dstAddr then (Some ErrBroadcastAddr, d)
     else if \<not> evaluatePortPolicy (de_services (dg_env G)) (netPolicies d) (memberTags d) PolicyEventDatagram (Network dstAddr)
                 dstPort (Node dstAddr) (length data) ''out''
     then (Some ErrDatagramPolicy, publish_event (DatagramPortRejected (Node dstAddr) dstPort (Network dstAddr)) d)
     else with_port (dg_env G) (\<lambda>srcPort d.
       if \<not> dg_tunnel G (Node dstAddr) then (Some ErrDatagramTunnel, d)
       else
         let pkt = datagram_packet (dNodeID d) srcPort dstAddr dstPort data in
         if dg_send G pkt then (None, tunnel_send (Node dstAddr) pkt d) else (Some ErrDatagramSend, d)) d)"

definition broadcast_one :: "datagram_env \<Rightarrow> u16 \<Rightarrow> u16 \<Rightarrow> u16 \<Rightarrow> bytes \<Rightarrow> node_id option \<Rightarrow> Daemon \<Rightarrow> Daemon" where
  "broadcast_one G netID srcPort dstPort data n d =
    (case n of
       None \<Rightarrow> d
     | Some nodeID \<Rightarrow>
       if nodeID = dNodeID d then d
       else if \<not> evaluatePortPolicy (de_services (dg_env G)) (netPolicies d) (memberTags d) PolicyEventDatagram netID
                   dstPort nodeID (length data) ''out''
       then d
       else if \<not> dg_tunnel G nodeID then d
       else
         let pkt = datagram_packet (dNodeID d) srcPort \<lparr> Network = netID, Node = nodeID \<rparr> dstPort data in
         if dg_send G pkt then tunnel_send nodeID pkt d else d)"

definition broadcastDatagram ::
    "datagram_env \<Rightarrow> u16 \<Rightarrow> u16 \<Rightarrow> u16 \<Rightarrow> bytes \<Rightarrow> Daemon \<Rightarrow> datagram_error option \<times> Daemon" where
  "broadcastDatagram G netID srcPort dstPort data d =
    (if netID = 0 then (Some ErrBackbone, d)
     else case dg_nodes G netID of
       None \<Rightarrow> (Some ErrListNodes, d)
     | Some None \<Rightarrow> (None, d)
     | Some (Some nodes) \<Rightarrow>
       if Some (dNodeID d) \<notin> set nodes then (Some ErrNotMember, d)
       else (None, fold (broadcast_one G netID srcPort dstPort data) nodes d))"

definition BroadcastDatagram ::
    "datagram_env \<Rightarrow> u16 \<Rightarrow> u16 \<Rightarrow> bytes \<Rightarrow> string \<Rightarrow> Daemon \<Rightarrow> datagram_error option \<times> Daemon" where
  "BroadcastDatagram G netID dstPort data adminToken d =
    (if \<not> dg_consent G then (None, d)
     else if AdminToken G = '''' then (Some ErrNoAdminToken, d)
     else if adminToken \<noteq> AdminToken G then (Some ErrBadAdminToken, d)
     else with_port (dg_env G) (\<lambda>srcPort. broadcastDatagram G netID srcPort dstPort data) d)"

section \<open>Who stays in the table\<close>

text \<open>The identity and the addresses of a connection.\<close>

definition who :: "Connection \<Rightarrow> u32 \<times> u16 \<times> Addr \<times> u16" where
  "who c = (ID c, LocalPort c, RemoteAddr c, RemotePort c)"

lemma who_updates [simp]:
  "who (c\<lparr> heldFIN := x1 \<rparr>) = who c" "who (c\<lparr> finLingerTimer := x2 \<rparr>) = who c" "who (c\<lparr> Unacked := x3 \<rparr>) = who c"
  "who (c\<lparr> SendSeq := x4 \<rparr>) = who c" "who (c\<lparr> NagleBuf := x5 \<rparr>) = who c" "who (c\<lparr> ACKTimer := x6 \<rparr>) = who c"
  "who (c\<lparr> State := x7 \<rparr>) = who c" "who (c\<lparr> LastActivity := x8 \<rparr>) = who c" "who (c\<lparr> KeepaliveUnacked := x9 \<rparr>) = who c"
  "who (c\<lparr> Stats := x10 \<rparr>) = who c" "who (c\<lparr> PendingACKs := x11 \<rparr>) = who c" "who (CloseRecvBuf c) = who c" "who (stopFINHold c) = who c"
  by (simp_all add: who_def CloseRecvBuf_def stopFINHold_def)

lemma who_transmit [simp]: "who (fst (snd (transmitSegment send now data cw))) = who (fst cw)"
  by (simp add: transmitSegment_def TrackSend_def Let_def split_beta)

lemma who_transmit_all [simp]: "who (fst (transmit_all send now n tail cw)) = who (fst cw)"
  by (induction send now n tail cw rule: transmit_all.induct) (subst transmit_all.simps, simp del: transmit_all.simps)

lemma who_release [simp]: "who (fst (releaseHeldFIN now cw)) = who (fst cw)"
  by (simp add: releaseHeldFIN_def sendFIN_def Let_def split_beta split: option.split)

lemma who_CloseConnection: "who (fst (snd (CloseConnection send locked stopping linger dx now cw))) = who (fst cw)"
proof -
  have "who (fst (sendHeldTailBeforeClose send locked now cw)) = who (fst cw)"
    by (simp add: sendHeldTailBeforeClose_def split_beta del: transmit_all.simps)
  moreover have "who (fst (releaseHeldFINIfAcked now v)) = who (fst v)" for v by (simp add: releaseHeldFINIfAcked_def)
  ultimately show ?thesis by (simp add: CloseConnection_def sendFIN_def Let_def split_beta)
qed

definition residents :: "Daemon \<Rightarrow> (u32 \<times> u16 \<times> Addr \<times> u16) set" where
  "residents d = who ` set (all_conns (ports d))"

lemma residents_put: "residents (put_conn c d) \<subseteq> insert (who c) (residents d)"
  using set_connection_conns [of c "ports d"] by (auto simp: residents_def)

lemma residents_frame [simp]:
  "residents (publish_event ev d) = residents d" "residents (fold (tunnel_send i) pkts d) = residents d"
  "residents (tunnel_send i pkt d) = residents d"
  by (simp_all add: residents_def)

lemma close_conn_residents: "residents (close_conn S c d) \<subseteq> insert (who c) (residents d)"
proof -
  obtain ev c1 pkts where r: "CloseConnection (sw_send S) (sw_locked S (ID c)) (sw_stopping S) (sw_linger S)
      (PortDataExchange (de_ports (sw_env S))) (de_now (sw_env S)) (c, []) = (ev, c1, pkts)" by (metis prod.exhaust)
  have "who c1 = who c" using who_CloseConnection [of "sw_send S" _ _ _ _ _ "(c, [])"] r by (metis fst_conv snd_conv)
  then show ?thesis using residents_put [of c1 d] r by (simp add: close_conn_def Let_def)
qed

lemma keepalive_residents: "residents (keepalive_one S c d) \<subseteq> insert (who c) (residents d)"
  using close_conn_residents [of S c "publish_event (ConnDeadPeer (ID c)) d"]
    residents_put [of "c\<lparr> KeepaliveUnacked := KeepaliveUnacked c + 1 \<rparr>" d]
  by (auto simp: keepalive_one_def)

lemma fold_residents:
  assumes "\<And>c d. residents (f c d) \<subseteq> insert (who c) (residents d)"
  shows "residents (fold f cs d) \<subseteq> who ` set cs \<union> residents d"
proof (induction cs arbitrary: d)
  case (Cons c cs)
  show ?case using Cons [of "f c d"] assms [of c d] by auto
qed simp

lemma listed_residents: "set cs \<subseteq> set (all_conns (ports d)) \<Longrightarrow> who ` set cs \<subseteq> residents d"
  by (auto simp: residents_def)

lemma fold_idle_residents:
  assumes "\<And>c d. residents (f c d) \<subseteq> insert (who c) (residents d)"
  shows "residents (fold f (IdleConnections t k (ports d)) d) \<subseteq> residents d"
proof -
  have "set (IdleConnections t k (ports d)) \<subseteq> set (all_conns (ports d))" by (auto simp: IdleConnections_def)
  from listed_residents [OF this] fold_residents [of f "IdleConnections t k (ports d)" d, OF assms] show ?thesis by blast
qed

lemma delete_map: "AList.delete k (map (\<lambda>(i, d). if i = k then (i, v) else (i, d)) xs) = AList.delete k xs"
  by (induction xs) (auto split: if_splits)

lemma reap_connections: "connections (ports (reap_stale E c d)) = AList.delete (ID c) (connections (ports d))"
proof -
  obtain c1 pkts where r: "releaseHeldFIN (de_now E) (c, []) = (c1, pkts)" by force
  have "who c1 = who c" using who_release [of "de_now E" "(c, [])"] r by simp
  then have "ID (CloseRecvBuf c1) = ID c" by (simp add: who_def CloseRecvBuf_def)
  then have "AList.delete (ID c) (connections (set_connection (CloseRecvBuf c1) (ports d))) = AList.delete (ID c) (connections (ports d))"
    using delete_map [of "ID c"] by (simp add: set_connection_def)
  then show ?thesis using r by (simp add: reap_stale_def)
qed

lemma fold_reap_connections:
  "set (connections (ports (fold (reap_stale E) cs d))) \<subseteq> {x \<in> set (connections (ports d)). fst x \<notin> ID ` set cs}"
proof (induction cs arbitrary: d)
  case (Cons c cs)
  show ?case using Cons [of "reap_stale E c d"] by (auto simp: reap_connections AList.delete_eq)
qed simp

text \<open>After a sweep nobody is there who was stale, and nobody who was not there before.\<close>

lemma idle_sweep_residents:
  assumes "pm_inv emin emax (ports d)" and "x \<in> residents (idle_sweep S d)"
  shows "\<exists>c\<in>set (all_conns (ports d)). who c = x \<and> \<not> is_stale (de_now (sw_env S)) (timeWaitDuration (config d)) c"
proof -
  define now where "now = de_now (sw_env S)"
  let ?stale = "StaleConnections now (timeWaitDuration (config d)) (ports d)"
  define d1 where "d1 = fold (reap_stale (sw_env S)) ?stale d"
  define d2 where "d2 = fold (\<lambda>c d. close_conn S c (publish_event (ConnIdleTimeout (ID c)) d)) (IdleConnections now (idleTimeout (config d)) (ports d1)) d1"
  define d3 where "d3 = d2\<lparr> perSrcSYN := reapPerSrcSYN now (perSrcSYN d2), outbound := pruneLocked now (outbound d2) \<rparr>"
  have s: "idle_sweep S d = keepalive_sweep S d3" by (simp add: idle_sweep_def d1_def d2_def d3_def now_def Let_def)
  have "residents (keepalive_sweep S d3) \<subseteq> residents d3"
    unfolding keepalive_sweep_def by (rule fold_idle_residents [OF keepalive_residents])
  moreover have "residents d3 = residents d2" by (simp add: d3_def residents_def)
  moreover have "residents (close_conn S c (publish_event (ConnIdleTimeout (ID c)) e)) \<subseteq> insert (who c) (residents e)" for c e
    using close_conn_residents [of S c "publish_event (ConnIdleTimeout (ID c)) e"] by simp
  then have "residents d2 \<subseteq> residents d1" unfolding d2_def by (rule fold_idle_residents)
  ultimately have "x \<in> residents d1" using assms(2) s by auto
  then obtain i c where c: "(i, c) \<in> set (connections (ports d1))" "who c = x" by (auto simp: residents_def all_conns_def)
  then have mem: "(i, c) \<in> set (connections (ports d))" "i \<notin> ID ` set ?stale"
    using fold_reap_connections [of "sw_env S" ?stale d] by (auto simp: d1_def)
  have "ID c = i" using mem(1) assms(1) by (auto simp: pm_inv_def)
  then have "c \<notin> set ?stale" using mem(2) by auto
  moreover have "c \<in> set (all_conns (ports d))" using mem(1) by (force simp: all_conns_def)
  ultimately show ?thesis using c(2) by (auto simp: StaleConnections_def now_def)
qed

section \<open>A dial that is swept\<close>

lemma dial_step_pending:
  assumes "State (conn w) = StateSynSent"
  shows "fst (dial_step E ev l w) \<noteq> Inl (Inr ())" and "State (conn (snd (dial_step E ev l w))) = StateSynSent"
proof -
  have timer: "State (conn w') = StateSynSent" if "dial_timer E t l w = (r, w')" for t r w'
  proof (cases r)
    case (Inl err)
    from that [unfolded Inl] obtain l3 w3 where "timer_path E l w = (l3, w3)" "dial_give_up E l3 w3 = (err, w')"
      by (elim dial_timer_InlE)
    then show ?thesis using timer_path_simps(4) assms by (fastforce simp: dial_give_up_def Let_def split: if_splits)
  next
    case (Inr l')
    from that [unfolded Inr] show ?thesis
    proof (cases rule: dial_timer_cases)
      case (waits q)
      then show ?thesis using assms send_syn_simps(3) by auto
    next
      case (resends l3 w3)
      have "conn w' = conn w3"
        using resends(3) by (auto simp: timer_resend_def Let_def dest: send_syn_simps split: if_splits prod.splits)
      then show ?thesis using timer_path_simps(4) [OF resends(1)] assms by simp
    qed
  qed
  show "fst (dial_step E ev l w) \<noteq> Inl (Inr ())"
    using assms by (cases ev) (auto simp: dial_step_def dialOutcome_def Let_def split: prod.split sum.split)
  show "State (conn (snd (dial_step E ev l w))) = StateSynSent"
  proof (cases ev)
    case (DialTimer t)
    then show ?thesis using timer [of t] by (auto simp: dial_step_def split: prod.splits sum.splits)
  qed (use assms in \<open>auto simp: dial_step_def dialOutcome_def Let_def\<close>)
qed

lemma dial_loop_pending:
  assumes "State (conn w) = StateSynSent" and "\<And>f ev v. (f, ev) \<in> set evs \<Longrightarrow> conn (f v) = conn v"
  shows "fst (dial_loop E evs l w) \<noteq> Some (Inr ())"
  using assms
proof (induction E evs l w rule: dial_loop.induct)
  case (2 E f ev evs l w)
  have "State (conn (f w)) = StateSynSent" using 2(2) 2(3) [of f ev w] by simp
  note P = dial_step_pending [OF this, of E ev l]
  have same: "conn (g v) = conn v" if "(g, e) \<in> set evs" for g e v using 2(3) [of g e] that by simp
  obtain r v where s: "dial_step E ev l (f w) = (r, v)" by force
  show ?case
  proof (cases r)
    case (Inr l')
    have "State (conn v) = StateSynSent" using P(2) s by simp
    then have "fst (dial_loop E evs l' v) \<noteq> Some (Inr ())" using same by (rule 2(1) [OF s [symmetric] Inr])
    then show ?thesis using s Inr by simp
  qed (use s P(1) in auto)
qed simp

lemma FindConnection_who:
  assumes "FindConnection lp ra rp (ports d) = Some c"
  shows "who c \<in> residents d" and "LocalPort c = lp" and "RemoteAddr c = ra" and "RemotePort c = rp"
  using FindConnection_SomeD [OF assms] by (auto simp: residents_def same_tuple_def)

section \<open>Properties\<close>


definition sample_sweep :: sweep_env where
  "sample_sweep = \<lparr> sw_env = sample_env\<lparr> de_now := 15 * second \<rparr>, sw_send = (\<lambda>_. True), sw_locked = (\<lambda>_. False), sw_stopping = False,
    sw_linger = 15 * second \<rparr>"


section \<open>Keepalives\<close>

text \<open>An acknowledgement without data gets no answer from a connection with nothing outstanding.\<close>

lemma ack_unanswered:
  assumes "Unacked c = []" and "heldFIN c = None" and "Payload pkt = []"
    and run: "ack_arrives now drained pkt c = Some (pkts, taken, ev, c')"
  shows "pkts = [] \<and> \<not> ev"
proof -
  let ?c2 = "peer_window (Window pkt) (c\<lparr> LastActivity := now, KeepaliveUnacked := 0 \<rparr>)"
  have sack: "DecodeSACK (Payload pkt) = None" using assms(3) by (simp add: DecodeSACK_def)
  obtain pure resent c3 where p: "ProcessAck now (Ack pkt) pure ?c2 = Some (resent, c3)"
    and r: "pkts = snd (releaseHeldFINIfAcked now (c3, resent)) \<and> \<not> ev"
    using run assms(3) sack by (auto simp: ack_arrives_def Let_def split: option.splits prod.splits)
  have u: "Unacked ?c2 = []" using assms(1) by (simp add: peer_window_def Let_def)
  have "\<forall>x\<in>set resent. repeats ?c2 x"
    using p new_ack_repeats [of now "Ack pkt" ?c2] dup_ack_repeats [of now ?c2] by (auto simp: ProcessAck_def split: if_splits)
  then have "resent = []" using u by (cases resent) (auto simp: repeats_def)
  moreover have "keeps c ?c2" unfolding keeps_simps by (simp add: keeps_def ident_def)
  then have "keeps c c3" using keeps_ProcessAck [OF p] keeps_trans by blast
  then have "heldFIN c3 = None" using assms(2) by (simp add: keeps_def ident_def)
  ultimately show ?thesis using r by (simp add: releaseHeldFINIfAcked_def)
qed

text \<open>A daemon whose table has one connection.\<close>

definition only_conn :: "Connection \<Rightarrow> Daemon \<Rightarrow> bool" where
  "only_conn c d \<longleftrightarrow> connections (ports d) = [(ID c, c)]"

definition idle_at :: "sweep_env \<Rightarrow> Connection \<Rightarrow> Daemon \<Rightarrow> bool" where
  "idle_at S c d \<longleftrightarrow> State c = StateEstablished \<and> time_sub (de_now (sw_env S)) (LastActivity c) > keepaliveInterval (config d)"

lemma sweep_probes:
  assumes "only_conn c d" and "idle_at S c d" and "KeepaliveUnacked c < 3"
  defines "c' \<equiv> c\<lparr> KeepaliveUnacked := KeepaliveUnacked c + 1 \<rparr>"
  shows "only_conn c' (keepalive_sweep S d)"
    and "sentPkts (keepalive_sweep S d) = sentPkts d @ [(Node (RemoteAddr c), keepalive_probe c)]"
    and "config (keepalive_sweep S d) = config d"
proof -
  have "keepalive_sweep S d = tunnel_send (Node (RemoteAddr c)) (keepalive_probe c) (put_conn c' d)"
    using assms by (simp add: keepalive_sweep_def keepalive_one_def IdleConnections_def only_conn_def idle_at_def all_conns_def)
  then show "only_conn c' (keepalive_sweep S d)"
    "sentPkts (keepalive_sweep S d) = sentPkts d @ [(Node (RemoteAddr c), keepalive_probe c)]" "config (keepalive_sweep S d) = config d"
    using assms(1) by (simp_all add: only_conn_def c'_def put_conn_def tunnel_send_def set_connection_def)
qed

lemma sweep_closes:
  assumes "only_conn c d" and "idle_at S c d" and "KeepaliveUnacked c = 3" and "Unacked c = []" and "\<not> sw_locked S (ID c)"
  shows "sentPkts (keepalive_sweep S d) =
    sentPkts d @ [(Node (RemoteAddr c), stream_packet {FlagFIN} c (SendSeq c) 0 0 [])]"
    and "ConnDeadPeer (ID c) \<in> set (busEvents (keepalive_sweep S d))"
proof -
  have k: "keepalive_sweep S d = close_conn S c (publish_event (ConnDeadPeer (ID c)) d)"
    using assms by (simp add: keepalive_sweep_def keepalive_one_def IdleConnections_def only_conn_def idle_at_def all_conns_def)
  show "sentPkts (keepalive_sweep S d) = sentPkts d @ [(Node (RemoteAddr c), stream_packet {FlagFIN} c (SendSeq c) 0 0 [])]"
    "ConnDeadPeer (ID c) \<in> set (busEvents (keepalive_sweep S d))"
    using assms(2,4,5)
    by (simp_all add: k close_conn_def CloseConnection_def sendHeldTailBeforeClose_def sendFIN_def unackedHasData_def idle_at_def
        publish_event_def tunnel_send_def put_conn_def Let_def)
qed

text \<open>
  (C25) Keepalives are not answered. A probe that reaches a live peer with nothing outstanding makes
  it send nothing; so the end that sends them, on a connection it hears nothing else on, sends three
  of them in three sweeps, and in the fourth reports the peer dead and sends a FIN.
\<close>

theorem keepalives_close_live_peer:
  assumes live: "FindConnection (RemotePort c) (LocalAddr c) (LocalPort c) (ports dB) = Some p"
    and peer: "Unacked p = []" "heldFIN p = None" "daemon_ok emin emax dB"
    and only: "only_conn c d" and fresh: "KeepaliveUnacked c = 0" "Unacked c = []"
    and idle: "\<And>S. S \<in> {S1, S2, S3, S4} \<Longrightarrow> idle_at S c d \<and> \<not> sw_locked S (ID c)"
  shows "(\<exists>dB'. handleStreamPacket EB (keepalive_probe c) dB = Some dB' \<and> sentPkts dB' = sentPkts dB) \<and>
    (\<exists>fin. sentPkts (fold keepalive_sweep [S1, S2, S3, S4] d) =
       sentPkts d @ map (Pair (Node (RemoteAddr c))) [keepalive_probe c, keepalive_probe c, keepalive_probe c, fin] \<and> Flags fin = {FlagFIN}) \<and>
    ConnDeadPeer (ID c) \<in> set (busEvents (fold keepalive_sweep [S1, S2, S3, S4] d))"
proof -
  define c1 where "c1 = c\<lparr> KeepaliveUnacked := 1 \<rparr>"
  define c2 where "c2 = c\<lparr> KeepaliveUnacked := 2 \<rparr>"
  define c3 where "c3 = c\<lparr> KeepaliveUnacked := 3 \<rparr>"
  note cs = c1_def c2_def c3_def
  have probe: "keepalive_probe c1 = keepalive_probe c" "keepalive_probe c2 = keepalive_probe c"
    by (simp_all add: cs keepalive_probe_def RecvWindow_def)
  have i: "config e = config d \<Longrightarrow> idle_at S c1 e \<and> idle_at S c2 e \<and> idle_at S c3 e" if "S \<in> {S1, S2, S3, S4}" for S e
    using idle [OF that] by (simp add: idle_at_def cs)
  have "idle_at S1 c d" using idle by blast
  note P1 = sweep_probes [OF only this]
  have o1: "only_conn c1 (keepalive_sweep S1 d)" using P1(1) fresh by (simp add: cs)
  note P2 = sweep_probes [OF o1, of S2]
  have o2: "only_conn c2 (keepalive_sweep S2 (keepalive_sweep S1 d))" using P2(1) i P1(3) fresh by (simp add: cs)
  note P3 = sweep_probes [OF o2, of S3]
  have o3: "only_conn c3 (keepalive_sweep S3 (keepalive_sweep S2 (keepalive_sweep S1 d)))"
    using P3(1) i P1(3) P2(3) fresh by (simp add: cs)
  note P4 = sweep_closes [OF o3, of S4]
  have "sentPkts (fold keepalive_sweep [S1, S2, S3, S4] d) = sentPkts d @ map (Pair (Node (RemoteAddr c)))
      [keepalive_probe c, keepalive_probe c, keepalive_probe c, stream_packet {FlagFIN} c3 (SendSeq c3) 0 0 []]"
    "ConnDeadPeer (ID c) \<in> set (busEvents (fold keepalive_sweep [S1, S2, S3, S4] d))"
    using P1 P2 P3 P4 i probe fresh idle by (simp_all add: cs)
  moreover obtain dB' where dB': "handleStreamPacket EB (keepalive_probe c) dB = Some dB'" "sentPkts dB' = sentPkts dB"
  proof -
    have "p \<in> set (all_conns (ports dB))" using FindConnection_SomeD [OF live] by simp
    then have "conn_ok p" using peer(3) by (simp add: daemon_ok_def)
    then obtain pkts taken ev c' where a: "ack_arrives (de_now EB) (de_drained EB) (keepalive_probe c) p = Some (pkts, taken, ev, c')"
      using ack_arrives_ok by blast
    have "pkts = [] \<and> \<not> ev" using ack_unanswered [OF peer(1,2) _ a] by (simp add: keepalive_probe_def)
    then show thesis
      using a live by (intro that [of "conn_done c' pkts taken ev dB"])
        (simp_all add: handleStreamPacket_def HasFlag_def conn_done_def put_conn_def keepalive_probe_def)
  qed
  moreover have "Flags (stream_packet {FlagFIN} c3 (SendSeq c3) 0 0 []) = {FlagFIN}" by (simp add: stream_packet_def)
  ultimately show ?thesis by blast
qed

text \<open>The sample daemon with one established connection on port 80 or to it.\<close>

definition sample_stream :: "u16 \<Rightarrow> Addr \<Rightarrow> u16 \<Rightarrow> Connection" where
  "sample_stream lp ra rp = (new_connection 0 1 lp ra rp)\<lparr> LocalAddr := \<lparr> Network = 0, Node = 3 \<rparr>, State := StateEstablished \<rparr>"

definition sample_with :: "Connection \<Rightarrow> Daemon" where
  "sample_with c = sample_daemon\<lparr> ports := (ports sample_daemon)\<lparr> connections := [(ID c, c)] \<rparr> \<rparr>"

lemma sample_with_ok:
  assumes "conn_ok c" and "LocalPort c \<notin> eph_pool 49152 65535"
  shows "daemon_ok 49152 65535 (sample_with c)"
  using sample_daemon_ok assms
  by (simp add: daemon_ok_def pm_inv_def sample_with_def eph_ok_def ports_marked_def all_conns_def)

lemma sample_stream_ok: "conn_ok (sample_stream lp ra rp)"
  using new_connection_ok [of 0 1 lp ra rp] conn_ok_same [of "sample_stream lp ra rp" "new_connection 0 1 lp ra rp"]
  by (simp add: sample_stream_def conn_fields_def)

lemma sample_with_simps [simp]:
  "connections (ports (sample_with c)) = [(ID c, c)]" "config (sample_with c) = config sample_daemon"
  "FindConnection (LocalPort c) (RemoteAddr c) (RemotePort c) (ports (sample_with c)) = Some c"
  by (simp_all add: sample_with_def FindConnection_def same_tuple_def)

theorem keepalives_close_live_peer_witness:
  "let c = sample_stream 49152 \<lparr> Network = 0, Node = 3 \<rparr> 80; d = sample_with c;
       S = (\<lambda>t. sample_sweep\<lparr> sw_env := sample_env\<lparr> de_now := t * second \<rparr> \<rparr>) in
   \<exists>fin. sentPkts (fold keepalive_sweep [S 75, S 90, S 105, S 120] d) =
     map (Pair 3) [keepalive_probe c, keepalive_probe c, keepalive_probe c, fin] \<and> Flags fin = {FlagFIN}"
proof -
  let ?c = "sample_stream 49152 \<lparr> Network = 0, Node = 3 \<rparr> 80" and ?p = "sample_stream 80 \<lparr> Network = 0, Node = 3 \<rparr> 49152"
  let ?S = "\<lambda>t. sample_sweep\<lparr> sw_env := sample_env\<lparr> de_now := t * second \<rparr> \<rparr>"
  have f: "LocalPort ?c = 49152" "RemotePort ?c = 80" "LocalAddr ?c = \<lparr> Network = 0, Node = 3 \<rparr>" "LocalPort ?p = 80" "RemotePort ?p = 49152"
    "RemoteAddr ?p = \<lparr> Network = 0, Node = 3 \<rparr>" "RemoteAddr ?c = \<lparr> Network = 0, Node = 3 \<rparr>"
    by (simp_all add: sample_stream_def new_connection_def)
  have live: "FindConnection (RemotePort ?c) (LocalAddr ?c) (LocalPort ?c) (ports (sample_with ?p)) = Some ?p"
    using sample_with_simps(3) [of ?p] f by simp
  have ok: "daemon_ok 49152 65535 (sample_with ?p)"
    using f by (intro sample_with_ok sample_stream_ok) (simp add: eph_pool_def)
  have "\<exists>fin. sentPkts (fold keepalive_sweep [?S 75, ?S 90, ?S 105, ?S 120] (sample_with ?c)) =
     sentPkts (sample_with ?c) @ map (Pair (Node (RemoteAddr ?c))) [keepalive_probe ?c, keepalive_probe ?c, keepalive_probe ?c, fin] \<and>
       Flags fin = {FlagFIN}"
    by (rule keepalives_close_live_peer [OF live _ _ ok, THEN conjunct2, THEN conjunct1])
      (auto simp: sample_stream_def new_connection_def only_conn_def idle_at_def keepaliveInterval_def DefaultKeepaliveInterval_def
        sample_sweep_def sample_daemon_def time_sub_def)
  then show ?thesis using f by (simp add: Let_def) (simp add: sample_with_def sample_daemon_def)
qed

end
