(* ===== verification/Daemon_Runs.thy ===== *)
theory Daemon_Runs
  imports Daemon_Sweep
begin

text \<open>
  The daemon as a whole: every step that touches its connections, in any order (packets, timers,
  sweeps, dials, datagrams, writes, reads, listeners), and what holds in every state it can get
  into.
\<close>

section \<open>Operations that keep the table in order\<close>

lemma conn_ok_transmit: "conn_ok (fst (snd (transmitSegment send now data cw))) = conn_ok (fst cw)"
  by (rule conn_ok_same) (simp add: conn_fields_def transmitSegment_def TrackSend_def Let_def split_beta)

lemma State_transmit: "State (fst (snd (transmitSegment send now data cw))) = State (fst cw)"
  by (simp add: transmitSegment_def TrackSend_def Let_def split_beta)

lemma conn_ok_transmit_all: "conn_ok (fst (transmit_all send now n tail cw)) = conn_ok (fst cw)"
  by (induction send now n tail cw rule: transmit_all.induct)
    (subst transmit_all.simps, simp add: conn_ok_transmit del: transmit_all.simps)

lemma conn_ok_updates [simp]:
  "conn_ok (c\<lparr> finLingerTimer := x1 \<rparr>) = conn_ok c" "conn_ok (c\<lparr> Unacked := x2 \<rparr>) = conn_ok c" "conn_ok (c\<lparr> SendSeq := x3 \<rparr>) = conn_ok c"
  "conn_ok (c\<lparr> ACKTimer := x4 \<rparr>) = conn_ok c" "conn_ok (c\<lparr> State := x5 \<rparr>) = conn_ok c" "conn_ok (c\<lparr> LastActivity := x6 \<rparr>) = conn_ok c"
  "conn_ok (c\<lparr> KeepaliveUnacked := x7 \<rparr>) = conn_ok c" "conn_ok (c\<lparr> NagleBuf := x8 \<rparr>) = conn_ok c" "conn_ok (CloseRecvBuf c) = conn_ok c"
  "conn_ok (stopFINHold c) = conn_ok c"
  by (rule conn_ok_same, simp add: conn_fields_def CloseRecvBuf_def stopFINHold_def)+

lemma conn_ok_unheld: "conn_ok c \<Longrightarrow> conn_ok (c\<lparr> heldFIN := None \<rparr>)"
  by (simp add: conn_ok_def cong_low_def recv_bounded_def held_ok_def)

lemma conn_ok_release: "conn_ok (fst cw) \<Longrightarrow> conn_ok (fst (releaseHeldFIN now cw))"
  by (simp add: releaseHeldFIN_def sendFIN_def split_beta Let_def conn_ok_unheld split: option.split)

lemma State_release: "State (fst (releaseHeldFIN now cw)) = State (fst cw)"
  by (simp add: releaseHeldFIN_def sendFIN_def split_beta Let_def split: option.split)

lemma conn_ok_CloseConnection:
  assumes "conn_ok (fst cw)"
  shows "conn_ok (fst (snd (CloseConnection send locked stopping linger dx now cw)))"
proof -
  have t: "conn_ok (fst (sendHeldTailBeforeClose send locked now cw))"
    using assms by (simp add: sendHeldTailBeforeClose_def split_beta conn_ok_transmit_all del: transmit_all.simps)
  have h: "conn_ok (c\<lparr> heldFIN := Some (stream_packet {FlagFIN} c' sq ak win pl) \<rparr>)" if "conn_ok c" for c c' sq ak win pl
    using that by (simp add: conn_ok_def cong_low_def recv_bounded_def held_ok_def stream_packet_def)
  have r: "conn_ok (fst (releaseHeldFINIfAcked now v))" if "conn_ok (fst v)" for v
    using that by (simp add: releaseHeldFINIfAcked_def conn_ok_release)
  show ?thesis using t by (simp add: CloseConnection_def sendFIN_def Let_def split_beta h r)
qed
text \<open>
  A step on one connection of a list: it settles, and the other connections stay as they are, so
  the list can be worked off.
\<close>

definition works_on :: "daemon_env \<Rightarrow> (Connection \<Rightarrow> Daemon \<Rightarrow> Daemon) \<Rightarrow> bool" where
  "works_on E f \<longleftrightarrow> (\<forall>c d. env_ok E d \<longrightarrow> c \<in> set (all_conns (ports d)) \<longrightarrow> settles E d (f c d) \<and>
    (\<forall>x\<in>set (all_conns (ports d)). ID x \<noteq> ID c \<longrightarrow> x \<in> set (all_conns (ports (f c d)))))"

lemma settles_env: "settles E d d' \<Longrightarrow> env_ok E d'"
  by (simp add: settles_def env_ok_def)

lemma works_rest:
  assumes "works_on E f" and "env_ok E d" and "distinct (map ID (c # cs))" and "set (c # cs) \<subseteq> set (all_conns (ports d))"
  shows "c \<in> set (all_conns (ports d))" and "settles E d (f c d)" and "set cs \<subseteq> set (all_conns (ports (f c d)))"
proof -
  show c: "c \<in> set (all_conns (ports d))" using assms(4) by simp
  then have s: "settles E d (f c d)" "\<And>x. x \<in> set (all_conns (ports d)) \<Longrightarrow> ID x \<noteq> ID c \<Longrightarrow> x \<in> set (all_conns (ports (f c d)))"
    using assms(1,2) by (simp_all add: works_on_def)
  show "settles E d (f c d)" by (rule s(1))
  show "set cs \<subseteq> set (all_conns (ports (f c d)))"
  proof
    fix x assume x: "x \<in> set cs"
    then have "ID x \<in> ID ` set cs" by simp
    then have "ID x \<noteq> ID c" using assms(3) by auto
    then show "x \<in> set (all_conns (ports (f c d)))" using assms(4) x by (intro s(2)) auto
  qed
qed

lemma fold_settles:
  assumes "works_on E f" and "env_ok E d" and "distinct (map ID cs)" and "set cs \<subseteq> set (all_conns (ports d))"
  shows "settles E d (fold f cs d)"
  using assms(2-4)
proof (induction cs arbitrary: d)
  case (Cons c cs)
  note W = works_rest [OF assms(1) Cons.prems]
  then show ?case using Cons.IH [OF settles_env [OF W(2)] _ W(3)] Cons.prems(2) settles_trans [OF W(2)] by simp
qed (simp add: settles_frame)

lemma filter_conns:
  assumes "env_ok E d"
  shows "distinct (map ID (filter P (all_conns (ports d))))"
proof -
  have inv: "distinct (map fst (connections (ports d)))" "\<And>i c. (i, c) \<in> set (connections (ports d)) \<Longrightarrow> ID c = i"
    using assms by (auto simp: env_ok_def daemon_ok_def pm_inv_def)
  then have "map ID (all_conns (ports d)) = map fst (connections (ports d))" by (auto simp: all_conns_def)
  then show ?thesis using inv(1) by (metis distinct_map_filter)
qed

lemma put_keeps_others:
  assumes "x \<in> set (all_conns pm)" and "ID x \<noteq> ID c" and "\<And>i c. (i, c) \<in> set (connections pm) \<Longrightarrow> ID c = i"
  shows "x \<in> set (all_conns (set_connection c pm))"
proof -
  obtain i where "(i, x) \<in> set (connections pm)" using assms(1) by (auto simp: all_conns_def)
  moreover from this have "i \<noteq> ID c" using assms(2,3) by auto
  ultimately have "(i, x) \<in> set (connections (set_connection c pm))" by (force simp: set_connection_def)
  then show ?thesis by (force simp: all_conns_def)
qed

lemma env_ids: "env_ok E d \<Longrightarrow> (i, c) \<in> set (connections (ports d)) \<Longrightarrow> ID c = i"
  by (auto simp: env_ok_def daemon_ok_def pm_inv_def)

text \<open>An update of the connection itself, which keeps its identity.\<close>

definition touches :: "(Connection \<Rightarrow> Daemon \<Rightarrow> Daemon) \<Rightarrow> bool" where
  "touches f \<longleftrightarrow> (\<forall>c d. conn_ok c \<longrightarrow> config (f c d) = config d \<and>
    (ports (f c d) = ports d \<or>
     (\<exists>c'. ports (f c d) = set_connection c' (ports d) \<and> conn_ok c' \<and> who c' = who c \<and> (active_state (State c') \<longrightarrow> active_state (State c)))))"

lemma touches_works:
  assumes "touches f"
  shows "works_on E f"
  unfolding works_on_def
proof (intro allI impI)
  fix c d
  assume env: "env_ok E d" and c: "c \<in> set (all_conns (ports d))"
  have t: "config (f c d) = config d" "ports (f c d) = ports d \<or>
      (\<exists>c'. ports (f c d) = set_connection c' (ports d) \<and> conn_ok c' \<and> who c' = who c \<and> (active_state (State c') \<longrightarrow> active_state (State c)))"
    using assms known_conn_ok [OF env c] unfolding touches_def by blast+
  from t(2) show "settles E d (f c d) \<and> (\<forall>x\<in>set (all_conns (ports d)). ID x \<noteq> ID c \<longrightarrow> x \<in> set (all_conns (ports (f c d))))"
  proof (elim disjE exE conjE)
    fix c'
    assume u: "ports (f c d) = set_connection c' (ports d)" "conn_ok c'" "who c' = who c"
      "active_state (State c') \<longrightarrow> active_state (State c)"
    then have "settles E d (f c d)" using env c t(1) by (intro settles_put [of E d c' c]) (auto simp: who_def)
    then show ?thesis using u put_keeps_others [of _ "ports d" c'] env_ids [OF env] by (auto simp: who_def)
  qed (use env t(1) in \<open>simp add: settles_frame\<close>)
qed

lemma close_conn_put:
  assumes "conn_ok c"
  shows "\<exists>c'. ports (close_conn S c d) = set_connection c' (ports d) \<and> config (close_conn S c d) = config d \<and> conn_ok c' \<and> who c' = who c \<and>
    State c' = StateFinWait"
proof -
  let ?r = "CloseConnection (sw_send S) (sw_locked S (ID c)) (sw_stopping S) (sw_linger S) (PortDataExchange (de_ports (sw_env S)))
      (de_now (sw_env S)) (c, [])"
  have "State (fst (snd ?r)) = StateFinWait" by (simp add: CloseConnection_def Let_def split_beta)
  moreover have "conn_ok (fst (snd ?r))" using assms by (simp add: conn_ok_CloseConnection)
  moreover have "who (fst (snd ?r)) = who c" by (simp add: who_CloseConnection)
  moreover have "ports (close_conn S c d) = set_connection (fst (snd ?r)) (ports d)" "config (close_conn S c d) = config d"
    by (simp_all add: close_conn_def Let_def split_beta)
  ultimately show ?thesis by (intro exI [of _ "fst (snd ?r)"]) simp
qed

text \<open>Only a connection that is open is closed by a sweep.\<close>

lemma keepalive_touches: "touches (keepalive_one S)"
  unfolding touches_def
proof (intro allI impI)
  fix c d
  assume ok: "conn_ok c"
  obtain c' where c': "ports (close_conn S c (publish_event (ConnDeadPeer (ID c)) d)) = set_connection c' (ports d)"
    "config (close_conn S c (publish_event (ConnDeadPeer (ID c)) d)) = config d" "conn_ok c'" "who c' = who c" "State c' = StateFinWait"
    using close_conn_put [OF ok, of S "publish_event (ConnDeadPeer (ID c)) d"] by auto
  let ?k = "c\<lparr> KeepaliveUnacked := KeepaliveUnacked c + 1 \<rparr>"
  have k: "conn_ok ?k" "who ?k = who c" "State ?k = State c" using ok by simp_all
  consider "State c \<noteq> StateEstablished" | "State c = StateEstablished" "KeepaliveUnacked c \<ge> 3"
    | "State c = StateEstablished" "\<not> KeepaliveUnacked c \<ge> 3" by blast
  then show "config (keepalive_one S c d) = config d \<and> (ports (keepalive_one S c d) = ports d \<or>
      (\<exists>c'. ports (keepalive_one S c d) = set_connection c' (ports d) \<and> conn_ok c' \<and> who c' = who c \<and>
        (active_state (State c') \<longrightarrow> active_state (State c))))"
  proof cases
    case 2
    then have "keepalive_one S c d = close_conn S c (publish_event (ConnDeadPeer (ID c)) d)" by (simp add: keepalive_one_def)
    then show ?thesis using c' 2(1) by (auto simp: active_state_def)
  next
    case 3
    then have "ports (keepalive_one S c d) = set_connection ?k (ports d)" "config (keepalive_one S c d) = config d"
      by (simp_all add: keepalive_one_def)
    then show ?thesis using k by metis
  qed (simp add: keepalive_one_def)
qed

text \<open>For the idle timeout the list only has open connections.\<close>

definition idle_close :: "sweep_env \<Rightarrow> Connection \<Rightarrow> Daemon \<Rightarrow> Daemon" where
  "idle_close S c d = (if State c = StateEstablished then close_conn S c (publish_event (ConnIdleTimeout (ID c)) d) else d)"

lemma idle_close_touches: "touches (idle_close S)"
  unfolding touches_def
proof (intro allI impI)
  fix c e
  assume ok: "conn_ok c"
  obtain c' where "ports (close_conn S c (publish_event (ConnIdleTimeout (ID c)) e)) = set_connection c' (ports e)"
    "config (close_conn S c (publish_event (ConnIdleTimeout (ID c)) e)) = config e" "conn_ok c'" "who c' = who c" "State c' = StateFinWait"
    using close_conn_put [OF ok, of S "publish_event (ConnIdleTimeout (ID c)) e"] by auto
  then show "config (idle_close S c e) = config e \<and> (ports (idle_close S c e) = ports e \<or>
      (\<exists>c'. ports (idle_close S c e) = set_connection c' (ports e) \<and> conn_ok c' \<and> who c' = who c \<and>
        (active_state (State c') \<longrightarrow> active_state (State c))))"
    by (auto simp: idle_close_def active_state_def)
qed

lemma fold_idle_close:
  "fold (\<lambda>c d. close_conn S c (publish_event (ConnIdleTimeout (ID c)) d)) (IdleConnections t k pm) d =
    fold (idle_close S) (IdleConnections t k pm) d"
  by (rule List.fold_cong) (auto simp: idle_close_def IdleConnections_def)

lemma reap_works: "works_on E (reap_stale E)"
  unfolding works_on_def
proof (intro allI impI)
  fix c d
  assume env: "env_ok E d" and c: "c \<in> set (all_conns (ports d))"
  let ?c' = "CloseRecvBuf (fst (releaseHeldFIN (de_now E) (c, [])))"
  define d1 where "d1 = fold (tunnel_send (Node (RemoteAddr c))) (snd (releaseHeldFIN (de_now E) (c, []))) (put_conn ?c' d)"
  have w: "who ?c' = who c" "State ?c' = State c" "conn_ok ?c'"
    using known_conn_ok [OF env c] by (simp_all add: State_release conn_ok_release) (simp add: CloseRecvBuf_def State_release)
  then have "settles E d d1" using env c by (intro settles_put [of E d ?c' c]) (auto simp: d1_def who_def)
  then have "settles E d (remove_conn E (ID c) d1)" using settles_remove settles_env settles_trans by blast
  moreover have "reap_stale E c d = remove_conn E (ID c) d1" by (simp add: reap_stale_def d1_def split_beta)
  moreover have "x \<in> set (all_conns (ports (reap_stale E c d)))" if x: "x \<in> set (all_conns (ports d))" "ID x \<noteq> ID c" for x
  proof -
    obtain i where i: "(i, x) \<in> set (connections (ports d))" using x(1) by (auto simp: all_conns_def)
    then have "i \<noteq> ID c" using env_ids [OF env i] x(2) by simp
    then have "(i, x) \<in> set (connections (ports (reap_stale E c d)))" using i by (simp add: reap_connections AList.delete_eq)
    then show ?thesis by (force simp: all_conns_def)
  qed
  ultimately show "settles E d (reap_stale E c d) \<and>
      (\<forall>x\<in>set (all_conns (ports d)). ID x \<noteq> ID c \<longrightarrow> x \<in> set (all_conns (ports (reap_stale E c d))))" by auto
qed

lemma idle_sweep_settles:
  assumes "env_ok (sw_env S) d"
  shows "settles (sw_env S) d (idle_sweep S d)"
proof -
  define E where "E = sw_env S"
  define now where "now = de_now E"
  define d1 where "d1 = fold (reap_stale E) (StaleConnections now (timeWaitDuration (config d)) (ports d)) d"
  define d2 where "d2 = fold (\<lambda>c d. close_conn S c (publish_event (ConnIdleTimeout (ID c)) d)) (IdleConnections now (idleTimeout (config d)) (ports d1)) d1"
  define d3 where "d3 = d2\<lparr> perSrcSYN := reapPerSrcSYN now (perSrcSYN d2), outbound := pruneLocked now (outbound d2) \<rparr>"
  have env: "env_ok E d" using assms by (simp add: E_def)
  have s1: "settles E d d1"
    unfolding d1_def StaleConnections_def using filter_conns [OF env] by (intro fold_settles [OF reap_works env]) auto
  have s2: "settles E d1 d2"
    unfolding d2_def fold_idle_close unfolding IdleConnections_def
    using filter_conns [OF settles_env [OF s1]] by (intro fold_settles [OF touches_works [OF idle_close_touches] settles_env [OF s1]]) auto
  have s3: "settles E d2 d3" using settles_env [OF s2] by (rule settles_frame) (simp_all add: d3_def)
  have "settles E d3 (keepalive_sweep S d3)"
    unfolding keepalive_sweep_def IdleConnections_def
    using filter_conns [OF settles_env [OF s3]] by (intro fold_settles [OF touches_works [OF keepalive_touches] settles_env [OF s3]]) auto
  moreover have "idle_sweep S d = keepalive_sweep S d3" by (simp add: idle_sweep_def d1_def d2_def d3_def E_def now_def Let_def)
  ultimately show ?thesis using settles_trans [OF s1 settles_trans [OF s2 settles_trans [OF s3]]] by (simp add: E_def)
qed

section \<open>Steps\<close>

text \<open>What a timer, the application or the retransmission loop does to one connection of the table.\<close>

definition conn_acts :: "u32 \<Rightarrow> (Connection \<Rightarrow> packet list \<times> bool \<times> Connection) \<Rightarrow> Daemon \<Rightarrow> Daemon" where
  "conn_acts i f d =
    (case GetConnection i (ports d) of
       None \<Rightarrow> d
     | Some c \<Rightarrow> (case f c of (pkts, ev, c') \<Rightarrow> conn_done c' pkts [] ev d))"

definition app_read :: "nat \<Rightarrow> Connection \<Rightarrow> packet list \<times> bool \<times> Connection" where
  "app_read n c = ([], False, recv_step (Reads n) c)"

definition app_segment :: "link \<Rightarrow> instant \<Rightarrow> bytes \<Rightarrow> Connection \<Rightarrow> packet list \<times> bool \<times> Connection" where
  "app_segment send now data c = (case transmitSegment send now data (c, []) of (_, c', pkts) \<Rightarrow> (pkts, False, c'))"

definition app_hold :: "bytes \<Rightarrow> Connection \<Rightarrow> packet list \<times> bool \<times> Connection" where
  "app_hold buf c = ([], False, c\<lparr> NagleBuf := buf \<rparr>)"

definition linger_ends :: "instant \<Rightarrow> Connection \<Rightarrow> packet list \<times> bool \<times> Connection" where
  "linger_ends now c = (case releaseHeldFIN now (c, []) of (c', pkts) \<Rightarrow> (pkts, False, c'))"

definition delayed_ack :: "Connection \<Rightarrow> packet list \<times> bool \<times> Connection" where
  "delayed_ack c = (case ack_timer_fires c of (pkt, c') \<Rightarrow> ([pkt], False, c'))"

definition retx_starts :: "Connection \<Rightarrow> packet list \<times> bool \<times> Connection" where
  "retx_starts c = ([], False, startRetxLoop c)"

text \<open>The environments of one daemon differ in the clock, not in the range of its ephemeral ports.\<close>

inductive daemon_step :: "u16 \<Rightarrow> u16 \<Rightarrow> Daemon \<Rightarrow> Daemon \<Rightarrow> bool" for emin emax where
  packet: "\<lbrakk> de_emin E = emin; de_emax E = emax; dispatch E pkt d = Some d' \<rbrakk> \<Longrightarrow> daemon_step emin emax d d'"
| retransmits: "\<lbrakk> de_emin E = emin; de_emax E = emax; retx_tick E rnd i d = (goes_on, d') \<rbrakk> \<Longrightarrow> daemon_step emin emax d d'"
| sweeps: "\<lbrakk> de_emin (sw_env S) = emin; de_emax (sw_env S) = emax \<rbrakk> \<Longrightarrow> daemon_step emin emax d (idle_sweep S d)"
| dials: "\<lbrakk> de_emin (dl_env D) = emin; de_emax (dl_env D) = emax; daemon w = d; dial_open D dst dp oks w = (r, w') \<rbrakk> \<Longrightarrow>
    daemon_step emin emax d (daemon w')"
| drops: "\<lbrakk> de_emin E = emin; de_emax E = emax \<rbrakk> \<Longrightarrow> daemon_step emin emax d (remove_conn E i d)"
| datagrams: "\<lbrakk> de_emin (dg_env G) = emin; de_emax (dg_env G) = emax; SendDatagram G dst dp data d = (err, d') \<rbrakk> \<Longrightarrow> daemon_step emin emax d d'"
| broadcasts: "\<lbrakk> de_emin (dg_env G) = emin; de_emax (dg_env G) = emax; BroadcastDatagram G n dp data tok d = (err, d') \<rbrakk> \<Longrightarrow>
    daemon_step emin emax d d'"
| closes: "GetConnection i (ports d) = Some c \<Longrightarrow> State c = StateEstablished \<Longrightarrow> daemon_step emin emax d (close_conn S c d)"
| acks: "daemon_step emin emax d (conn_acts i delayed_ack d)"
| expires: "daemon_step emin emax d (conn_acts i (expireHeldFIN now (finHoldIdle d)) d)"
| lingers: "daemon_step emin emax d (conn_acts i (linger_ends now) d)"
| reads: "daemon_step emin emax d (conn_acts i (app_read n) d)"
| segments: "daemon_step emin emax d (conn_acts i (app_segment send now data) d)"
| holds: "daemon_step emin emax d (conn_acts i (app_hold buf) d)"
| starts: "daemon_step emin emax d (conn_acts i retx_starts d)"
| binds: "daemon_step emin emax d (d\<lparr> ports := snd (Bind p (ports d)) \<rparr>)"
| unbinds: "daemon_step emin emax d (d\<lparr> ports := snd (Unbind p (ports d)) \<rparr>)"

inductive_cases daemon_stepE: "daemon_step emin emax d d'"

section \<open>Every step keeps the table in order\<close>

lemma conn_acts_ok:
  assumes "daemon_ok emin emax d"
    and "\<And>c pkts ev c'. f c = (pkts, ev, c') \<Longrightarrow> conn_ok c \<Longrightarrow> conn_ok c' \<and> LocalPort c' = LocalPort c \<and>
      (active_state (State c') \<longrightarrow> active_state (State c))"
  shows "daemon_ok emin emax (conn_acts i f d)"
proof (cases "GetConnection i (ports d)")
  case (Some c)
  obtain pkts ev c' where f: "f c = (pkts, ev, c')" by (metis prod.exhaust)
  have mem: "c \<in> set (all_conns (ports d))" using GetConnection_entry [OF Some] by (force simp: all_conns_def)
  then have "conn_ok c" using assms(1) by (simp add: daemon_ok_def)
  note F = assms(2) [OF f this]
  have "daemon_ok emin emax (conn_done c' pkts [] ev d)"
    using F by (intro daemon_ok_put [OF assms(1) _ mem]) auto
  then show ?thesis using Some f by (simp add: conn_acts_def)
qed (simp add: conn_acts_def assms(1))

lemma retransmit_frame:
  assumes "retransmitUnacked now rnd c = Some (pkts, c')" and "conn_ok c"
  shows "conn_ok c'" and "LocalPort c' = LocalPort c" and "active_state (State c') \<Longrightarrow> active_state (State c)"
proof -
  have fs: "conn_fields (forget_sacks now c) = conn_fields c" "LocalPort (forget_sacks now c) = LocalPort c"
    "State (forget_sacks now c) = State c"
    by (simp_all add: forget_sacks_def conn_fields_def split: list.split)
  have half: "2 * MaxSegmentSize \<le> half_flight x" for x by (simp add: half_flight_def Let_def)
  have "conn_ok (forget_sacks now c)" using conn_ok_same [OF fs(1)] assms(2) by simp
  moreover have "conn_ok (x\<lparr> SSThresh := half_flight y, InRecovery := r, RecoveryPoint := rp, CongWin := MaxSegmentSize, RTO := t, Unacked := u,
      Stats := s, DupAckCount := n, FastRecovery := fr, LastRetxTime := lr \<rparr>)" if "conn_ok x" for x y r rp t u s n fr lr
    using that half by (simp add: conn_ok_def cong_low_def recv_bounded_def held_ok_def)
  ultimately show "conn_ok c'" using assms by (auto simp: retransmitUnacked_def Let_def split: if_splits option.splits)
  show "LocalPort c' = LocalPort c" "active_state (State c') \<Longrightarrow> active_state (State c)"
    using assms(1) fs(2,3) by (auto simp: retransmitUnacked_def Let_def active_state_def split: if_splits option.splits)
qed

lemma retx_tick_ok:
  assumes "retx_tick E rnd i d = (b, d')" and "daemon_ok (de_emin E) (de_emax E) d"
  shows "daemon_ok (de_emin E) (de_emax E) d'"
proof (cases "GetConnection i (ports d)")
  case (Some c)
  have mem: "c \<in> set (all_conns (ports d))" using GetConnection_entry [OF Some] by (force simp: all_conns_def)
  then have ok: "conn_ok c" using assms(2) by (simp add: daemon_ok_def)
  have "daemon_ok (de_emin E) (de_emax E) (put_conn (CloseRecvBuf c) d)"
    by (rule daemon_ok_put [OF assms(2) _ mem, where c = "CloseRecvBuf c"], simp add: ok) (simp_all add: CloseRecvBuf_def put_conn_def)
  then have clean: "daemon_ok (de_emin E) (de_emax E) (remove_conn E i (put_conn (CloseRecvBuf c) d))" by (rule daemon_ok_remove)
  have retx: "daemon_ok (de_emin E) (de_emax E) (fold (tunnel_send (Node (RemoteAddr c))) pkts (put_conn c' d))"
    if "retransmitUnacked (de_now E) rnd c = Some (pkts, c')" for pkts c'
    using retransmit_frame [OF that ok] by (intro daemon_ok_put [OF assms(2) _ mem]) auto
  show ?thesis
    using assms Some clean retx by (auto simp: retx_tick_def Let_def split: if_splits option.splits)
qed (use assms in \<open>simp add: retx_tick_def\<close>)

text \<open>A borrowed port is nobody's, and it is back when the operation returns.\<close>

lemma with_port_ok:
  assumes ok: "daemon_ok (de_emin E) (de_emax E) d" and run: "with_port E body d = (err, d')"
    and body: "\<And>p e r e'. body p e = (r, e') \<Longrightarrow> ports e' = ports e"
  shows "daemon_ok (de_emin E) (de_emax E) d'"
    and "connections (ports d') = connections (ports d)"
    and "eph_used (de_emin E) (de_emax E) (ports d') = eph_used (de_emin E) (de_emax E) (ports d)"
    and "(err, d') = (Some ErrDatagramPorts, d) \<or>
      (\<exists>p pm e'. (\<forall>c\<in>set (all_conns (ports d)). active_state (State c) \<longrightarrow> LocalPort c \<noteq> p) \<and> body p (d\<lparr> ports := pm \<rparr>) = (err, e') \<and>
        d' = e'\<lparr> ports := ports d' \<rparr>)"
proof -
  let ?emin = "de_emin E" and ?emax = "de_emax E"
  let ?used = "eph_used ?emin ?emax"
  obtain p pm where a: "AllocEphemeralPort ?emin ?emax (ports d) = (p, pm)" by force
  have inv: "pm_inv ?emin ?emax (ports d)" using ok by (simp add: daemon_ok_def)
  then have eok: "eph_ok ?emin ?emax (ports d)" by (simp add: pm_inv_def)
  have "daemon_ok ?emin ?emax d' \<and> connections (ports d') = connections (ports d) \<and> ?used (ports d') = ?used (ports d) \<and>
      ((err, d') = (Some ErrDatagramPorts, d) \<or>
       (\<exists>p pm e'. (\<forall>c\<in>set (all_conns (ports d)). active_state (State c) \<longrightarrow> LocalPort c \<noteq> p) \<and> body p (d\<lparr> ports := pm \<rparr>) = (err, e') \<and>
        d' = e'\<lparr> ports := ports d' \<rparr>))"
  proof (cases "p = 0")
    case False
    obtain e' where e': "body p (d\<lparr> ports := pm \<rparr>) = (err, e')" "d' = e'\<lparr> ports := clearEphPortLocked ?emin ?emax p pm \<rparr>"
      using run a False body by (auto simp: with_port_def ReleaseEphemeralPort_def split: prod.splits)
    have pm: "pm_inv ?emin ?emax pm" using pm_inv_Alloc [OF inv] a by simp
    have conns: "connections pm = connections (ports d)" using a by (cases rule: alloc_cases [OF eok]) auto
    have fresh: "p \<in> eph_pool ?emin ?emax - ?used (ports d)" "?used pm = insert p (?used (ports d))"
      using eph.fresh [OF eok] eph.marks [OF eok] a False by simp_all
    then have free: "\<forall>c\<in>set (all_conns (ports d)). active_state (State c) \<longrightarrow> LocalPort c \<noteq> p"
      using inv by (fastforce simp: pm_inv_def ports_marked_def all_conns_def)
    then have "\<not> portInUse p pm" using conns by (auto simp: portInUse_def all_conns_def)
    then have "?used (ports d') = ?used (ports d)" using clear_used(1) [of ?emin ?emax pm p] pm fresh e'(2) by (auto simp: pm_inv_def)
    moreover have "connections (ports d') = connections (ports d)" using clear_used(2) [of ?emin ?emax pm p] pm conns e'(2) by (simp add: pm_inv_def)
    moreover from this have "daemon_ok ?emin ?emax d'"
      using ok pm_inv_clear [OF pm] e'(2) by (simp add: daemon_ok_def all_conns_def)
    moreover have "d' = e'\<lparr> ports := ports d' \<rparr>" using e'(2) by simp
    ultimately show ?thesis using free e'(1) by blast
  qed (use run a ok in \<open>simp add: with_port_def\<close>)
  then show "daemon_ok ?emin ?emax d'" "connections (ports d') = connections (ports d)" "?used (ports d') = ?used (ports d)"
    "(err, d') = (Some ErrDatagramPorts, d) \<or>
      (\<exists>p pm e'. (\<forall>c\<in>set (all_conns (ports d)). active_state (State c) \<longrightarrow> LocalPort c \<noteq> p) \<and> body p (d\<lparr> ports := pm \<rparr>) = (err, e') \<and>
        d' = e'\<lparr> ports := ports d' \<rparr>)" by blast+
qed

lemma broadcast_ports: "ports (fold (broadcast_one G netID srcPort dstPort data) nodes d) = ports d"
  by (induction nodes arbitrary: d) (auto simp: broadcast_one_def Let_def split: option.split)

lemma SendDatagram_ok:
  assumes "daemon_ok (de_emin (dg_env G)) (de_emax (dg_env G)) d" and "SendDatagram G dst dp data d = (err, d')"
  shows "daemon_ok (de_emin (dg_env G)) (de_emax (dg_env G)) d'" and "connections (ports d') = connections (ports d)"
    and "eph_used (de_emin (dg_env G)) (de_emax (dg_env G)) (ports d') = eph_used (de_emin (dg_env G)) (de_emax (dg_env G)) (ports d)"
proof -
  let ?emin = "de_emin (dg_env G)" and ?emax = "de_emax (dg_env G)"
  define body where "body srcPort e =
     (if \<not> dg_tunnel G (Node dst) then (Some ErrDatagramTunnel, e)
      else let pkt = datagram_packet (dNodeID e) srcPort dst dp data in
        if dg_send G pkt then (None, tunnel_send (Node dst) pkt e) else (Some ErrDatagramSend, e))" for srcPort e
  have b: "ports e' = ports e" if "body p e = (r, e')" for p e r e' using that by (auto simp: body_def Let_def split: if_splits)
  have "ports d' = ports d \<or> with_port (dg_env G) body d = (err, d')"
    using assms(2) by (auto simp: SendDatagram_def body_def [abs_def] split: if_splits)
  then show "daemon_ok ?emin ?emax d'" "connections (ports d') = connections (ports d)"
    "eph_used ?emin ?emax (ports d') = eph_used ?emin ?emax (ports d)"
    using with_port_ok(1-3) [OF assms(1), of body err d'] b assms(1) by (auto simp: daemon_ok_def)
qed

lemma BroadcastDatagram_ok:
  assumes "daemon_ok (de_emin (dg_env G)) (de_emax (dg_env G)) d" and "BroadcastDatagram G n dp data tok d = (err, d')"
  shows "daemon_ok (de_emin (dg_env G)) (de_emax (dg_env G)) d'" and "connections (ports d') = connections (ports d)"
    and "eph_used (de_emin (dg_env G)) (de_emax (dg_env G)) (ports d') = eph_used (de_emin (dg_env G)) (de_emax (dg_env G)) (ports d)"
proof -
  let ?emin = "de_emin (dg_env G)" and ?emax = "de_emax (dg_env G)"
  let ?body = "\<lambda>srcPort. broadcastDatagram G n srcPort dp data"
  have b: "ports e' = ports e" if "?body p e = (r, e')" for p e r e'
    using that broadcast_ports by (auto simp: broadcastDatagram_def split: if_splits option.splits)
  have "d' = d \<or> with_port (dg_env G) ?body d = (err, d')"
    using assms(2) by (auto simp: BroadcastDatagram_def split: if_splits)
  then show "daemon_ok ?emin ?emax d'" "connections (ports d') = connections (ports d)"
    "eph_used ?emin ?emax (ports d') = eph_used ?emin ?emax (ports d)"
    using with_port_ok(1-3) [OF assms(1), of ?body err d'] b assms(1) by auto
qed

lemma dial_open_ok:
  assumes run: "dial_open E dst dp oks w = (r, w')" and ok: "daemon_ok (de_emin (dl_env E)) (de_emax (dl_env E)) (daemon w)"
  shows "daemon_ok (de_emin (dl_env E)) (de_emax (dl_env E)) (daemon w')"
proof (cases r)
  case (Inl err)
  let ?emin = "de_emin (dl_env E)" and ?emax = "de_emax (dl_env E)"
  obtain p pm1 where a: "AllocEphemeralPort ?emin ?emax (ports (daemon w)) = (p, pm1)" by force
  obtain c pm2 where n: "NewConnection ?emin ?emax (de_now (dl_env E)) p dst dp pm1 = (c, pm2)" by force
  define c1 where "c1 = dial_conn dst (dNodeID (daemon w)) c"
  define v where "v = on_conn (\<lambda>_. c1) (w\<lparr> daemon := (daemon w)\<lparr> ports := pm2 \<rparr> \<rparr>)"
  show ?thesis
  proof (cases "p = 0")
    case False
    have inv: "pm_inv ?emin ?emax pm1" using pm_inv_Alloc [of ?emin ?emax "ports (daemon w)"] a ok by (simp add: daemon_ok_def)
    note N = connections_New [OF n] and P = pm_inv_New [OF inv n]
    have conns: "connections pm1 = connections (ports (daemon w))"
      using a by (auto simp: AllocEphemeralPort_def Let_def split: option.splits)
    have "pm_inv ?emin ?emax (set_connection c1 pm2)"
      by (rule pm_inv_update [OF P(1)]) (use P(2) N(2) in \<open>simp add: c1_def dial_conn_def\<close>)
    moreover have "conn_ok c1" "conn_ok c"
      using new_connection_ok conn_ok_same [of c1 c] N(2) by (simp_all add: c1_def dial_conn_def conn_fields_def)
    moreover have "set (all_conns (set_connection c1 pm2)) \<subseteq> insert c1 (insert c (set (all_conns (ports (daemon w)))))"
      using set_connection_conns [of c1 pm2] new_conns [OF n] conns by (auto simp: all_conns_def)
    ultimately have "daemon_ok ?emin ?emax (daemon v)"
      using ok by (auto simp: daemon_ok_def v_def on_conn_def)
    moreover obtain s v5 where s: "send_syn E (dial_syn dst dp c1) v = (s, v5)" by force
    moreover have "w' = drop_conn E v5"
      using run False a n s unfolding Inl by (auto simp: dial_open_def dial_send_def Let_def c1_def v_def split: if_splits)
    ultimately have "daemon_ok ?emin ?emax (daemon v5)" using send_syn_simps(4) [OF s] by (simp add: daemon_ok_def)
    then show ?thesis using daemon_ok_remove [of "dl_env E" "daemon v5"] \<open>w' = drop_conn E v5\<close> by (simp add: drop_conn_def)
  qed (use run a ok in \<open>simp add: dial_open_def\<close>)
next
  case (Inr l)
  show ?thesis by (rule dial_table(5) [OF run [unfolded Inr] ok])
qed

lemma close_conn_ok:
  assumes "daemon_ok emin emax d" and "GetConnection i (ports d) = Some c" and "State c = StateEstablished"
  shows "daemon_ok emin emax (close_conn S c d)"
proof -
  have mem: "c \<in> set (all_conns (ports d))" using GetConnection_entry [OF assms(2)] by (force simp: all_conns_def)
  then have "conn_ok c" using assms(1) by (simp add: daemon_ok_def)
  then obtain c' where "ports (close_conn S c d) = set_connection c' (ports d)" "conn_ok c'" "who c' = who c" "State c' = StateFinWait"
    using close_conn_put by blast
  then show ?thesis using assms(3) by (intro daemon_ok_put [OF assms(1) _ mem]) (auto simp: who_def active_state_def)
qed

lemma acceptFIN_frame: "acceptFIN now sq c = (pkts, ev, c') \<Longrightarrow> LocalPort c' = LocalPort c \<and> \<not> active_state (State c')"
  by (auto simp: acceptFIN_def CloseRecvBuf_def stopFINHold_def active_state_def Let_def split: if_splits)

lemma expire_frame:
  assumes "expireHeldFIN now k c = (pkts, ev, c')" and "conn_ok c"
  shows "conn_ok c' \<and> LocalPort c' = LocalPort c \<and> (active_state (State c') \<longrightarrow> active_state (State c))"
proof (cases "finPending c \<and> State c = StateEstablished \<and> \<not> k - time_sub now (finHeard c) > 0")
  case True
  then have a: "acceptFIN now (finSeq c) (c\<lparr> finPending := False, finHoldTimer := None \<rparr>) = (pkts, ev, c')"
    using assms(1) by (simp add: expireHeldFIN_def Let_def)
  have "conn_fields (c\<lparr> finPending := False, finHoldTimer := None \<rparr>) = conn_fields c" by (simp add: conn_fields_def)
  then show ?thesis using acceptFIN_fields [OF a] acceptFIN_frame [OF a] conn_ok_same [of c' c] assms(2) by simp
next
  case False
  have "conn_fields c' = conn_fields c \<and> LocalPort c' = LocalPort c \<and> State c' = State c"
    using assms(1) False by (auto simp: expireHeldFIN_def conn_fields_def Let_def split: if_splits)
  then show ?thesis using conn_ok_same [of c' c] assms(2) by simp
qed

lemma conn_ops_frame:
  "\<lbrakk> delayed_ack c = (pkts, ev, c'); conn_ok c \<rbrakk> \<Longrightarrow> conn_ok c' \<and> LocalPort c' = LocalPort c \<and> State c' = State c"
  "\<lbrakk> linger_ends now c = (pkts, ev, c'); conn_ok c \<rbrakk> \<Longrightarrow> conn_ok c' \<and> LocalPort c' = LocalPort c \<and> State c' = State c"
  "\<lbrakk> app_read n c = (pkts, ev, c'); conn_ok c \<rbrakk> \<Longrightarrow> conn_ok c' \<and> LocalPort c' = LocalPort c \<and> State c' = State c"
  "\<lbrakk> app_segment send now data c = (pkts, ev, c'); conn_ok c \<rbrakk> \<Longrightarrow> conn_ok c' \<and> LocalPort c' = LocalPort c \<and> State c' = State c"
  "\<lbrakk> app_hold buf c = (pkts, ev, c'); conn_ok c \<rbrakk> \<Longrightarrow> conn_ok c' \<and> LocalPort c' = LocalPort c \<and> State c' = State c"
  "\<lbrakk> retx_starts c = (pkts, ev, c'); conn_ok c \<rbrakk> \<Longrightarrow> conn_ok c' \<and> LocalPort c' = LocalPort c \<and> State c' = State c"
proof -
  have q: "conn_fields (c\<lparr> QuickACKs := x \<rparr>) = conn_fields c" for x by (simp add: conn_fields_def)
  show "\<lbrakk> delayed_ack c = (pkts, ev, c'); conn_ok c \<rbrakk> \<Longrightarrow> conn_ok c' \<and> LocalPort c' = LocalPort c \<and> State c' = State c"
    using sendDelayedACK_fields [of "c\<lparr> QuickACKs := QuickACKBudget \<rparr>"] conn_ok_same [of c' c] q
    by (auto simp: delayed_ack_def ack_timer_fires_def split_beta) (simp_all add: sendDelayedACK_def Let_def)
  show "\<lbrakk> linger_ends now c = (pkts, ev, c'); conn_ok c \<rbrakk> \<Longrightarrow> conn_ok c' \<and> LocalPort c' = LocalPort c \<and> State c' = State c"
    using conn_ok_release [of "(c, [])" now] State_release [of now "(c, [])"] who_release [of now "(c, [])"]
    by (auto simp: linger_ends_def who_def split: prod.splits)
  show "\<lbrakk> app_read n c = (pkts, ev, c'); conn_ok c \<rbrakk> \<Longrightarrow> conn_ok c' \<and> LocalPort c' = LocalPort c \<and> State c' = State c"
    by (auto simp: app_read_def conn_ok_def cong_low_def recv_bounded_def held_ok_def)
  show "\<lbrakk> app_segment send now data c = (pkts, ev, c'); conn_ok c \<rbrakk> \<Longrightarrow> conn_ok c' \<and> LocalPort c' = LocalPort c \<and> State c' = State c"
    using conn_ok_transmit [of send now data "(c, [])"] State_transmit [of send now data "(c, [])"] who_transmit [of send now data "(c, [])"]
    by (auto simp: app_segment_def who_def split: prod.splits)
  show "\<lbrakk> app_hold buf c = (pkts, ev, c'); conn_ok c \<rbrakk> \<Longrightarrow> conn_ok c' \<and> LocalPort c' = LocalPort c \<and> State c' = State c"
    by (auto simp: app_hold_def)
  show "\<lbrakk> retx_starts c = (pkts, ev, c'); conn_ok c \<rbrakk> \<Longrightarrow> conn_ok c' \<and> LocalPort c' = LocalPort c \<and> State c' = State c"
    using conn_ok_same [of c' c] by (auto simp: retx_starts_def startRetxLoop_def conn_fields_def)
qed

lemma conn_acts_keep:
  assumes "daemon_ok emin emax d"
    and "\<And>c pkts ev c'. f c = (pkts, ev, c') \<Longrightarrow> conn_ok c \<Longrightarrow> conn_ok c' \<and> LocalPort c' = LocalPort c \<and> State c' = State c"
  shows "daemon_ok emin emax (conn_acts i f d)"
proof (rule conn_acts_ok [OF assms(1)])
  fix c pkts ev c'
  assume "f c = (pkts, ev, c')" "conn_ok c"
  from assms(2) [OF this] show "conn_ok c' \<and> LocalPort c' = LocalPort c \<and> (active_state (State c') \<longrightarrow> active_state (State c))" by simp
qed

lemma daemon_step_ok: "\<lbrakk> daemon_step emin emax d d'; daemon_ok emin emax d \<rbrakk> \<Longrightarrow> daemon_ok emin emax d'"
proof (induction rule: daemon_step.induct)
  case (packet E pkt d d')
  then show ?case using dispatch_fine [of E d pkt] by (auto simp: env_ok_def fine_def)
next
  case (retransmits E rnd i d goes_on d')
  then show ?case using retx_tick_ok by blast
next
  case (sweeps S d)
  then show ?case using idle_sweep_settles [of S d] by (simp add: env_ok_def settles_def)
next
  case (dials D w d dst dp oks r w')
  then show ?case using dial_open_ok by blast
next
  case (drops E d i)
  then show ?case using daemon_ok_remove by blast
next
  case (datagrams G dst dp data d err d')
  then show ?case using SendDatagram_ok(1) by blast
next
  case (broadcasts G n dp data tok d err d')
  then show ?case using BroadcastDatagram_ok(1) by blast
next
  case (closes i d c S)
  then show ?case using close_conn_ok by blast
next
  case (acks d i)
  then show ?case by (rule conn_acts_keep) (erule (1) conn_ops_frame)
next
  case (expires d i now)
  then show ?case by (rule conn_acts_ok) (erule (1) expire_frame)
next
  case (lingers d i now)
  then show ?case by (rule conn_acts_keep) (erule (1) conn_ops_frame)
next
  case (reads d i n)
  then show ?case by (rule conn_acts_keep) (erule (1) conn_ops_frame)
next
  case (segments d i send now data)
  then show ?case by (rule conn_acts_keep) (erule (1) conn_ops_frame)
next
  case (holds d i buf)
  then show ?case by (rule conn_acts_keep) (erule (1) conn_ops_frame)
next
  case (starts d i)
  then show ?case by (rule conn_acts_keep) (erule (1) conn_ops_frame)
next
  case (binds d p)
  then show ?case by (auto simp: daemon_ok_def Bind_def Let_def pm_inv_listeners all_conns_def split: option.split)
next
  case (unbinds d p)
  then show ?case by (auto simp: daemon_ok_def Unbind_def Let_def pm_inv_listeners all_conns_def split: option.split)
qed

section \<open>Whom a sweep removes\<close>

lemma fold_reap_exact:
  "set (connections (ports (fold (reap_stale E) cs d))) = {x \<in> set (connections (ports d)). fst x \<notin> ID ` set cs}"
proof (induction cs arbitrary: d)
  case (Cons c cs)
  show ?case using Cons [of "reap_stale E c d"] by (auto simp: reap_connections AList.delete_eq)
qed simp

lemma reap_conns:
  assumes env: "env_ok E d" and cs: "set cs \<subseteq> set (all_conns (ports d))"
  shows "set (all_conns (ports (fold (reap_stale E) cs d))) = set (all_conns (ports d)) - set cs"
proof (rule set_eqI)
  fix c
  have inj: "inj_on ID (set (all_conns (ports d)))" using filter_conns [OF env, of "\<lambda>_. True"] by (simp add: distinct_map)
  have "c \<in> set (all_conns (ports (fold (reap_stale E) cs d))) \<longleftrightarrow> (\<exists>i. (i, c) \<in> set (connections (ports d)) \<and> i \<notin> ID ` set cs)"
    unfolding all_conns_def by (auto simp: fold_reap_exact) force
  also have "\<dots> \<longleftrightarrow> c \<in> set (all_conns (ports d)) \<and> ID c \<notin> ID ` set cs"
    using env_ids [OF env] by (force simp: all_conns_def)
  also have "\<dots> \<longleftrightarrow> c \<in> set (all_conns (ports d)) - set cs" using inj cs by (auto simp: inj_on_def subset_iff)
  finally show "c \<in> set (all_conns (ports (fold (reap_stale E) cs d))) \<longleftrightarrow> c \<in> set (all_conns (ports d)) - set cs" .
qed

lemma residents_put_known:
  assumes "env_ok E d" and "c \<in> set (all_conns (ports d))" and "who c' = who c" and "ports d' = set_connection c' (ports d)"
  shows "residents d' = residents d"
proof
  have ids: "ID c' = ID c" using assms(3) by (simp add: who_def)
  show "residents d' \<subseteq> residents d"
    using set_connection_conns [of c' "ports d"] assms(2-4) by (auto simp: residents_def)
  show "residents d \<subseteq> residents d'"
  proof
    fix y assume "y \<in> residents d"
    then obtain x where x: "x \<in> set (all_conns (ports d))" "y = who x" by (auto simp: residents_def)
    show "y \<in> residents d'"
    proof (cases "ID x = ID c")
      case True
      have inj: "inj_on ID (set (all_conns (ports d)))"
        using filter_conns [OF assms(1), of "\<lambda>_. True"] by (simp add: distinct_map)
      then have "x = c" using x(1) assms(2) True by (meson inj_onD)
      moreover obtain i where "(i, c) \<in> set (connections (ports d))" using assms(2) by (auto simp: all_conns_def)
      then have "(ID c', c') \<in> set (connections (set_connection c' (ports d)))"
        using env_ids [OF assms(1)] ids by (force simp: set_connection_def)
      then have "c' \<in> set (all_conns (ports d'))" using assms(4) by (force simp: all_conns_def)
      ultimately show ?thesis using x(2) assms(3) by (auto simp: residents_def intro: rev_image_eqI)
    next
      case False
      then have "x \<in> set (all_conns (ports d'))"
        using put_keeps_others [OF x(1), of c'] env_ids [OF assms(1)] ids assms(4) by simp
      then show ?thesis using x(2) by (auto simp: residents_def)
    qed
  qed
qed

lemma touches_residents:
  assumes "touches f" and "env_ok E d" and "c \<in> set (all_conns (ports d))"
  shows "residents (f c d) = residents d"
proof -
  have "ports (f c d) = ports d \<or> (\<exists>c'. ports (f c d) = set_connection c' (ports d) \<and> who c' = who c)"
    using assms(1) known_conn_ok [OF assms(2,3)] unfolding touches_def by blast
  then show ?thesis
  proof (elim disjE exE conjE)
    fix c' assume "ports (f c d) = set_connection c' (ports d)" "who c' = who c"
    then show ?thesis by (intro residents_put_known [OF assms(2,3)])
  qed (simp add: residents_def)
qed

lemma fold_residents_same:
  assumes "touches f" and "env_ok E d" and "distinct (map ID cs)" and "set cs \<subseteq> set (all_conns (ports d))"
  shows "residents (fold f cs d) = residents d"
  using assms(2-4)
proof (induction cs arbitrary: d)
  case (Cons c cs)
  note W = works_rest [OF touches_works [OF assms(1)] Cons.prems]
  show ?case
    using Cons.IH [OF settles_env [OF W(2)] _ W(3)] Cons.prems(2) touches_residents [OF assms(1) Cons.prems(1) W(1)] by simp
qed simp

section \<open>Properties\<close>



text \<open>
  (C22) A sweep removes exactly the connections that are stale at its time: closed ones, dials
  older than five seconds, and ones that closed longer ago than the TIME_WAIT period. It may close
  others, but they stay in the table.
\<close>

theorem sweep_removes_stale:
  assumes "daemon_ok (de_emin (sw_env S)) (de_emax (sw_env S)) d"
  shows "(\<lambda>c. (ID c, LocalPort c, RemoteAddr c, RemotePort c)) ` set (all_conns (ports (idle_sweep S d))) =
    (\<lambda>c. (ID c, LocalPort c, RemoteAddr c, RemotePort c)) `
      {c \<in> set (all_conns (ports d)). \<not> is_stale (de_now (sw_env S)) (timeWaitDuration (config d)) c}"
proof -
  define E where "E = sw_env S"
  define now where "now = de_now E"
  let ?stale = "is_stale now (timeWaitDuration (config d))"
  define d1 where "d1 = fold (reap_stale E) (StaleConnections now (timeWaitDuration (config d)) (ports d)) d"
  define d2 where "d2 = fold (\<lambda>c d. close_conn S c (publish_event (ConnIdleTimeout (ID c)) d)) (IdleConnections now (idleTimeout (config d)) (ports d1)) d1"
  define d3 where "d3 = d2\<lparr> perSrcSYN := reapPerSrcSYN now (perSrcSYN d2), outbound := pruneLocked now (outbound d2) \<rparr>"
  have env: "env_ok E d" using assms by (simp add: env_ok_def E_def)
  have s1: "settles E d d1"
    unfolding d1_def StaleConnections_def using filter_conns [OF env] by (intro fold_settles [OF reap_works env]) auto
  have s2: "settles E d1 d2"
    unfolding d2_def fold_idle_close unfolding IdleConnections_def
    using filter_conns [OF settles_env [OF s1]] by (intro fold_settles [OF touches_works [OF idle_close_touches] settles_env [OF s1]]) auto
  have env3: "env_ok E d3" using settles_env [OF s2] by (simp add: env_ok_def daemon_ok_def d3_def)
  have "residents (keepalive_sweep S d3) = residents d3"
    unfolding keepalive_sweep_def IdleConnections_def
    using filter_conns [OF env3] by (intro fold_residents_same [OF keepalive_touches env3]) auto
  moreover have "residents d2 = residents d1"
    unfolding d2_def fold_idle_close unfolding IdleConnections_def
    using filter_conns [OF settles_env [OF s1]] by (intro fold_residents_same [OF idle_close_touches settles_env [OF s1]]) auto
  moreover have "residents d3 = residents d2" by (simp add: residents_def d3_def)
  moreover have "idle_sweep S d = keepalive_sweep S d3" by (simp add: idle_sweep_def d1_def d2_def d3_def E_def now_def Let_def)
  moreover have "set (all_conns (ports d1)) = {c \<in> set (all_conns (ports d)). \<not> ?stale c}"
    unfolding d1_def using reap_conns [OF env, of "StaleConnections now (timeWaitDuration (config d)) (ports d)"]
    by (auto simp: StaleConnections_def)
  ultimately show ?thesis by (simp add: residents_def who_def [abs_def] now_def E_def)
qed

theorem sweep_removes_stale_witness:
  "let c = (sample_stream 80 \<lparr> Network = 0, Node = 6 \<rparr> 49152)\<lparr> State := StateClosed \<rparr> in
   all_conns (ports (sample_with c)) = [c] \<and> all_conns (ports (idle_sweep sample_sweep (sample_with c))) = []"
proof -
  let ?c = "(sample_stream 80 \<lparr> Network = 0, Node = 6 \<rparr> 49152)\<lparr> State := StateClosed \<rparr>"
  have "conn_ok ?c" using sample_stream_ok by simp
  moreover have "LocalPort ?c \<notin> eph_pool 49152 65535" by (simp add: sample_stream_def new_connection_def eph_pool_def)
  ultimately have ok: "daemon_ok (de_emin (sw_env sample_sweep)) (de_emax (sw_env sample_sweep)) (sample_with ?c)"
    using sample_with_ok [of ?c] by (simp add: sample_sweep_def sample_env_def)
  have all: "all_conns (ports (sample_with ?c)) = [?c]" by (simp add: all_conns_def)
  have "is_stale t w ?c" for t w by (simp add: is_stale_def)
  then have none: "{c \<in> set (all_conns (ports (sample_with ?c))). \<not> is_stale (de_now (sw_env sample_sweep)) (timeWaitDuration (config (sample_with ?c))) c} = {}"
    unfolding all by auto
  have "set (all_conns (ports (idle_sweep sample_sweep (sample_with ?c)))) = {}"
    by (rule image_is_empty [THEN iffD1, OF trans [OF sweep_removes_stale [OF ok, unfolded none] image_empty]])
  then show ?thesis using all by (simp add: Let_def)
qed

text \<open>
  (C23) A datagram goes out as asked or not at all. If \<^verbatim>\<open>SendDatagram\<close> returns no error, exactly one
  packet was handed to the tunnel, to the peer's node, with the data and this node's address, from
  a port that is no active connection's local port, and the port policy of the network allowed it;
  if it returns an error nothing was sent. In both cases the connections and the ephemeral ports in
  use are as before.
\<close>

theorem datagram_borrows_free_port:
  assumes "daemon_ok (de_emin (dg_env G)) (de_emax (dg_env G)) d" and "SendDatagram G dstAddr dstPort data d = (err, d')"
  shows "connections (ports d') = connections (ports d) \<and>
    eph_used (de_emin (dg_env G)) (de_emax (dg_env G)) (ports d') = eph_used (de_emin (dg_env G)) (de_emax (dg_env G)) (ports d) \<and>
    (case err of
       Some _ \<Rightarrow> sentPkts d' = sentPkts d
     | None \<Rightarrow>
       evaluatePortPolicy (de_services (dg_env G)) (netPolicies d) (memberTags d) PolicyEventDatagram (Network dstAddr) dstPort
         (Node dstAddr) (length data) ''out'' \<and>
       (\<exists>pkt. sentPkts d' = sentPkts d @ [(Node dstAddr, pkt)] \<and> Protocol pkt = ProtoDatagram \<and> Payload pkt = data \<and> Dst pkt = dstAddr \<and>
         DstPort pkt = dstPort \<and> Node (Src pkt) = dNodeID d \<and>
         (\<forall>c\<in>set (all_conns (ports d)). active_state (State c) \<longrightarrow> LocalPort c \<noteq> SrcPort pkt)))"
proof -
  define body where "body srcPort e =
     (if \<not> dg_tunnel G (Node dstAddr) then (Some ErrDatagramTunnel, e)
      else let pkt = datagram_packet (dNodeID e) srcPort dstAddr dstPort data in
        if dg_send G pkt then (None, tunnel_send (Node dstAddr) pkt e) else (Some ErrDatagramSend, e))" for srcPort e
  have b: "ports e' = ports e" if "body p e = (r, e')" for p e r e' using that by (auto simp: body_def Let_def split: if_splits)
  let ?pol = "evaluatePortPolicy (de_services (dg_env G)) (netPolicies d) (memberTags d) PolicyEventDatagram (Network dstAddr) dstPort
      (Node dstAddr) (length data) ''out''"
  consider "err \<noteq> None" "sentPkts d' = sentPkts d" | "?pol" "with_port (dg_env G) body d = (err, d')"
    using assms(2) by (auto simp: SendDatagram_def body_def [abs_def] publish_event_def split: if_splits)
  then have "case err of Some _ \<Rightarrow> sentPkts d' = sentPkts d
     | None \<Rightarrow> ?pol \<and>
       (\<exists>pkt. sentPkts d' = sentPkts d @ [(Node dstAddr, pkt)] \<and> Protocol pkt = ProtoDatagram \<and> Payload pkt = data \<and> Dst pkt = dstAddr \<and>
         DstPort pkt = dstPort \<and> Node (Src pkt) = dNodeID d \<and>
         (\<forall>c\<in>set (all_conns (ports d)). active_state (State c) \<longrightarrow> LocalPort c \<noteq> SrcPort pkt))"
  proof cases
    case 2
    have W: "(err, d') = (Some ErrDatagramPorts, d) \<or>
      (\<exists>p pm e'. (\<forall>c\<in>set (all_conns (ports d)). active_state (State c) \<longrightarrow> LocalPort c \<noteq> p) \<and> body p (d\<lparr> ports := pm \<rparr>) = (err, e') \<and>
        d' = e'\<lparr> ports := ports d' \<rparr>)" using b by (rule with_port_ok(4) [OF assms(1) 2(2)])
    show ?thesis
    proof (cases "(err, d') = (Some ErrDatagramPorts, d)")
      case False
      then obtain p pm e' where p: "\<forall>c\<in>set (all_conns (ports d)). active_state (State c) \<longrightarrow> LocalPort c \<noteq> p"
        "body p (d\<lparr> ports := pm \<rparr>) = (err, e')" "d' = e'\<lparr> ports := ports d' \<rparr>" using W by blast
      have "sentPkts d' = sentPkts e'" using arg_cong [OF p(3), of sentPkts] by simp
      then show ?thesis using p(1,2) 2(1) by (auto simp: body_def Let_def datagram_packet_def tunnel_send_def split: if_splits)
    qed auto
  qed (auto split: option.split)
  then show ?thesis using SendDatagram_ok(2,3) [OF assms] by blast
qed

definition sample_datagrams :: datagram_env where
  "sample_datagrams = \<lparr> dg_env = sample_env, dg_isBroadcast = (\<lambda>a. Node a = 0xFFFFFFFF), dg_tunnel = (\<lambda>_. True), dg_send = (\<lambda>_. True), dg_nodes = (\<lambda>_. None), dg_consent = True,
    AdminToken = '''' \<rparr>"

theorem datagram_borrows_free_port_witness:
  "\<exists>d' pkt. SendDatagram sample_datagrams \<lparr> Network = 0, Node = 6 \<rparr> 53 [1, 2] sample_daemon = (None, d') \<and>
    sentPkts d' = [(6, pkt)] \<and> Payload pkt = [1, 2]"
proof -
  let ?r = "SendDatagram sample_datagrams \<lparr> Network = 0, Node = 6 \<rparr> 53 [1, 2] sample_daemon"
  obtain err d' where r: "?r = (err, d')" by force
  obtain p pm where a: "AllocEphemeralPort 49152 65535 (ports sample_daemon) = (p, pm)" by force
  then have "p \<noteq> 0" using sample_port by simp
  then have "err = None"
    using r a by (auto simp: SendDatagram_def evaluatePortPolicy_def isPortAllowed_def sample_datagrams_def sample_env_def
        sample_services_def Let_def) (auto simp: sample_daemon_def with_port_def)
  moreover have ok: "daemon_ok (de_emin (dg_env sample_datagrams)) (de_emax (dg_env sample_datagrams)) sample_daemon"
    using sample_daemon_ok by (simp add: sample_datagrams_def sample_env_def)
  moreover have "sentPkts sample_daemon = []" by (simp add: sample_daemon_def)
  ultimately show ?thesis using datagram_borrows_free_port [OF ok r] r by auto
qed

end
