(* ===== verification/Spec2Isabelle.thy ===== *)
theory Spec2Isabelle
  imports Port_Manager Beacon_Select Tunnel_Runs Daemon_Runs
begin

text \<open>
  Verification of the Pilot Protocol daemon, the Go program under \<^verbatim>\<open>src/pkg/daemon\<close>.

  \<^bold>\<open>The program.\<close> A daemon joins an overlay network of nodes with 32-bit identities. Under the
  applications there is a reliable byte stream per connection (\<^verbatim>\<open>ports.go\<close>, \<^verbatim>\<open>daemon.go\<close>);
  its packets go through the tunnel manager (\<^verbatim>\<open>tunnel.go\<close>), which seals them under a key per
  peer (\<^verbatim>\<open>envelope/\<close>, with the keys and replay windows of \<^verbatim>\<open>keyexchange/crypto.go\<close> and
  \<^verbatim>\<open>store.go\<close>), obtains the keys by an authenticated exchange (\<^verbatim>\<open>keyexchange/\<close>), and writes
  frames directly or through a beacon's relay (\<^verbatim>\<open>routing/\<close>).

  \<^bold>\<open>The theories\<close>, in the order in which they build on each other:

  \<^item> \<open>Pilot_Prelude\<close>: words and their big-endian codecs, Go slices, divisions and maps, saturating
    time differences, bitmaps, the interface \<open>fixed_codec\<close> of fixed-width codecs and \<open>op_system\<close>
    of a state with operations that keep an invariant.
  \<^item> \<open>Seq_Arith\<close>: \<^verbatim>\<open>seqAfter\<close> and \<^verbatim>\<open>seqAfterOrEqual\<close>, modulo \<open>2^32\<close>.
  \<^item> \<open>Sack_Codec\<close>: \<^verbatim>\<open>EncodeSACK\<close> and \<^verbatim>\<open>DecodeSACK\<close>.
  \<^item> \<open>Conn_Types\<close>: packets, \<^verbatim>\<open>Connection\<close> and its parts. \<open>Conn_Recv\<close>: \<^verbatim>\<open>DeliverInOrder\<close> in its
    three critical sections, \<^verbatim>\<open>SACKBlocks\<close>, \<^verbatim>\<open>RecvWindow\<close>. \<open>Conn_Send\<close>: \<^verbatim>\<open>ProcessAck\<close>,
    \<^verbatim>\<open>ProcessSACK\<close>, \<^verbatim>\<open>TrackSend\<close>, the congestion window and \<^verbatim>\<open>retransmitUnacked\<close>.
  \<^item> \<open>Port_Manager\<close>: listeners, ephemeral ports as a bitmap, the connection table.
  \<^item> \<open>Replay_Window\<close>, \<open>Key_Store\<close>, \<open>Envelope\<close>: the 256-bit replay window, the store with its key
    objects in a heap (the code compares \<^verbatim>\<open>*Crypto\<close> pointers), sealing and opening frames.
  \<^item> \<open>Routing\<close>, \<open>Beacon_Select\<close>: relay flags, blackhole detection, frame writing, the beacon's
    messages; the choice of a beacon.
  \<^item> \<open>Key_Exchange\<close>: the manager, its frames, the two handlers, the retransmit tick. The hooks the
    tunnel installs are fields of an environment; the locale \<open>kx_wiring\<close> states that they keep the
    keys. \<open>Kx_Effects\<close> lifts a relation kept by the hooks to the whole key exchange.
  \<^item> \<open>Kx_Limit\<close>: the token buckets in front of the key exchange (locale \<open>rate_limiter\<close>).
  \<^item> \<open>Tunnel\<close>: the tunnel manager; it interprets \<open>kx_wiring\<close> with its own hooks. \<open>Tunnel_Flow\<close>:
    which datagrams leave and which packets are delivered. \<open>Tunnel_Delivery\<close>: from one node to the
    other. \<open>Tunnel_Runs\<close>: invariants of every sequence of operations. \<open>Tunnel_Sample\<close>: concrete
    nodes on which the properties are evaluated.
  \<^item> \<open>Stream_Send\<close>: writing to a stream (\<^verbatim>\<open>SendData\<close>, \<^verbatim>\<open>flushNagle\<close>, \<^verbatim>\<open>sendSegment\<close>) and closing
    it (\<^verbatim>\<open>CloseConnection\<close> with the held FIN). \<open>Stream_Flow\<close>: what the writes put on the wire.
    \<open>Stream_End\<close>: sender, network and receiver together.
  \<^item> \<open>Admission\<close>: rate limits of SYNs, the reply window (\<^verbatim>\<open>replywindow.go\<close>), trust and port policy.
    \<open>Stream_Handle\<close>: the packet handlers, from \<^verbatim>\<open>handlePacket\<close> to \<^verbatim>\<open>sendRST\<close>, on the record
    \<open>Daemon\<close>. \<open>Stream_Close\<close>: the end of a stream at both ends. \<open>Daemon_Guard\<close>: what a peer and a
    stranger can make the handlers do. \<open>Daemon_Inv\<close>: the invariant \<open>daemon_ok\<close> of the daemon and the
    caps on its connections.
  \<^item> \<open>Dial\<close>: \<^verbatim>\<open>dialConnectionLocked\<close>; between two events of a dial other goroutines may do
    anything. \<open>Handshake\<close>: a dial and the daemon it reaches. \<open>Daemon_Sweep\<close>: \<^verbatim>\<open>retxLoop\<close>,
    \<^verbatim>\<open>idleSweepLoop\<close>, \<^verbatim>\<open>keepaliveSweep\<close>, datagrams and broadcasts. \<open>Daemon_Runs\<close>: the step relation
    \<open>daemon_step\<close> over all of these and the states it reaches.

  \<^bold>\<open>Conventions.\<close> A function of the model has the name of the Go function; state goes in and
  out as a record, errors are options or sums, a panic is \<open>None\<close>. Fields of fixed width are words;
  Go's \<^verbatim>\<open>int\<close>, instants and durations are integers, with the saturation of \<^verbatim>\<open>Time.Sub\<close> written
  out. A function that reads the clock takes it as an argument. A loop over a map takes the order
  in which the map is visited as an argument, or its result is a set. Each function is one atomic
  step, except where its critical sections are separate definitions (\<open>deliver_phase1\<close> to \<open>3\<close>,
  \<open>blackhole_observe\<close> and \<open>blackhole_commit\<close>, \<open>commit_frame\<close>) or where it waits: a write and a dial
  take the list of events they wake up for, each with what others did in between. No definition
  needs fuel: the loops run over lists, finite maps or such events. Cryptographic primitives, the packet codec and the socket are not
  under \<^verbatim>\<open>src/\<close>; they are parameters, and the theorems that need a law of theirs state it.

  \<^bold>\<open>What is shown.\<close> For the stream: whatever order, loss and repetition, the reader gets a prefix
  of what was written, no byte of a returned write is forgotten, and after a close a peer that saw
  the end has everything; the congestion state stays in range and unacknowledged data is resent.
  For the daemon: a handshake leaves both ends with matching sequence numbers, dials end and a
  failed one leaves nothing behind, no interleaving of packets, timers and calls makes a handler
  panic or lets two active connections share an ephemeral port, floods are held to the rates and
  caps, strangers have no effect on a private node, sweeps remove exactly what is stale, and
  datagrams give their port back.
  For the tunnel: nothing leaves in the clear, only authentic packets are delivered and none twice,
  what is sent to a peer with a session is delivered by it, authenticated sessions belong to the
  registered identity, unanswered exchanges end, silent peers move to the relay, and the tables a
  remote party can grow are bounded. Some theorems describe defects; they are listed with the
  findings.

  \<^bold>\<open>Not modelled.\<close> The command-line programs (\<^verbatim>\<open>src/cmd\<close>), the catalogue and the packages under
  \<^verbatim>\<open>src/internal\<close> do not take part in the protocol. Within the daemon, the code that opens sockets
  and files, the goroutines that only call the functions above on a timer, logging and metrics have
  no counterpart. The IPC server translates requests of local clients into the operations above; its
  wire format and its client table are left out. Resolution of peers (\<^verbatim>\<open>ensureTunnel\<close>, the caches),
  registration, the watchdogs and managed networks are driven by the answers of the registry, whose
  client is not under \<^verbatim>\<open>src/\<close>; \<^verbatim>\<open>ensureTunnel\<close> is a parameter of the dial.
\<close>

end
